(* ===== verification/Prelude.thy ===== *)
theory Prelude
  imports Main "HOL-Library.Word" "HOL-Library.AList"
begin

unbundle bit_operations_syntax

text \<open>
  What every component of the development shares: the machine types of the C++ code, the
  exceptions the code can let escape, the model of \<^verbatim>\<open>std::unordered_map\<close> with the locale
  \<open>registry\<close> that states its contract, and the text formatting of the standard streams
  (\<^verbatim>\<open>%02x\<close>, \<^verbatim>\<open>std::hex\<close>, \<^verbatim>\<open>std::to_string\<close>, \<^verbatim>\<open>setw\<close>/\<^verbatim>\<open>setfill\<close>).
\<close>

section \<open>Machine types and exceptions\<close>

type_synonym u8 = "8 word"
type_synonym u16 = "16 word"
type_synonym u32 = "32 word"
type_synonym u64 = "64 word"
type_synonym bytes = "u8 list"

text \<open>
  What a handler can throw: nlohmann's \<^verbatim>\<open>type_error\<close>, the \<^verbatim>\<open>std::runtime_error\<close>s of
  \<^verbatim>\<open>PairingCrypto\<close>, and the dereference of a null pointer, which is kept as a value so that
  it is a branch of the model.
\<close>

datatype exn = JsonTypeError | RuntimeError string | NullDeref

definition bindE :: "exn + 'a \<Rightarrow> ('a \<Rightarrow> exn + 'b) \<Rightarrow> exn + 'b" where
  "bindE x f = (case x of Inl e \<Rightarrow> Inl e | Inr v \<Rightarrow> f v)"

lemma bindE_simps [simp]:
  "bindE (Inl e) f = Inl e"
  "bindE (Inr v) f = f v"
  by (simp_all add: bindE_def)

lemma bindE_Inr_iff: "bindE x f = Inr r \<longleftrightarrow> (\<exists>v. x = Inr v \<and> f v = Inr r)"
  by (cases x) auto

lemma bindE_Inl_iff: "bindE x f = Inl e \<longleftrightarrow> x = Inl e \<or> (\<exists>v. x = Inr v \<and> f v = Inl e)"
  by (cases x) auto

section \<open>Unordered maps\<close>

text \<open>
  A \<^verbatim>\<open>std::unordered_map\<close> is an association list with distinct keys, in the order in which
  a range-for visits it. The standard leaves that order open, so the theorems that iterate
  hold for every order.
\<close>

type_synonym ('k, 'v) umap = "('k \<times> 'v) list"

named_theorems um_simps \<open>the laws of the unordered_map model\<close>

definition um_find :: "('k, 'v) umap \<Rightarrow> 'k \<Rightarrow> 'v option" where
  "um_find m k = map_of m k"

definition um_put :: "'k \<Rightarrow> 'v \<Rightarrow> ('k, 'v) umap \<Rightarrow> ('k, 'v) umap" where
  "um_put k v m = AList.update k v m"

definition um_erase :: "'k \<Rightarrow> ('k, 'v) umap \<Rightarrow> ('k, 'v) umap" where
  "um_erase k m = AList.delete k m"

definition um_wf :: "('k, 'v) umap \<Rightarrow> bool" where
  "um_wf m \<longleftrightarrow> distinct (map fst m)"

text \<open>The contract the components rely on wherever they keep a table of sessions.\<close>

locale registry =
  fixes find :: "'m \<Rightarrow> 'k \<Rightarrow> 'v option"
    and put :: "'k \<Rightarrow> 'v \<Rightarrow> 'm \<Rightarrow> 'm"
    and erase :: "'k \<Rightarrow> 'm \<Rightarrow> 'm"
    and none :: "'m"
    and wf :: "'m \<Rightarrow> bool"
  assumes find_none: "find none k = None"
    and find_put: "find (put k v m) k' = (if k' = k then Some v else find m k')"
    and find_erase: "wf m \<Longrightarrow> find (erase k m) k' = (if k' = k then None else find m k')"
    and wf_none: "wf none"
    and wf_put: "wf m \<Longrightarrow> wf (put k v m)"
    and wf_erase: "wf m \<Longrightarrow> wf (erase k m)"
begin

lemma find_put_same: "find (put k v m) k = Some v"
  by (simp add: find_put)

lemma find_erase_same: "wf m \<Longrightarrow> find (erase k m) k = None"
  by (simp add: find_erase)

lemma find_erase_Some: "wf m \<Longrightarrow> find (erase k m) k' = Some v \<Longrightarrow> k' \<noteq> k \<and> find m k' = Some v"
  by (simp add: find_erase split: if_splits)

lemma put_keeps_all:
  assumes "\<And>k v. find m k = Some v \<Longrightarrow> P k v" and "P k0 v0"
  shows "find (put k0 v0 m) k = Some v \<Longrightarrow> P k v"
  using assms by (auto simp: find_put split: if_splits)

lemma erase_keeps_all:
  assumes "wf m" and "\<And>k v. find m k = Some v \<Longrightarrow> P k v"
  shows "find (erase k0 m) k = Some v \<Longrightarrow> P k v"
  using assms by (auto simp: find_erase split: if_splits)

end

interpretation um: registry um_find um_put um_erase "[]" um_wf
  by unfold_locales
    (auto simp: um_find_def um_put_def um_erase_def um_wf_def update_conv'
      AList.delete_conv' distinct_update distinct_delete)

lemma um_find_Nil [simp, um_simps]: "um_find [] k = None"
  by (rule um.find_none)

lemma um_wf_Nil [simp, um_simps]: "um_wf []"
  by (rule um.wf_none)

lemma um_find_in_set: "um_find m k = Some v \<Longrightarrow> (k, v) \<in> set m"
  by (simp add: um_find_def map_of_SomeD)

lemma um_in_set_find: "um_wf m \<Longrightarrow> (k, v) \<in> set m \<Longrightarrow> um_find m k = Some v"
  by (simp add: um_find_def um_wf_def)

declare um.find_put [simp, um_simps]
declare um.find_erase [simp, um_simps]
declare um.wf_put [simp, intro, um_simps]
declare um.wf_erase [simp, intro, um_simps]

end
