(* ===== verification/Queues.thy ===== *)
theory Queues
  imports Prelude "HOL-Library.Sublist"
begin

text \<open>
  The contract of the two queues between threads: the outgoing messages of a WebSocket session
  and the video units between the network and the decoder thread. A queue may be emptied when
  it is full (\<open>full\<close>), which only the second does. What comes out is a subsequence of what
  went in, and everything comes out in order as long as the queue was never full.
\<close>

datatype 'a queue_op = Put 'a | Take

locale lossy_queue =
  fixes contents :: "'q \<Rightarrow> 'a list"
    and put :: "'a \<Rightarrow> 'q \<Rightarrow> 'q"
    and take1 :: "'q \<Rightarrow> ('a \<times> 'q) option"
    and full :: "'q \<Rightarrow> bool"
    and inv :: "'q \<Rightarrow> bool"
  assumes put_contents: "inv q \<Longrightarrow> contents (put a q) = (if full q then [a] else contents q @ [a])"
    and take_contents: "inv q \<Longrightarrow> take1 q = Some (a, q') \<Longrightarrow> contents q = a # contents q'"
    and inv_put: "inv q \<Longrightarrow> inv (put a q)"
    and inv_take: "inv q \<Longrightarrow> take1 q = Some (a, q') \<Longrightarrow> inv q'"
begin

text \<open>A run: the values taken so far, and the queue.\<close>

fun run_op :: "'a queue_op \<Rightarrow> 'a list \<times> 'q \<Rightarrow> 'a list \<times> 'q" where
  "run_op (Put a) (out, q) = (out, put a q)"
| "run_op Take (out, q) = (case take1 q of None \<Rightarrow> (out, q) | Some (a, q') \<Rightarrow> (out @ [a], q'))"

fun puts :: "'a queue_op list \<Rightarrow> 'a list" where
  "puts [] = []"
| "puts (Put a # ops) = a # puts ops"
| "puts (Take # ops) = puts ops"

fun never_full :: "'a queue_op list \<Rightarrow> 'q \<Rightarrow> bool" where
  "never_full [] q \<longleftrightarrow> True"
| "never_full (Put a # ops) q \<longleftrightarrow> \<not> full q \<and> never_full ops (put a q)"
| "never_full (Take # ops) q \<longleftrightarrow> never_full ops (case take1 q of None \<Rightarrow> q | Some (a, q') \<Rightarrow> q')"

lemma run_inv: "inv q \<Longrightarrow> inv (snd (fold run_op ops (out, q)))"
proof (induction ops arbitrary: out q)
  case (Cons op ops)
  have "inv (snd (run_op op (out, q)))"
    using Cons.prems by (cases op) (auto intro: inv_put inv_take split: option.split)
  then show ?case
    using Cons.IH by (cases "run_op op (out, q)") simp
qed simp

lemma run_subseq:
  "inv q \<Longrightarrow> subseq (out @ contents q) xs \<Longrightarrow>
   (case fold run_op ops (out, q) of (out', q') \<Rightarrow> subseq (out' @ contents q') (xs @ puts ops))"
proof (induction ops arbitrary: out q xs)
  case (Cons op ops)
  show ?case
  proof (cases op)
    case (Put a)
    have "subseq (out @ contents (put a q)) (xs @ [a])"
    proof (cases "full q")
      case True
      have "subseq out xs"
        using Cons.prems(2) subseq_order.order_trans by blast
      with True show ?thesis
        using put_contents [OF Cons.prems(1)] by (simp add: list_emb_append_mono)
    next
      case False
      with Cons.prems put_contents [OF Cons.prems(1)] show ?thesis
        by (metis append_assoc list_emb_append_mono subseq_order.order_refl)
    qed
    from Cons.IH [OF inv_put [OF Cons.prems(1)] this] Put show ?thesis by simp
  next
    case Take
    show ?thesis
    proof (cases "take1 q")
      case None
      with Take Cons.IH [OF Cons.prems] show ?thesis by simp
    next
      case (Some r)
      then obtain a q' where r: "take1 q = Some (a, q')" by (cases r) auto
      then have "subseq ((out @ [a]) @ contents q') xs"
        using Cons.prems take_contents by auto
      from Cons.IH [OF inv_take [OF Cons.prems(1) r] this] Take r show ?thesis by simp
    qed
  qed
qed simp

lemma run_complete:
  "inv q \<Longrightarrow> never_full ops q \<Longrightarrow>
   (case fold run_op ops (out, q) of (out', q') \<Rightarrow> out' @ contents q' = out @ contents q @ puts ops)"
proof (induction ops arbitrary: out q)
  case (Cons op ops)
  show ?case
  proof (cases op)
    case (Put a)
    with Cons.IH [OF inv_put [OF Cons.prems(1)]] Cons.prems put_contents show ?thesis
      by (fastforce split: prod.splits)
  next
    case Take
    show ?thesis
    proof (cases "take1 q")
      case None
      with Take Cons.IH [OF Cons.prems(1)] Cons.prems(2) show ?thesis by simp
    next
      case (Some r)
      then obtain a q' where r: "take1 q = Some (a, q')" by (cases r) auto
      with Cons.prems have "never_full ops q'" using Take by simp
      from Cons.IH [OF inv_take [OF Cons.prems(1) r] this, of "out @ [a]"] Take r
        take_contents [OF Cons.prems(1) r] show ?thesis by (simp split: prod.splits)
    qed
  qed
qed simp

end

end
