(* ===== verification/TextFormat.thy ===== *)
theory TextFormat
  imports Prelude
begin

text \<open>
  The number formatting the code takes from the C and C++ standard libraries: \<^verbatim>\<open>%02x\<close> of
  \<^verbatim>\<open>snprintf\<close> and \<^verbatim>\<open>std::hex << setw(2) << setfill('0')\<close> (lower-case, two digits per byte),
  \<^verbatim>\<open>std::to_string\<close> of an unsigned value, and \<^verbatim>\<open>setw(n) << setfill('0')\<close>. What the
  components need is that each of them loses nothing: they are injective.
\<close>

section \<open>Hexadecimal bytes\<close>

definition hex_digit :: "nat \<Rightarrow> char" where
  "hex_digit n = ''0123456789abcdef'' ! n"

definition hex2 :: "u8 \<Rightarrow> string" where
  "hex2 b = [hex_digit (unat b div 16), hex_digit (unat b mod 16)]"

definition hexString :: "bytes \<Rightarrow> string" where
  "hexString bs = concat (map hex2 bs)"

lemma hex_digit_inj:
  assumes "m < 16" and "n < 16" and "hex_digit m = hex_digit n"
  shows "m = n"
proof -
  have "distinct ''0123456789abcdef''" by simp
  moreover have "m < length ''0123456789abcdef''" "n < length ''0123456789abcdef''"
    using assms(1,2) by simp_all
  ultimately show ?thesis
    using assms(3) unfolding hex_digit_def by (metis nth_eq_iff_index_eq)
qed

lemma hex_digit_in: "n < 16 \<Longrightarrow> hex_digit n \<in> set ''0123456789abcdef''"
  unfolding hex_digit_def by (rule nth_mem) simp

lemma unat_u8_less: "unat (b :: u8) < 256"
  using unsigned_less [of b] by simp

lemma hex2_digits_less: "unat (b :: u8) div 16 < 16" "unat (b :: u8) mod 16 < 16"
  using unat_u8_less [of b] by simp_all

lemma length_hex2 [simp]: "length (hex2 b) = 2"
  by (simp add: hex2_def)

lemma hex2_inj: "hex2 a = hex2 b \<Longrightarrow> a = b"
proof -
  assume "hex2 a = hex2 b"
  then have "unat a div 16 = unat b div 16" "unat a mod 16 = unat b mod 16"
    using hex_digit_inj [OF hex2_digits_less(1) hex2_digits_less(1), of a b]
      hex_digit_inj [OF hex2_digits_less(2) hex2_digits_less(2), of a b]
    by (simp_all add: hex2_def)
  then have "unat a = unat b" by (metis div_mult_mod_eq)
  then show "a = b" by (rule unsigned_word_eqI)
qed

lemma hex2_chars: "set (hex2 b) \<subseteq> set ''0123456789abcdef''"
  using hex_digit_in [OF hex2_digits_less(1), of b] hex_digit_in [OF hex2_digits_less(2), of b]
  unfolding hex2_def by simp

lemma hexString_simps [simp]:
  "hexString [] = []"
  "hexString (b # bs) = hex2 b @ hexString bs"
  by (simp_all add: hexString_def)

lemma length_hexString [simp]: "length (hexString bs) = 2 * length bs"
  by (induction bs) simp_all

lemma hexString_append: "hexString (as @ bs) = hexString as @ hexString bs"
  by (simp add: hexString_def)

lemma hexString_chars: "set (hexString bs) \<subseteq> set ''0123456789abcdef''"
  using hex2_chars unfolding hexString_def by fastforce

lemma hexString_no_dash: "CHR ''-'' \<notin> set (hexString bs)"
  using hexString_chars [of bs] by auto

lemma hexString_inj: "hexString as = hexString bs \<Longrightarrow> as = bs"
proof (induction as arbitrary: bs)
  case Nil
  then show ?case by (cases bs) (auto simp: hex2_def)
next
  case (Cons a as)
  then obtain b bs' where bs: "bs = b # bs'"
    by (cases bs) (auto simp: hex2_def)
  with Cons.prems have "hex2 a = hex2 b" and "hexString as = hexString bs'"
    by simp_all
  with Cons.IH bs show ?case by (auto dest: hex2_inj)
qed

section \<open>Decimal numbers\<close>

definition dec_digit :: "nat \<Rightarrow> char" where
  "dec_digit n = char_of (48 + n)"

fun dec :: "nat \<Rightarrow> string" where
  "dec n = (if n < 10 then [dec_digit n] else dec (n div 10) @ [dec_digit (n mod 10)])"

declare dec.simps [simp del]

definition dec_value :: "string \<Rightarrow> nat" where
  "dec_value s = foldl (\<lambda>a c. 10 * a + (of_char c - 48)) 0 s"

lemma of_char_dec_digit: "n < 10 \<Longrightarrow> of_char (dec_digit n) = (48 + n :: nat)"
  by (simp add: dec_digit_def)

lemma dec_value_snoc: "dec_value (s @ [c]) = 10 * dec_value s + (of_char c - 48)"
  by (simp add: dec_value_def)

lemma dec_value_dec [simp]: "dec_value (dec n) = n"
proof (induction n rule: dec.induct)
  case (1 n)
  show ?case
  proof (cases "n < 10")
    case True
    then show ?thesis
      using dec_value_snoc [of "[]" "dec_digit n"]
      by (subst dec.simps) (simp add: of_char_dec_digit dec_value_def)
  next
    case False
    then have "dec_value (dec n) = 10 * (n div 10) + n mod 10"
      using "1.IH" by (subst dec.simps) (simp add: dec_value_snoc of_char_dec_digit)
    then show ?thesis by simp
  qed
qed

lemma dec_inj: "dec m = dec n \<Longrightarrow> m = n"
  by (metis dec_value_dec)

lemma dec_nonempty [simp]: "dec n \<noteq> []"
  by (subst dec.simps) simp

lemma length_dec: "0 < k \<Longrightarrow> n < 10 ^ k \<Longrightarrow> length (dec n) \<le> k"
proof (induction k arbitrary: n)
  case 0
  then show ?case by simp
next
  case (Suc k)
  show ?case
  proof (cases "n < 10")
    case True
    then show ?thesis by (subst dec.simps) simp
  next
    case False
    with Suc.prems have k: "0 < k" by (cases k) auto
    have "n div 10 < 10 ^ k"
      using Suc.prems(2) by (simp add: less_mult_imp_div_less mult.commute)
    with Suc.IH [OF k] False show ?thesis by (subst dec.simps) simp
  qed
qed

definition is_digit :: "char \<Rightarrow> bool" where
  "is_digit c \<longleftrightarrow> 48 \<le> (of_char c :: nat) \<and> (of_char c :: nat) \<le> 57"

lemma dec_digits: "list_all is_digit (dec n)"
proof (induction n rule: dec.induct)
  case (1 n)
  have digit: "m < 10 \<Longrightarrow> is_digit (dec_digit m)" for m
    by (simp add: is_digit_def of_char_dec_digit)
  show ?case
    using "1" by (subst dec.simps) (simp add: digit)
qed

text \<open>\<^verbatim>\<open>std::setw(w) << std::setfill('0') << n\<close>: never truncates, pads on the left.\<close>

definition setw0 :: "nat \<Rightarrow> nat \<Rightarrow> string" where
  "setw0 w n = replicate (w - length (dec n)) (CHR ''0'') @ dec n"

lemma dec_value_leading_zeros: "dec_value (replicate k (CHR ''0'') @ s) = dec_value s"
proof (induction k)
  case 0
  then show ?case by simp
next
  case (Suc k)
  then show ?case by (simp add: dec_value_def)
qed

lemma setw0_inj: "setw0 w m = setw0 w n \<Longrightarrow> m = n"
  by (metis dec_value_dec dec_value_leading_zeros setw0_def)

lemma length_setw0: "0 < w \<Longrightarrow> n < 10 ^ w \<Longrightarrow> length (setw0 w n) = w"
  using length_dec [of w n] by (simp add: setw0_def)

lemma setw0_digits: "list_all is_digit (setw0 w n)"
  by (simp add: setw0_def dec_digits list_all_iff is_digit_def) (use dec_digits [of n] in \<open>auto simp: list_all_iff is_digit_def\<close>)

end
