(* ===== verification/Libraries.thy ===== *)
theory Libraries
  imports TextFormat
begin

text \<open>
  The code the repository calls but does not hold: nlohmann/json, libsodium, and Qt with the
  file system under it. Each is a record of functions that the definitions of the model take
  as an argument, and a predicate of named laws that states the documented behaviour the code
  relies on. Nothing is assumed of a library but what a law below says, and a theorem that
  needs a law names it in its hypotheses.
\<close>

section \<open>nlohmann/json\<close>

text \<open>
  \<open>'j\<close> is \<^verbatim>\<open>nlohmann::json\<close>. \<open>value_string J j key dflt\<close> is
  \<^verbatim>\<open>j.value(key, dflt)\<close> at type \<^verbatim>\<open>std::string\<close>: it throws when \<open>j\<close> is not an object or
  the element is of another type. \<open>json_parse\<close> is \<open>None\<close> where \<^verbatim>\<open>json::parse\<close>
  throws. \<^verbatim>\<open>dump\<close> throws only on strings that are not UTF-8; every string the code dumps was
  parsed from JSON, came from a \<^verbatim>\<open>QString\<close> or is a literal, so it is total here.
\<close>

record 'j json_api =
  json_parse :: "string \<Rightarrow> 'j option"
  json_dump :: "'j \<Rightarrow> string"
  json_object :: "(string \<times> 'j) list \<Rightarrow> 'j"
  json_string :: "string \<Rightarrow> 'j"
  json_bool :: "bool \<Rightarrow> 'j"
  json_uint :: "u64 \<Rightarrow> 'j"
  value_string :: "'j \<Rightarrow> string \<Rightarrow> string \<Rightarrow> exn + string"
  value_bool :: "'j \<Rightarrow> string \<Rightarrow> bool \<Rightarrow> exn + bool"
  value_uint :: "'j \<Rightarrow> string \<Rightarrow> u64 \<Rightarrow> exn + u64"

definition json_value_laws :: "'j json_api \<Rightarrow> bool" where
  "json_value_laws J \<longleftrightarrow>
     (\<forall>kvs k. distinct (map fst kvs) \<longrightarrow>
       (\<forall>s d. map_of kvs k = Some (json_string J s) \<longrightarrow> value_string J (json_object J kvs) k d = Inr s) \<and>
       (\<forall>d. map_of kvs k = None \<longrightarrow> value_string J (json_object J kvs) k d = Inr d) \<and>
       (\<forall>b d. map_of kvs k = Some (json_bool J b) \<longrightarrow> value_string J (json_object J kvs) k d = Inl JsonTypeError) \<and>
       (\<forall>n d. map_of kvs k = Some (json_uint J n) \<longrightarrow> value_string J (json_object J kvs) k d = Inl JsonTypeError) \<and>
       (\<forall>b d. map_of kvs k = Some (json_bool J b) \<longrightarrow> value_bool J (json_object J kvs) k d = Inr b) \<and>
       (\<forall>d. map_of kvs k = None \<longrightarrow> value_bool J (json_object J kvs) k d = Inr d) \<and>
       (\<forall>s d. map_of kvs k = Some (json_string J s) \<longrightarrow> value_bool J (json_object J kvs) k d = Inl JsonTypeError) \<and>
       (\<forall>n d. map_of kvs k = Some (json_uint J n) \<longrightarrow> value_uint J (json_object J kvs) k d = Inr n) \<and>
       (\<forall>d. map_of kvs k = None \<longrightarrow> value_uint J (json_object J kvs) k d = Inr d) \<and>
       (\<forall>s d. map_of kvs k = Some (json_string J s) \<longrightarrow> value_uint J (json_object J kvs) k d = Inl JsonTypeError))"

text \<open>A flat object of strings, booleans and unsigned numbers survives \<^verbatim>\<open>dump\<close> and \<^verbatim>\<open>parse\<close>.\<close>

definition json_scalar :: "'j json_api \<Rightarrow> 'j \<Rightarrow> bool" where
  "json_scalar J v \<longleftrightarrow> v \<in> range (json_string J) \<union> range (json_bool J) \<union> range (json_uint J)"

definition json_text_laws :: "'j json_api \<Rightarrow> bool" where
  "json_text_laws J \<longleftrightarrow>
     (\<forall>kvs. distinct (map fst kvs) \<longrightarrow> list_all (\<lambda>(k, v). json_scalar J v) kvs \<longrightarrow>
        json_parse J (json_dump J (json_object J kvs)) = Some (json_object J kvs))"

lemma json_value_string:
  assumes "json_value_laws J" and "distinct (map fst kvs)"
  shows "map_of kvs k = Some (json_string J s) \<Longrightarrow> value_string J (json_object J kvs) k d = Inr s"
    and "map_of kvs k = None \<Longrightarrow> value_string J (json_object J kvs) k d = Inr d"
    and "map_of kvs k = Some (json_bool J b) \<Longrightarrow> value_string J (json_object J kvs) k d = Inl JsonTypeError"
    and "map_of kvs k = Some (json_uint J n) \<Longrightarrow> value_string J (json_object J kvs) k d = Inl JsonTypeError"
  using assms unfolding json_value_laws_def by blast+

lemma json_value_bool:
  assumes "json_value_laws J" and "distinct (map fst kvs)"
  shows "map_of kvs k = Some (json_bool J b) \<Longrightarrow> value_bool J (json_object J kvs) k d' = Inr b"
    and "map_of kvs k = None \<Longrightarrow> value_bool J (json_object J kvs) k d' = Inr d'"
  using assms unfolding json_value_laws_def by blast+

lemma json_value_uint:
  assumes "json_value_laws J" and "distinct (map fst kvs)"
  shows "map_of kvs k = Some (json_uint J n) \<Longrightarrow> value_uint J (json_object J kvs) k d' = Inr n"
    and "map_of kvs k = None \<Longrightarrow> value_uint J (json_object J kvs) k d' = Inr d'"
    and "map_of kvs k = Some (json_string J s) \<Longrightarrow> value_uint J (json_object J kvs) k d' = Inl JsonTypeError"
  using assms unfolding json_value_laws_def by blast+

section \<open>libsodium\<close>

text \<open>
  \<open>'h\<close> is \<^verbatim>\<open>crypto_hash_sha256_state\<close>. \<open>kx_server_session_keys\<close> is \<open>None\<close> where
  the library returns a non-zero code; \<open>base642bin maxlen text\<close> likewise. \<open>bin2base64\<close> is
  the text without the terminating NUL that the library also writes and that
  \<open>base64_encoded_len\<close> counts.
\<close>

record 'h sodium_api =
  kx_server_session_keys :: "bytes \<Rightarrow> bytes \<Rightarrow> bytes \<Rightarrow> (bytes \<times> bytes) option"
  base64_encoded_len :: "nat \<Rightarrow> nat"
  bin2base64 :: "bytes \<Rightarrow> string"
  base642bin :: "nat \<Rightarrow> string \<Rightarrow> bytes option"
  sodium_memcmp :: "string \<Rightarrow> string \<Rightarrow> int"
  sha256_init :: "'h"
  sha256_update :: "'h \<Rightarrow> bytes \<Rightarrow> 'h"
  sha256_final :: "'h \<Rightarrow> bytes"

definition base64_laws :: "'h sodium_api \<Rightarrow> bool" where
  "base64_laws S \<longleftrightarrow>
     (\<forall>d. base64_encoded_len S (length d) = Suc (length (bin2base64 S d))) \<and>
     (\<forall>d. CHR 0x00 \<notin> set (bin2base64 S d)) \<and>
     (\<forall>d. length d \<le> length (bin2base64 S d)) \<and>
     (\<forall>d n. length d \<le> n \<longrightarrow> base642bin S n (bin2base64 S d) = Some d)"

definition memcmp_laws :: "'h sodium_api \<Rightarrow> bool" where
  "memcmp_laws S \<longleftrightarrow>
     (\<forall>a b. length a = length b \<longrightarrow> (sodium_memcmp S a b = 0 \<longleftrightarrow> a = b))"

definition sha256_laws :: "'h sodium_api \<Rightarrow> bool" where
  "sha256_laws S \<longleftrightarrow>
     (\<forall>h a b. sha256_update S (sha256_update S h a) b = sha256_update S h (a @ b)) \<and>
     (\<forall>h. sha256_update S h [] = h) \<and>
     (\<forall>h. length (sha256_final S h) = 32)"

definition sha256 :: "'h sodium_api \<Rightarrow> bytes \<Rightarrow> bytes" where
  "sha256 S bs = sha256_final S (sha256_update S (sha256_init S) bs)"

text \<open>Both sides of \<^verbatim>\<open>crypto_kx\<close>: what the server receives with, the client sends with.\<close>

definition kx_laws ::
  "'h sodium_api \<Rightarrow> (bytes \<Rightarrow> bytes \<Rightarrow> bytes \<Rightarrow> (bytes \<times> bytes) option) \<Rightarrow> (bytes \<Rightarrow> bytes \<Rightarrow> bool) \<Rightarrow> bool" where
  "kx_laws S kx_client_session_keys keypair \<longleftrightarrow>
     (\<forall>pk sk cpk csk rx tx. keypair pk sk \<longrightarrow> keypair cpk csk \<longrightarrow>
        kx_server_session_keys S pk sk cpk = Some (rx, tx) \<longrightarrow>
        kx_client_session_keys cpk csk pk = Some (tx, rx)) \<and>
     (\<forall>pk sk cpk rx tx. kx_server_session_keys S pk sk cpk = Some (rx, tx) \<longrightarrow>
        length rx = 32 \<and> length tx = 32)"

section \<open>Qt and the file system\<close>

text \<open>
  \<open>'f\<close> is the state of the file system. The code names a file by the UTF-8 bytes of a \<^verbatim>\<open>QString\<close>.
  Qt reads these bytes back as UTF-8, but a stream of the C++ library that is opened with a
  \<^verbatim>\<open>std::string\<close> reads them in the encoding of the process, on Windows its code page:
  \<open>stream_path E p\<close> is the file, as Qt names it, that a stream opens under the name \<open>p\<close>. The two
  agree on a name of ASCII characters, and on every name when the encoding is UTF-8. \<open>fs_create\<close> opens a file for writing and truncates it
  (\<open>None\<close>: not opened), \<open>fs_append\<close> is \<^verbatim>\<open>std::ofstream::write\<close> on such a file,
  \<open>fs_open_read\<close> opens a \<^verbatim>\<open>std::ifstream\<close> and is what it would read at that moment;
  \<open>fs_read E f p pos\<close> is what an open one finds behind position \<open>pos\<close> when the disk is \<open>f\<close>; the rest are \<^verbatim>\<open>QFile::exists\<close>,
  \<^verbatim>\<open>QFile::remove\<close> (whose result the code ignores), \<^verbatim>\<open>QFile::rename\<close> and
  \<^verbatim>\<open>QDir::mkpath\<close>. The path functions are those of \<^verbatim>\<open>QFileInfo\<close>;
  \<open>dir_filePath p n\<close> is \<^verbatim>\<open>QFileInfo(p).dir().filePath(n)\<close>, \<open>qarg\<close> is
  \<^verbatim>\<open>QString::arg\<close>.
\<close>

record 'f os_api =
  fs_exists :: "'f \<Rightarrow> string \<Rightarrow> bool"
  fs_remove :: "'f \<Rightarrow> string \<Rightarrow> 'f"
  fs_rename :: "'f \<Rightarrow> string \<Rightarrow> string \<Rightarrow> bool \<times> 'f"
  fs_mkpath :: "'f \<Rightarrow> string \<Rightarrow> 'f"
  fs_create :: "'f \<Rightarrow> string \<Rightarrow> 'f option"
  fs_append :: "'f \<Rightarrow> string \<Rightarrow> bytes \<Rightarrow> 'f"
  fs_open_read :: "'f \<Rightarrow> string \<Rightarrow> bytes option"
  fs_read :: "'f \<Rightarrow> string \<Rightarrow> nat \<Rightarrow> bytes"
  stream_path :: "string \<Rightarrow> string"
  absolutePath :: "string \<Rightarrow> string"
  fileName :: "string \<Rightarrow> string"
  completeBaseName :: "string \<Rightarrow> string"
  suffix :: "string \<Rightarrow> string"
  dir_filePath :: "string \<Rightarrow> string \<Rightarrow> string"
  qarg :: "string \<Rightarrow> string \<Rightarrow> string"

text \<open>
  \<open>V f p\<close> is the content of the file at \<open>p\<close>. The basic laws allow every operation to fail
  (a removal that does not happen, a write that stores only a part) but not to touch another
  file; \<^verbatim>\<open>QFile::rename\<close> never overwrites.
\<close>

definition fs_laws :: "'f os_api \<Rightarrow> ('f \<Rightarrow> string \<Rightarrow> bytes option) \<Rightarrow> bool" where
  "fs_laws E V \<longleftrightarrow>
     (\<forall>f p. V f p \<noteq> None \<longrightarrow> fs_exists E f p) \<and>
     (\<forall>f. finite {p. fs_exists E f p}) \<and>
     (\<forall>f p q. q \<noteq> p \<longrightarrow> V (fs_remove E f p) q = V f q) \<and>
     (\<forall>f p q bs. q \<noteq> stream_path E p \<longrightarrow> V (fs_append E f p bs) q = V f q) \<and>
     (\<forall>f d. V (fs_mkpath E f d) = V f) \<and>
     (\<forall>f p f'. fs_create E f p = Some f' \<longrightarrow> V f' = (V f)(stream_path E p := Some [])) \<and>
     (\<forall>f old new f'. fs_rename E f old new = (True, f') \<longrightarrow>
        \<not> fs_exists E f new \<and> old \<noteq> new \<and> V f old \<noteq> None \<and>
        V f' = (V f)(old := None, new := V f old)) \<and>
     (\<forall>f old new f'. fs_rename E f old new = (False, f') \<longrightarrow> V f' = V f) \<and>
     (\<forall>f p c. fs_open_read E f p = Some c \<longrightarrow> V f (stream_path E p) = Some c) \<and>
     (\<forall>f p c pos. V f (stream_path E p) = Some c \<longrightarrow> fs_read E f p pos = drop pos c)"

text \<open>The names by which Qt and the streams mean the same file.\<close>

definition stream_named :: "'f os_api \<Rightarrow> string \<Rightarrow> bool" where
  "stream_named E p \<longleftrightarrow> stream_path E p = p"

text \<open>The runs in which no operation on an existing file fails.\<close>

definition fs_reliable :: "'f os_api \<Rightarrow> ('f \<Rightarrow> string \<Rightarrow> bytes option) \<Rightarrow> bool" where
  "fs_reliable E V \<longleftrightarrow>
     (\<forall>f p. V (fs_remove E f p) p = None) \<and>
     (\<forall>f p c bs. V f (stream_path E p) = Some c \<longrightarrow>
        V (fs_append E f p bs) (stream_path E p) = Some (c @ bs)) \<and>
     (\<forall>f p. \<exists>f'. fs_create E f p = Some f') \<and>
     (\<forall>f old new. V f old \<noteq> None \<longrightarrow> \<not> fs_exists E f new \<longrightarrow> fst (fs_rename E f old new))"

text \<open>
  \<^verbatim>\<open>QString::arg\<close> replaces the place marker with the lowest number, so on texts without
  \<^verbatim>\<open>%\<close> the two templates of the code mean what they say; \<^verbatim>\<open>dir().filePath\<close> of a relative
  name keeps the name; the base name and the suffix are cut out of the path.
\<close>

definition plain_name :: "string \<Rightarrow> bool" where
  "plain_name s \<longleftrightarrow> set s \<inter> {CHR ''%'', CHR ''/'', CHR 0x5C, CHR '':''} = {}"

definition path_laws :: "'f os_api \<Rightarrow> bool" where
  "path_laws E \<longleftrightarrow>
     (\<forall>b n e. plain_name b \<longrightarrow> plain_name n \<longrightarrow> plain_name e \<longrightarrow>
        qarg E (qarg E (qarg E ''%1 (%2).%3'' b) n) e = b @ '' ('' @ n @ '').'' @ e \<and>
        qarg E (qarg E ''%1 (%2)'' b) n = b @ '' ('' @ n @ '')'') \<and>
     (\<forall>p m n. plain_name m \<longrightarrow> plain_name n \<longrightarrow> dir_filePath E p m = dir_filePath E p n \<longrightarrow> m = n)"

end
