(* ===== verification/LibraryModels.thy ===== *)
theory LibraryModels
  imports Libraries "HOL-Library.Countable"
begin

text \<open>
  One concrete instance of every library record, with the proof that it satisfies the laws:
  they are what the witnesses of the properties run on, and they show that the laws can hold
  together. Nothing here stands for the real libraries.
\<close>

section \<open>A JSON library\<close>

datatype jtree = JStr string | JBool bool | JUint nat | JObj "(string \<times> jtree) list"

instance jtree :: countable
  by countable_datatype

fun jtree_string :: "jtree \<Rightarrow> exn + string" where
  "jtree_string (JStr s) = Inr s"
| "jtree_string _ = Inl JsonTypeError"

fun jtree_bool :: "jtree \<Rightarrow> exn + bool" where
  "jtree_bool (JBool b) = Inr b"
| "jtree_bool _ = Inl JsonTypeError"

fun jtree_uint :: "jtree \<Rightarrow> exn + u64" where
  "jtree_uint (JUint n) = Inr (of_nat n)"
| "jtree_uint _ = Inl JsonTypeError"

fun jtree_value :: "(jtree \<Rightarrow> exn + 'a) \<Rightarrow> jtree \<Rightarrow> string \<Rightarrow> 'a \<Rightarrow> exn + 'a" where
  "jtree_value get (JObj kvs) k d = (case map_of kvs k of None \<Rightarrow> Inr d | Some v \<Rightarrow> get v)"
| "jtree_value get _ k d = Inl JsonTypeError"

definition jtree_dump :: "jtree \<Rightarrow> string" where
  "jtree_dump j = dec (to_nat j)"

definition jtree_parse :: "string \<Rightarrow> jtree option" where
  "jtree_parse s = (if jtree_dump (from_nat (dec_value s)) = s then Some (from_nat (dec_value s)) else None)"

definition json_model :: "jtree json_api" where
  "json_model = \<lparr>json_parse = jtree_parse, json_dump = jtree_dump, json_object = JObj,
     json_string = JStr, json_bool = JBool, json_uint = (\<lambda>n. JUint (unat n)),
     value_string = jtree_value jtree_string, value_bool = jtree_value jtree_bool,
     value_uint = jtree_value jtree_uint\<rparr>"

lemma json_model_sels [simp]:
  "json_object json_model = JObj" "json_string json_model = JStr" "json_bool json_model = JBool"
  "json_uint json_model = (\<lambda>n. JUint (unat n))" "json_dump json_model = jtree_dump"
  "value_string json_model = jtree_value jtree_string"
  "value_bool json_model = jtree_value jtree_bool"
  "value_uint json_model = jtree_value jtree_uint"
  "json_parse json_model = jtree_parse"
  by (simp_all add: json_model_def)

lemma jtree_parse_dump [simp]: "jtree_parse (jtree_dump j) = Some j"
  by (simp add: jtree_parse_def jtree_dump_def)

lemma json_model_value_laws: "json_value_laws json_model"
  by (simp add: json_value_laws_def)

lemma json_model_text_laws: "json_text_laws json_model"
  by (simp add: json_text_laws_def)

section \<open>A crypto library\<close>

type_synonym hash_state = bytes

definition hex_nibble :: "char \<Rightarrow> nat option" where
  "hex_nibble c = List.find (\<lambda>n. hex_digit n = c) [0..<16]"

fun hex_value :: "string \<Rightarrow> bytes option" where
  "hex_value [] = Some []"
| "hex_value [c] = None"
| "hex_value (c # d # s) =
     (case (hex_nibble c, hex_nibble d, hex_value s) of
        (Some m, Some n, Some bs) \<Rightarrow> Some (of_nat (16 * m + n) # bs)
      | _ \<Rightarrow> None)"

lemma hex_nibble_digit [simp]:
  assumes "n < 16" shows "hex_nibble (hex_digit n) = Some n"
proof -
  have "list_all (\<lambda>n. hex_nibble (hex_digit n) = Some n) [0..<16]" by code_simp
  with assms show ?thesis by (simp add: list_all_iff)
qed

definition sodium_model :: "hash_state sodium_api" where
  "sodium_model = \<lparr>
     kx_server_session_keys = (\<lambda>pk sk cpk. if length cpk = 32 then Some (replicate 32 1, replicate 32 2) else None),
     base64_encoded_len = (\<lambda>n. 2 * n + 1),
     bin2base64 = hexString,
     base642bin = (\<lambda>n s. case hex_value s of None \<Rightarrow> None | Some b \<Rightarrow> if length b \<le> n then Some b else None),
     sodium_memcmp = (\<lambda>a b. if a = b then 0 else 1),
     sha256_init = [], sha256_update = (\<lambda>h b. h @ b),
     sha256_final = (\<lambda>h. take 32 (h @ replicate 32 0))\<rparr>"

lemma sodium_model_sels [simp]:
  "kx_server_session_keys sodium_model pk sk cpk =
     (if length cpk = 32 then Some (replicate 32 1, replicate 32 2) else None)"
  "base64_encoded_len sodium_model n = 2 * n + 1"
  "bin2base64 sodium_model = hexString"
  "sodium_memcmp sodium_model s t = (if s = t then 0 else 1)"
  "sha256_init sodium_model = []"
  "sha256_update sodium_model h b = h @ b"
  "sha256_final sodium_model h = take 32 (h @ replicate 32 0)"
  by (simp_all add: sodium_model_def)

lemma hex_value_hexString [simp]: "hex_value (hexString b) = Some b"
proof (induction b)
  case (Cons x b)
  have "(word_of_nat (16 * (unat x div 16) + unat x mod 16) :: u8) = x"
    by (simp only: mult_div_mod_eq of_nat_unat ucast_id)
  with Cons show ?case by (simp add: hex2_def hex2_digits_less)
qed simp

lemma sodium_model_base642bin:
  "length b \<le> n \<Longrightarrow> base642bin sodium_model n (hexString b) = Some b"
  by (simp add: sodium_model_def)

lemma hexString_no_NUL: "CHR 0x00 \<notin> set (hexString bs)"
  using hexString_chars [of bs] by auto

lemma sodium_model_base64_laws: "base64_laws sodium_model"
  unfolding base64_laws_def
  by (auto simp: hexString_no_NUL sodium_model_base642bin)

lemma sodium_model_memcmp_laws: "memcmp_laws sodium_model"
  by (simp add: memcmp_laws_def)

lemma sodium_model_sha256_laws: "sha256_laws sodium_model"
  by (simp add: sha256_laws_def min_def)

section \<open>A file system\<close>

type_synonym files = "(string, bytes) umap"

text \<open>Path functions: the part behind the last slash, and around its last dot.\<close>

definition last_part :: "string \<Rightarrow> string" where
  "last_part s = rev (takeWhile (\<lambda>c. c \<noteq> CHR ''/'') (rev s))"

definition after_last_dot :: "string \<Rightarrow> string" where
  "after_last_dot s =
     (if CHR ''.'' \<in> set s then rev (takeWhile (\<lambda>c. c \<noteq> CHR ''.'') (rev s)) else [])"

definition before_last_dot :: "string \<Rightarrow> string" where
  "before_last_dot s =
     (if CHR ''.'' \<in> set s then rev (tl (dropWhile (\<lambda>c. c \<noteq> CHR ''.'') (rev s))) else s)"

fun subst_marker :: "string \<Rightarrow> char \<Rightarrow> string \<Rightarrow> string" where
  "subst_marker [] d a = []"
| "subst_marker [c] d a = [c]"
| "subst_marker (c # d' # s) d a =
     (if c = CHR ''%'' \<and> d' = d then a @ subst_marker s d a else c # subst_marker (d' # s) d a)"

fun has_marker :: "string \<Rightarrow> char \<Rightarrow> bool" where
  "has_marker [] d = False"
| "has_marker [c] d = False"
| "has_marker (c # d' # s) d = (c = CHR ''%'' \<and> d' = d \<or> has_marker (d' # s) d)"

definition qarg_model :: "string \<Rightarrow> string \<Rightarrow> string" where
  "qarg_model s a =
     (if has_marker s (CHR ''1'') then subst_marker s (CHR ''1'') a
      else if has_marker s (CHR ''2'') then subst_marker s (CHR ''2'') a
      else subst_marker s (CHR ''3'') a)"

text \<open>
  A file system in which the streams read the names by \<open>sp\<close>: \<open>os_model\<close> is the one where they mean
  what Qt means, \<open>latin1_path\<close> a process whose encoding is Latin-1, where each byte of a name is a
  character of its own.
\<close>

definition os_model_with :: "(string \<Rightarrow> string) \<Rightarrow> files os_api" where
  "os_model_with sp = \<lparr>
     fs_exists = (\<lambda>f p. um_find f p \<noteq> None),
     fs_remove = (\<lambda>f p. um_erase p f),
     fs_rename = (\<lambda>f old new. case um_find f old of None \<Rightarrow> (False, f)
        | Some c \<Rightarrow> if um_find f new = None then (True, um_put new c (um_erase old f)) else (False, f)),
     fs_mkpath = (\<lambda>f d. f),
     fs_create = (\<lambda>f p. Some (um_put (sp p) [] f)),
     fs_append = (\<lambda>f p bs. case um_find f (sp p) of None \<Rightarrow> f | Some c \<Rightarrow> um_put (sp p) (c @ bs) f),
     fs_open_read = (\<lambda>f p. um_find f (sp p)),
     fs_read = (\<lambda>f p pos. case um_find f (sp p) of None \<Rightarrow> [] | Some c \<Rightarrow> drop pos c), stream_path = sp,
     absolutePath = (\<lambda>p. ''/''), fileName = last_part,
     completeBaseName = (\<lambda>p. before_last_dot (last_part p)),
     suffix = (\<lambda>p. after_last_dot (last_part p)),
     dir_filePath = (\<lambda>p n. n), qarg = qarg_model\<rparr>"

definition os_model :: "files os_api" where
  "os_model = os_model_with (\<lambda>p. p)"

definition latin1_path :: "string \<Rightarrow> string" where
  "latin1_path p = concat (map (\<lambda>c.
     if (of_char c :: nat) < 128 then [c]
     else if (of_char c :: nat) < 192 then [CHR 0xC2, c]
     else [CHR 0xC3, char_of ((of_char c :: nat) - 64)]) p)"

lemma os_model_with_sels [simp]:
  "fs_exists (os_model_with sp) f p = (um_find f p \<noteq> None)"
  "fs_remove (os_model_with sp) f p = um_erase p f"
  "fs_rename (os_model_with sp) f old new = (case um_find f old of None \<Rightarrow> (False, f)
        | Some c \<Rightarrow> if um_find f new = None then (True, um_put new c (um_erase old f)) else (False, f))"
  "fs_mkpath (os_model_with sp) f d = f"
  "fs_create (os_model_with sp) f p = Some (um_put (sp p) [] f)"
  "fs_append (os_model_with sp) f p bs = (case um_find f (sp p) of None \<Rightarrow> f | Some c \<Rightarrow> um_put (sp p) (c @ bs) f)"
  "fs_open_read (os_model_with sp) f p = um_find f (sp p)"
  "fs_read (os_model_with sp) f p pos = (case um_find f (sp p) of None \<Rightarrow> [] | Some c \<Rightarrow> drop pos c)" "stream_path (os_model_with sp) p = sp p"
  "absolutePath (os_model_with sp) p = ''/''" "fileName (os_model_with sp) = last_part"
  "completeBaseName (os_model_with sp) p = before_last_dot (last_part p)"
  "suffix (os_model_with sp) p = after_last_dot (last_part p)"
  "dir_filePath (os_model_with sp) p n = n" "qarg (os_model_with sp) = qarg_model"
  by (simp_all add: os_model_with_def)

lemma os_model_sels [simp]:
  "fs_exists os_model f p = (um_find f p \<noteq> None)"
  "fs_remove os_model f p = um_erase p f"
  "fs_rename os_model f old new = (case um_find f old of None \<Rightarrow> (False, f)
        | Some c \<Rightarrow> if um_find f new = None then (True, um_put new c (um_erase old f)) else (False, f))"
  "fs_mkpath os_model f d = f"
  "fs_create os_model f p = Some (um_put p [] f)"
  "fs_append os_model f p bs = (case um_find f p of None \<Rightarrow> f | Some c \<Rightarrow> um_put p (c @ bs) f)"
  "fs_open_read os_model f p = um_find f p"
  "fs_read os_model f p pos = (case um_find f p of None \<Rightarrow> [] | Some c \<Rightarrow> drop pos c)" "stream_path os_model p = p"
  "absolutePath os_model p = ''/''" "fileName os_model = last_part"
  "completeBaseName os_model p = before_last_dot (last_part p)"
  "suffix os_model p = after_last_dot (last_part p)"
  "dir_filePath os_model p n = n" "qarg os_model = qarg_model"
  by (simp_all add: os_model_def)

lemma os_model_stream_named [simp]: "stream_named os_model p"
  by (simp add: stream_named_def)

lemma um_find_erase_any: "um_find (um_erase p f) q = (if q = p then None else um_find f q)"
  by (simp add: um_find_def um_erase_def AList.delete_conv')

lemma finite_um_find: "finite {p. um_find f p \<noteq> None}"
  using finite_dom_map_of [of f] by (simp add: um_find_def dom_def)

lemma os_model_with_fs_laws: "fs_laws (os_model_with sp) um_find"
  unfolding fs_laws_def os_model_with_sels
proof (intro conjI allI)
  show "finite {p. um_find f p \<noteq> None}" for f :: files
    by (rule finite_um_find)
qed (auto simp: um_find_erase_any fun_eq_iff split: option.splits if_splits)

lemma os_model_with_fs_reliable: "fs_reliable (os_model_with sp) um_find"
  by (auto simp: fs_reliable_def um_find_erase_any split: option.splits)

lemmas os_model_fs_laws = os_model_with_fs_laws [of "\<lambda>p. p", folded os_model_def]
  and os_model_fs_reliable = os_model_with_fs_reliable [of "\<lambda>p. p", folded os_model_def]

lemma no_marker_plain: "CHR ''%'' \<notin> set s \<Longrightarrow> \<not> has_marker s d"
  by (induction s d rule: has_marker.induct) auto

lemma has_marker_skip: "CHR ''%'' \<notin> set s \<Longrightarrow> has_marker (s @ t) d = has_marker t d"
proof (induction s)
  case (Cons c s)
  then show ?case by (cases "s @ t") auto
qed simp

lemma subst_marker_skip: "CHR ''%'' \<notin> set s \<Longrightarrow> subst_marker (s @ t) d a = s @ subst_marker t d a"
proof (induction s)
  case (Cons c s)
  then show ?case by (cases "s @ t") auto
qed simp

lemma marker_Cons:
  assumes "c \<noteq> CHR ''%''"
  shows "has_marker (c # s) d = has_marker s d"
    and "subst_marker (c # s) d a = c # subst_marker s d a"
  using assms by (cases s; simp)+

lemma subst_marker_plain: "CHR ''%'' \<notin> set s \<Longrightarrow> subst_marker s d a = s"
  using subst_marker_skip [of s "[]" d a] by simp

lemma os_model_with_path_laws: "path_laws (os_model_with sp)"
  unfolding path_laws_def os_model_with_sels
proof (intro conjI allI impI)
  fix b n e :: string
  assume "plain_name b" "plain_name n" "plain_name e"
  then have p: "CHR ''%'' \<notin> set b" "CHR ''%'' \<notin> set n" "CHR ''%'' \<notin> set e"
    by (auto simp: plain_name_def)
  have s1: "qarg_model ''%1 (%2).%3'' b = b @ '' (%2).%3''"
    by (simp add: qarg_model_def subst_marker_plain)
  have s2: "qarg_model (b @ '' (%2).%3'') n = b @ '' ('' @ n @ '').%3''"
    using p by (simp add: qarg_model_def has_marker_skip subst_marker_skip marker_Cons)
  have s3: "qarg_model (b @ '' ('' @ n @ '').%3'') e = b @ '' ('' @ n @ '').'' @ e"
    using p by (simp add: qarg_model_def has_marker_skip subst_marker_skip marker_Cons)
  show "qarg_model (qarg_model (qarg_model ''%1 (%2).%3'' b) n) e = b @ '' ('' @ n @ '').'' @ e"
    unfolding s1 s2 s3 ..
  have t1: "qarg_model ''%1 (%2)'' b = b @ '' (%2)''"
    by (simp add: qarg_model_def)
  show "qarg_model (qarg_model ''%1 (%2)'' b) n = b @ '' ('' @ n @ '')''"
    unfolding t1 using p by (simp add: qarg_model_def has_marker_skip subst_marker_skip marker_Cons)
qed

lemmas os_model_path_laws = os_model_with_path_laws [of "\<lambda>p. p", folded os_model_def]

end
