(* ===== verification/Protocol.thy ===== *)
theory Protocol
  imports LibraryModels
begin

text \<open>
  \<^verbatim>\<open>src/core/FileTransferProtocol.h\<close> and \<^verbatim>\<open>src/core/MessageDispatcher.h\<close>: the
  constants and enumerations of the two protocols, the \<^verbatim>\<open>FileOffer\<close> message with its JSON
  conversions, and the dispatch of a raw WebSocket text to a message type.
\<close>

section \<open>Constants and enumerations of the file transfer\<close>

definition kFileTransferPort :: u16 where "kFileTransferPort = 45680"
definition kChunkPlaintextSize :: nat where "kChunkPlaintextSize = 256 * 1024"
definition kSecretStreamTagLen :: nat where "kSecretStreamTagLen = 17"
definition kChunkCiphermaxSize :: nat where
  "kChunkCiphermaxSize = kChunkPlaintextSize + kSecretStreamTagLen"
definition kTokenSize :: nat where "kTokenSize = 32"
definition kUuidBinarySize :: nat where "kUuidBinarySize = 16"
definition kFileTransferTimeoutSec :: int where "kFileTransferTimeoutSec = 30"

lemmas protocol_consts = kFileTransferPort_def kChunkPlaintextSize_def kTokenSize_def kUuidBinarySize_def

datatype transfer_direction = MobileUploadToPc | DesktopDownloadToMobile

text \<open>The underlying value of the \<^verbatim>\<open>enum class TransferDirection : uint8_t\<close>.\<close>

fun direction_byte :: "transfer_direction \<Rightarrow> u8" where
  "direction_byte MobileUploadToPc = 0"
| "direction_byte DesktopDownloadToMobile = 1"

text \<open>C++ compares enumerators of an enum class by their underlying values.\<close>

instantiation transfer_direction :: linorder
begin
definition less_eq_transfer_direction :: "transfer_direction \<Rightarrow> transfer_direction \<Rightarrow> bool" where
  "less_eq_transfer_direction a b \<longleftrightarrow> direction_byte a \<le> direction_byte b"
definition less_transfer_direction :: "transfer_direction \<Rightarrow> transfer_direction \<Rightarrow> bool" where
  "less_transfer_direction a b \<longleftrightarrow> direction_byte a < direction_byte b"
instance
proof
  fix a b c :: transfer_direction
  show "(a < b) = (a \<le> b \<and> \<not> b \<le> a)"
    by (auto simp: less_eq_transfer_direction_def less_transfer_direction_def)
  show "a \<le> a" by (simp add: less_eq_transfer_direction_def)
  show "a \<le> b \<Longrightarrow> b \<le> c \<Longrightarrow> a \<le> c"
    by (simp add: less_eq_transfer_direction_def)
  show "a \<le> b \<Longrightarrow> b \<le> a \<Longrightarrow> a = b"
    by (cases a; cases b) (simp_all add: less_eq_transfer_direction_def)
  show "a \<le> b \<or> b \<le> a"
    by (auto simp: less_eq_transfer_direction_def)
qed
end

lemma direction_byte_inj: "direction_byte a = direction_byte b \<Longrightarrow> a = b"
  by (cases a; cases b) simp_all

section \<open>The file offer message\<close>

record FileOffer =
  fo_transferId :: string
  fo_name :: string
  fo_size :: u64
  fo_mime :: string
  fo_sha256 :: string

definition to_json :: "'j json_api \<Rightarrow> FileOffer \<Rightarrow> 'j" where
  "to_json J p = json_object J [
     (''type'', json_string J ''file_offer''),
     (''transferId'', json_string J (fo_transferId p)),
     (''name'', json_string J (fo_name p)),
     (''size'', json_uint J (fo_size p)),
     (''mime'', json_string J (fo_mime p)),
     (''sha256'', json_string J (fo_sha256 p))]"

text \<open>\<^verbatim>\<open>payload.get<FileOffer>()\<close>; a field of the wrong type throws.\<close>

definition from_json :: "'j json_api \<Rightarrow> 'j \<Rightarrow> exn + FileOffer" where
  "from_json J j =
     bindE (value_string J j ''transferId'' '''') (\<lambda>tid.
     bindE (value_string J j ''name'' '''') (\<lambda>nm.
     bindE (value_uint J j ''size'' 0) (\<lambda>sz.
     bindE (value_string J j ''mime'' '''') (\<lambda>mime.
     bindE (value_string J j ''sha256'' '''') (\<lambda>sha.
       Inr \<lparr>fo_transferId = tid, fo_name = nm, fo_size = sz, fo_mime = mime, fo_sha256 = sha\<rparr>)))))"

lemma from_json_to_json:
  assumes "json_value_laws J"
  shows "from_json J (to_json J p) = Inr p"
  unfolding from_json_def to_json_def
  by (simp add: json_value_string [OF assms] json_value_uint [OF assms])

section \<open>Control messages\<close>

datatype msg_type =
    Hello | StartCamera | StopCamera | Ping
  | Welcome | Pong | Error
  | PairRequest | PairAccepted | PairRejected
  | FileOfferMsg | FileAccept | FileReject | FileReady | FileComplete | FileCancel
  | StartScreen | StopScreen
  | SetFlip | FlipStatus
  | Unknown

record 'j control_message =
  cm_type :: msg_type
  cm_payload :: "'j option"

definition msgTypeFromString :: "string \<Rightarrow> msg_type" where
  "msgTypeFromString s =
     (if s = ''hello'' then Hello
      else if s = ''start_camera'' then StartCamera
      else if s = ''stop_camera'' then StopCamera
      else if s = ''start_screen'' then StartScreen
      else if s = ''stop_screen'' then StopScreen
      else if s = ''set_flip'' then SetFlip
      else if s = ''flip_status'' then FlipStatus
      else if s = ''ping'' then Ping
      else if s = ''pair_request'' then PairRequest
      else if s = ''pair_accepted'' then PairAccepted
      else if s = ''pair_rejected'' then PairRejected
      else if s = ''file_offer'' then FileOfferMsg
      else if s = ''file_accept'' then FileAccept
      else if s = ''file_reject'' then FileReject
      else if s = ''file_ready'' then FileReady
      else if s = ''file_complete'' then FileComplete
      else if s = ''file_cancel'' then FileCancel
      else if s = ''welcome'' then Welcome
      else if s = ''pong'' then Pong
      else if s = ''error'' then Error
      else Unknown)"

text \<open>
  \<^verbatim>\<open>catch (...)\<close> turns both a text that does not parse and a \<^verbatim>\<open>type\<close> that is not a string
  into \<open>Unknown\<close>; after a failed parse the payload is the default \<^verbatim>\<open>json\<close> (null), here
  \<open>None\<close>.
\<close>

definition parseMessage :: "'j json_api \<Rightarrow> string \<Rightarrow> 'j control_message" where
  "parseMessage J raw =
     (case json_parse J raw of
        None \<Rightarrow> \<lparr>cm_type = Unknown, cm_payload = None\<rparr>
      | Some payload \<Rightarrow>
          (case value_string J payload ''type'' '''' of
             Inl _ \<Rightarrow> \<lparr>cm_type = Unknown, cm_payload = Some payload\<rparr>
           | Inr t \<Rightarrow> \<lparr>cm_type = msgTypeFromString t, cm_payload = Some payload\<rparr>))"

text \<open>The wire name of each type, as the protocol's comments give it.\<close>

fun wire_name :: "msg_type \<Rightarrow> string" where
  "wire_name Hello = ''hello''"
| "wire_name StartCamera = ''start_camera''"
| "wire_name StopCamera = ''stop_camera''"
| "wire_name Ping = ''ping''"
| "wire_name Welcome = ''welcome''"
| "wire_name Pong = ''pong''"
| "wire_name Error = ''error''"
| "wire_name PairRequest = ''pair_request''"
| "wire_name PairAccepted = ''pair_accepted''"
| "wire_name PairRejected = ''pair_rejected''"
| "wire_name FileOfferMsg = ''file_offer''"
| "wire_name FileAccept = ''file_accept''"
| "wire_name FileReject = ''file_reject''"
| "wire_name FileReady = ''file_ready''"
| "wire_name FileComplete = ''file_complete''"
| "wire_name FileCancel = ''file_cancel''"
| "wire_name StartScreen = ''start_screen''"
| "wire_name StopScreen = ''stop_screen''"
| "wire_name SetFlip = ''set_flip''"
| "wire_name FlipStatus = ''flip_status''"
| "wire_name Unknown = ''''"

lemma msgType_wire_name: "msgTypeFromString (wire_name t) = t"
  by (cases t) (simp_all add: msgTypeFromString_def)

lemma msgType_known: "msgTypeFromString s \<noteq> Unknown \<Longrightarrow> s = wire_name (msgTypeFromString s)"
  by (simp add: msgTypeFromString_def split: if_splits)

section \<open>Properties\<close>

text \<open>
  A message type is read from a wire string exactly when the string is the wire name of
  that type: the dispatch table is a bijection between the twenty known names and their types,
  and every other string is \<open>Unknown\<close>.
\<close>

lemma msg_type_dispatch:
  "(msgTypeFromString s = t \<and> t \<noteq> Unknown) \<longleftrightarrow> (s = wire_name t \<and> t \<noteq> Unknown)"
  using msgType_wire_name msgType_known by metis

lemma parse_offer:
  assumes "json_value_laws J" and "json_text_laws J"
  shows "parseMessage J (json_dump J (to_json J p)) = \<lparr>cm_type = FileOfferMsg, cm_payload = Some (to_json J p)\<rparr>"
proof -
  have "json_parse J (json_dump J (to_json J p)) = Some (to_json J p)"
    using assms(2) unfolding json_text_laws_def to_json_def
    by (simp add: json_scalar_def)
  moreover have "value_string J (to_json J p) ''type'' '''' = Inr ''file_offer''"
    unfolding to_json_def by (simp add: json_value_string [OF assms(1)])
  ultimately show ?thesis by (simp add: parseMessage_def msgTypeFromString_def)
qed

text \<open>
  C40: an offer the code sends survives the wire: parsing the dumped text of an offer gives a
  \<^verbatim>\<open>file_offer\<close> message whose payload converts back to the same offer, for every name, size
  and hash.
\<close>

theorem file_offer_roundtrip:
  assumes "json_value_laws J" and "json_text_laws J"
  shows "\<exists>payload. parseMessage J (json_dump J (to_json J p)) =
           \<lparr>cm_type = FileOfferMsg, cm_payload = Some payload\<rparr> \<and> from_json J payload = Inr p"
  by (simp add: parse_offer [OF assms] from_json_to_json [OF assms(1)])

theorem file_offer_roundtrip_witness:
  "\<exists>payload. parseMessage json_model (json_dump json_model (to_json json_model
       \<lparr>fo_transferId = ''t1'', fo_name = ''a.txt'', fo_size = 5, fo_mime = '''', fo_sha256 = ''''\<rparr>)) =
     \<lparr>cm_type = FileOfferMsg, cm_payload = Some payload\<rparr> \<and>
     from_json json_model payload =
       Inr \<lparr>fo_transferId = ''t1'', fo_name = ''a.txt'', fo_size = 5, fo_mime = '''', fo_sha256 = ''''\<rparr>"
  by (rule file_offer_roundtrip [OF json_model_value_laws json_model_text_laws])

end
