(* ===== verification/WsSession.thy ===== *)
theory WsSession
  imports Queues Protocol
begin

text \<open>
  \<^verbatim>\<open>src/core/WsSession.{h,cpp}\<close>: one WebSocket connection. \<open>handleMessage\<close> is the dispatch
  of a received text to the callbacks, over any state \<open>'s\<close> the callbacks work on; the write
  side is the queue with at most one \<^verbatim>\<open>async_write\<close> under way. \<^verbatim>\<open>doWrite\<close> gives that write a
  buffer over a local string that is gone when it returns: what the operation finds there while it runs
  is not determined by the program, so the text that goes out is an argument of its completion.
\<close>

section \<open>Callbacks and dispatch\<close>

text \<open>A \<^verbatim>\<open>std::function\<close> may be empty, so every callback is an option.\<close>

record ('j, 's) SessionCallbacks =
  onHello :: "(u64 \<Rightarrow> string \<Rightarrow> 's \<Rightarrow> exn + 's) option"
  onStartCamera :: "(u64 \<Rightarrow> 's \<Rightarrow> exn + 's) option"
  onStopCamera :: "(u64 \<Rightarrow> 's \<Rightarrow> exn + 's) option"
  onStartScreen :: "(u64 \<Rightarrow> 's \<Rightarrow> exn + 's) option"
  onStopScreen :: "(u64 \<Rightarrow> 's \<Rightarrow> exn + 's) option"
  onSetFlip :: "(u64 \<Rightarrow> bool \<Rightarrow> 's \<Rightarrow> exn + 's) option"
  onDisconnect :: "(u64 \<Rightarrow> 's \<Rightarrow> exn + 's) option"
  onPairRequest :: "(u64 \<Rightarrow> 'j \<Rightarrow> 's \<Rightarrow> exn + 's) option"
  onFileOffer :: "(u64 \<Rightarrow> 'j \<Rightarrow> 's \<Rightarrow> exn + 's) option"
  onFileAccept :: "(u64 \<Rightarrow> 'j \<Rightarrow> 's \<Rightarrow> exn + 's) option"
  onFileReject :: "(u64 \<Rightarrow> 'j \<Rightarrow> 's \<Rightarrow> exn + 's) option"
  onFileComplete :: "(u64 \<Rightarrow> 'j \<Rightarrow> 's \<Rightarrow> exn + 's) option"
  onFileCancel :: "(u64 \<Rightarrow> 'j \<Rightarrow> 's \<Rightarrow> exn + 's) option"
  getPcPublicKey :: "('s \<Rightarrow> string) option"
  getFlipHorizontal :: "('s \<Rightarrow> bool) option"

definition call1 :: "(u64 \<Rightarrow> 's \<Rightarrow> exn + 's) option \<Rightarrow> u64 \<Rightarrow> 's \<Rightarrow> exn + 's" where
  "call1 f sid s = (case f of None \<Rightarrow> Inr s | Some g \<Rightarrow> g sid s)"

definition call2 :: "(u64 \<Rightarrow> 'a \<Rightarrow> 's \<Rightarrow> exn + 's) option \<Rightarrow> u64 \<Rightarrow> 'a \<Rightarrow> 's \<Rightarrow> exn + 's" where
  "call2 f sid a s = (case f of None \<Rightarrow> Inr s | Some g \<Rightarrow> g sid a s)"

definition welcome_message :: "'j json_api \<Rightarrow> string \<Rightarrow> bool \<Rightarrow> string" where
  "welcome_message J pk flip = json_dump J (json_object J [
     (''type'', json_string J ''welcome''), (''deviceName'', json_string J ''Iriseus PC''),
     (''deviceId'', json_string J ''pc-placeholder-id''), (''pk'', json_string J pk),
     (''flip'', json_bool J flip)])"

definition pong_message :: "'j json_api \<Rightarrow> string" where
  "pong_message J = json_dump J (json_object J [(''type'', json_string J ''pong'')])"

text \<open>
  The result: the state after the callbacks, and the texts handed to \<^verbatim>\<open>send\<close>. A message whose
  payload did not parse has the type \<open>Unknown\<close>, so a payload is there wherever one is read.
\<close>

definition handleMessage ::
  "'j json_api \<Rightarrow> ('j, 's) SessionCallbacks \<Rightarrow> u64 \<Rightarrow> string \<Rightarrow> 's \<Rightarrow> exn + ('s \<times> string list)" where
  "handleMessage J cb sid raw s =
     (let msg = parseMessage J raw; payload = the (cm_payload msg);
          quiet = (\<lambda>r. bindE r (\<lambda>s'. Inr (s', [])))
      in case cm_type msg of
        Hello \<Rightarrow>
          bindE (value_string J payload ''deviceName'' ''Unknown'') (\<lambda>deviceName.
          bindE (call2 (onHello cb) sid deviceName s) (\<lambda>s'.
            let pk = (case getPcPublicKey cb of None \<Rightarrow> [] | Some g \<Rightarrow> g s');
                flip = (case getFlipHorizontal cb of None \<Rightarrow> True | Some g \<Rightarrow> g s')
            in Inr (s', [welcome_message J pk flip])))
      | StartCamera \<Rightarrow> quiet (call1 (onStartCamera cb) sid s)
      | StopCamera \<Rightarrow> quiet (call1 (onStopCamera cb) sid s)
      | StartScreen \<Rightarrow> quiet (call1 (onStartScreen cb) sid s)
      | StopScreen \<Rightarrow> quiet (call1 (onStopScreen cb) sid s)
      | SetFlip \<Rightarrow>
          (case onSetFlip cb of None \<Rightarrow> Inr (s, [])
           | Some g \<Rightarrow> bindE (value_bool J payload ''flip'' True) (\<lambda>flip. quiet (g sid flip s)))
      | Ping \<Rightarrow> Inr (s, [pong_message J])
      | PairRequest \<Rightarrow> quiet (call2 (onPairRequest cb) sid payload s)
      | FileOfferMsg \<Rightarrow> quiet (call2 (onFileOffer cb) sid payload s)
      | FileAccept \<Rightarrow> quiet (call2 (onFileAccept cb) sid payload s)
      | FileReject \<Rightarrow> quiet (call2 (onFileReject cb) sid payload s)
      | FileComplete \<Rightarrow> quiet (call2 (onFileComplete cb) sid payload s)
      | FileCancel \<Rightarrow> quiet (call2 (onFileCancel cb) sid payload s)
      | _ \<Rightarrow> Inr (s, []))"

text \<open>
  \<^verbatim>\<open>onRead\<close>: \<open>None\<close> stands for an error code, after which no further read is started, which
  is the boolean of the result.
\<close>

definition onRead ::
  "'j json_api \<Rightarrow> ('j, 's) SessionCallbacks \<Rightarrow> u64 \<Rightarrow> string option \<Rightarrow> 's \<Rightarrow> exn + ('s \<times> string list \<times> bool)" where
  "onRead J cb sid received s =
     (case received of
        None \<Rightarrow> bindE (call1 (onDisconnect cb) sid s) (\<lambda>s'. Inr (s', [], False))
      | Some raw \<Rightarrow> bindE (handleMessage J cb sid raw s) (\<lambda>(s', msgs). Inr (s', msgs, True)))"

section \<open>The write queue\<close>

text \<open>
  \<open>posted\<close> are the lambdas that \<^verbatim>\<open>send\<close> has posted and the executor has not run, \<open>in_flight\<close>
  the text that the \<^verbatim>\<open>async_write\<close> under way was started for, \<open>written\<close> what has gone out on the wire.
\<close>

record WsSession =
  ws_id :: u64
  posted :: "string list"
  m_writeQueue :: "string list"
  in_flight :: "string option"
  written :: "string list"

definition new_ws_session :: "u64 \<Rightarrow> WsSession" where
  "new_ws_session sid = \<lparr>ws_id = sid, posted = [], m_writeQueue = [], in_flight = None, written = []\<rparr>"

definition ws_send :: "string \<Rightarrow> WsSession \<Rightarrow> WsSession" where
  "ws_send message s = s\<lparr>posted := posted s @ [message]\<rparr>"

definition doWrite :: "WsSession \<Rightarrow> WsSession" where
  "doWrite s = (case m_writeQueue s of [] \<Rightarrow> s | msg # rest \<Rightarrow> s\<lparr>in_flight := Some msg\<rparr>)"

text \<open>The executor runs the oldest posted lambda.\<close>

definition run_posted :: "WsSession \<Rightarrow> WsSession" where
  "run_posted s =
     (case posted s of [] \<Rightarrow> s
      | message # rest \<Rightarrow>
          let writeInProgress = (m_writeQueue s \<noteq> []);
              s1 = s\<lparr>posted := rest, m_writeQueue := m_writeQueue s @ [message]\<rparr>
          in if \<not> writeInProgress then doWrite s1 else s1)"

text \<open>
  The completion handler of \<^verbatim>\<open>async_write\<close>: \<open>ec\<close> tells whether the write failed, \<open>found\<close> is the text
  that the operation found in its buffer and sent.
\<close>

definition on_written :: "bool \<Rightarrow> string \<Rightarrow> WsSession \<Rightarrow> WsSession" where
  "on_written ec found s =
     (case in_flight s of None \<Rightarrow> s
      | Some msg \<Rightarrow>
          if ec then s\<lparr>in_flight := None\<rparr>
          else let s1 = s\<lparr>in_flight := None, written := written s @ [found],
                          m_writeQueue := (if m_writeQueue s \<noteq> [] then tl (m_writeQueue s) else [])\<rparr>
               in if m_writeQueue s1 = [] then s1 else doWrite s1)"

section \<open>One write at a time, in order\<close>

text \<open>A session whose writes have not failed writes the head of its queue.\<close>

definition ws_inv :: "WsSession \<Rightarrow> bool" where
  "ws_inv s \<longleftrightarrow> in_flight s = (case m_writeQueue s of [] \<Rightarrow> None | msg # rest \<Rightarrow> Some msg)"

definition ws_pending :: "WsSession \<Rightarrow> string list" where
  "ws_pending s = m_writeQueue s @ posted s"

text \<open>A write that completes and found in its buffer what \<^verbatim>\<open>doWrite\<close> had put there.\<close>

definition ws_take :: "WsSession \<Rightarrow> (string \<times> WsSession) option" where
  "ws_take s = (case in_flight s of None \<Rightarrow> None | Some msg \<Rightarrow> Some (msg, on_written False msg s))"

definition complete_write :: "WsSession \<Rightarrow> WsSession" where
  "complete_write s = (case ws_take s of None \<Rightarrow> s | Some (msg, s') \<Rightarrow> s')"

lemma run_posted_keeps:
  "ws_inv s \<Longrightarrow> ws_inv (run_posted s) \<and> ws_pending (run_posted s) = ws_pending s \<and>
   written (run_posted s) = written s \<and> ws_id (run_posted s) = ws_id s"
  by (auto simp: ws_inv_def ws_pending_def run_posted_def doWrite_def Let_def split: list.splits)

lemma on_written_ok:
  "ws_inv s \<Longrightarrow> in_flight s = Some msg \<Longrightarrow>
   ws_inv (on_written False found s) \<and> ws_pending s = msg # ws_pending (on_written False found s) \<and>
   written (on_written False found s) = written s @ [found]"
  by (auto simp: ws_inv_def ws_pending_def on_written_def doWrite_def Let_def split: list.splits)

interpretation wq: lossy_queue ws_pending ws_send ws_take "\<lambda>s. False" ws_inv
proof unfold_locales
  show "ws_inv q \<Longrightarrow> ws_pending (ws_send a q) = (if False then [a] else ws_pending q @ [a])" for q a
    by (simp add: ws_pending_def ws_send_def)
  show "ws_inv q \<Longrightarrow> ws_take q = Some (a, q') \<Longrightarrow> ws_pending q = a # ws_pending q'" for q a q'
    using on_written_ok by (auto simp: ws_take_def split: option.splits)
  show "ws_inv q \<Longrightarrow> ws_inv (ws_send a q)" for q a
    by (simp add: ws_inv_def ws_send_def)
  show "ws_inv q \<Longrightarrow> ws_take q = Some (a, q') \<Longrightarrow> ws_inv q'" for q a q'
    using on_written_ok by (auto simp: ws_take_def split: option.splits)
qed

text \<open>The steps of a session's write side, with what was asked to be sent.\<close>

datatype ws_op = Send string | RunPosted | WriteDone bool string

fun ws_step :: "ws_op \<Rightarrow> WsSession \<Rightarrow> WsSession" where
  "ws_step (Send message) s = ws_send message s"
| "ws_step RunPosted s = run_posted s"
| "ws_step (WriteDone ec found) s = on_written ec found s"

fun sends :: "ws_op list \<Rightarrow> string list" where
  "sends [] = []"
| "sends (Send message # ops) = message # sends ops"
| "sends (_ # ops) = sends ops"

definition no_failure :: "ws_op list \<Rightarrow> bool" where
  "no_failure ops \<longleftrightarrow> (\<forall>found. WriteDone True found \<notin> set ops)"

text \<open>Every write that completes finds its buffer as it was when it was started.\<close>

fun buffers_intact :: "ws_op list \<Rightarrow> WsSession \<Rightarrow> bool" where
  "buffers_intact [] s \<longleftrightarrow> True"
| "buffers_intact (op # ops) s \<longleftrightarrow>
     (case op of WriteDone ec found \<Rightarrow> in_flight s = None \<or> in_flight s = Some found | _ \<Rightarrow> True) \<and>
     buffers_intact ops (ws_step op s)"

text \<open>
  Whatever the buffers held, the writes are completed for the messages sent, in their order: \<open>msgs\<close> are
  those completed before, \<open>n\<close> the texts written before.
\<close>

lemma ws_run_order:
  "ws_inv s \<Longrightarrow> no_failure ops \<Longrightarrow>
   \<exists>done. ws_inv (fold ws_step ops s) \<and>
     done @ ws_pending (fold ws_step ops s) = ws_pending s @ sends ops \<and>
     length (written (fold ws_step ops s)) = length (written s) + length done \<and>
     (buffers_intact ops s \<longrightarrow> written (fold ws_step ops s) = written s @ done)"
proof (induction ops arbitrary: s)
  case (Cons op ops)
  have "ws_inv (ws_step op s) \<and> (\<exists>d. d @ ws_pending (ws_step op s) =
      ws_pending s @ (case op of Send message \<Rightarrow> [message] | _ \<Rightarrow> []) \<and>
      length (written (ws_step op s)) = length (written s) + length d \<and>
      (buffers_intact (op # ops) s \<longrightarrow> written (ws_step op s) = written s @ d))"
  proof (cases op)
    case (Send message)
    with Cons.prems(1) show ?thesis
      using wq.inv_put wq.put_contents by (simp add: ws_send_def [of message s, THEN arg_cong, of written])
  next
    case RunPosted
    with run_posted_keeps [OF Cons.prems(1)] show ?thesis by simp
  next
    case (WriteDone ec found)
    with Cons.prems(2) have "ec = False" by (auto simp: no_failure_def)
    show ?thesis
    proof (cases "in_flight s")
      case None
      with WriteDone Cons.prems(1) show ?thesis by (simp add: on_written_def)
    next
      case (Some msg)
      from on_written_ok [OF Cons.prems(1) Some, of found] WriteDone \<open>ec = False\<close> Some show ?thesis
        by (intro conjI exI [of _ "[msg]"]) simp_all
    qed
  qed
  then obtain d where inv: "ws_inv (ws_step op s)"
    and d: "d @ ws_pending (ws_step op s) = ws_pending s @ (case op of Send message \<Rightarrow> [message] | _ \<Rightarrow> [])"
      "length (written (ws_step op s)) = length (written s) + length d"
      "buffers_intact (op # ops) s \<longrightarrow> written (ws_step op s) = written s @ d" by blast
  have "no_failure ops" using Cons.prems(2) by (simp add: no_failure_def)
  from Cons.IH [OF inv this] obtain e where e: "ws_inv (fold ws_step ops (ws_step op s))"
    "e @ ws_pending (fold ws_step ops (ws_step op s)) = ws_pending (ws_step op s) @ sends ops"
    "length (written (fold ws_step ops (ws_step op s))) = length (written (ws_step op s)) + length e"
    "buffers_intact ops (ws_step op s) \<longrightarrow> written (fold ws_step ops (ws_step op s)) = written (ws_step op s) @ e"
    by blast
  have "(d @ e) @ ws_pending (fold ws_step (op # ops) s) = ws_pending s @ sends (op # ops)"
  proof -
    have "(d @ e) @ ws_pending (fold ws_step (op # ops) s) = (d @ ws_pending (ws_step op s)) @ sends ops"
      using e(2) by simp
    then show ?thesis unfolding d(1) by (cases op) simp_all
  qed
  with e d show ?case by (intro exI [of _ "d @ e"]) (simp del: buffers_intact.simps, simp)
qed (simp add: exI [of _ "[]"])

text \<open>After a failed write the queue is never drained again.\<close>

lemma ws_stalled:
  "in_flight s = None \<Longrightarrow> m_writeQueue s \<noteq> [] \<Longrightarrow>
   written (fold ws_step ops s) = written s \<and> in_flight (fold ws_step ops s) = None"
proof (induction ops arbitrary: s)
  case (Cons op ops)
  have "in_flight (ws_step op s) = None" "m_writeQueue (ws_step op s) \<noteq> []" "written (ws_step op s) = written s"
    using Cons.prems
    by (cases op; simp add: ws_send_def run_posted_def on_written_def Let_def split: list.splits)+
  with Cons.IH show ?case by simp
qed simp

text \<open>Running all posted lambdas, then completing all writes, empties the session.\<close>

lemma run_all_posted:
  "ws_inv s \<Longrightarrow> length (posted s) = n \<Longrightarrow>
   ws_inv ((run_posted ^^ n) s) \<and> posted ((run_posted ^^ n) s) = [] \<and>
   m_writeQueue ((run_posted ^^ n) s) = m_writeQueue s @ posted s \<and> written ((run_posted ^^ n) s) = written s"
proof (induction n arbitrary: s)
  case (Suc n)
  then obtain message rest where p: "posted s = message # rest" "length rest = n"
    by (cases "posted s") auto
  have "posted (run_posted s) = rest" "m_writeQueue (run_posted s) = m_writeQueue s @ [message]"
    using p by (auto simp: run_posted_def doWrite_def Let_def split: list.split)
  with Suc.IH [of "run_posted s"] run_posted_keeps [OF Suc.prems(1)] p show ?case
    by (simp add: funpow_swap1)
qed simp

lemma complete_all_writes:
  "ws_inv s \<Longrightarrow> length (m_writeQueue s) = n \<Longrightarrow>
   m_writeQueue ((complete_write ^^ n) s) = [] \<and>
   written ((complete_write ^^ n) s) = written s @ m_writeQueue s \<and>
   posted ((complete_write ^^ n) s) = posted s"
proof (induction n arbitrary: s)
  case (Suc n)
  then obtain msg rest where q: "m_writeQueue s = msg # rest" "length rest = n"
    by (cases "m_writeQueue s") auto
  then have f: "in_flight s = Some msg" using Suc.prems(1) by (simp add: ws_inv_def)
  then have c: "complete_write s = on_written False msg s" by (simp add: complete_write_def ws_take_def)
  from f q have "m_writeQueue (on_written False msg s) = rest" "written (on_written False msg s) = written s @ [msg]"
    "posted (on_written False msg s) = posted s"
    by (auto simp: on_written_def doWrite_def Let_def split: list.split)
  with Suc.IH [of "on_written False msg s"] on_written_ok [OF Suc.prems(1) f, of msg] q c show ?case
    by (simp add: funpow_swap1)
qed simp

section \<open>Properties\<close>



text \<open>
  The buffer of a write is a dead object while the write runs: whatever it has been overwritten with goes
  out in the place of the message, and the session goes on as if nothing had happened.
\<close>

lemma dangling_buffer_sends_anything:
  "written (fold ws_step [Send msg, RunPosted, WriteDone False found] (new_ws_session sid)) = [found] \<and>
   m_writeQueue (fold ws_step [Send msg, RunPosted, WriteDone False found] (new_ws_session sid)) = []"
  by (simp add: new_ws_session_def ws_send_def run_posted_def doWrite_def on_written_def)

text \<open>
  A failed write silences the session. The completion handler returns on an error and
  leaves the message at the head of the queue, so \<^verbatim>\<open>send\<close> always finds a write in progress:
  whatever is sent later, nothing is written any more, and the queue only grows.
\<close>

lemma write_failure_silences:
  assumes "ws_inv s" and "in_flight s = Some msg"
  shows "written (fold ws_step ops (on_written True found s)) = written s \<and>
    in_flight (fold ws_step ops (on_written True found s)) = None"
proof -
  have "m_writeQueue s \<noteq> []" using assms by (auto simp: ws_inv_def split: list.splits)
  with assms(2) ws_stalled [of "on_written True found s" ops] show ?thesis
    by (simp add: on_written_def)
qed

text \<open>
  A greeting is answered, noise is not. A \<^verbatim>\<open>hello\<close> with a device name calls \<^verbatim>\<open>onHello\<close>
  with that name and answers with one \<^verbatim>\<open>welcome\<close>, which carries the public key and the flip
  setting of the state after the callback; a text that is not JSON, or of a type the PC only
  sends, changes nothing and is not answered.
\<close>

lemma hello_answered:
  assumes "json_value_laws J" and "json_text_laws J"
    and "raw = json_dump J (json_object J [(''type'', json_string J ''hello''), (''deviceName'', json_string J name)])"
    and "onHello cb = Some h" and "h sid name s = Inr s'"
    and "getPcPublicKey cb = Some pk" and "getFlipHorizontal cb = Some flip"
    and "json_parse J junk = None"
  shows "handleMessage J cb sid raw s = Inr (s', [welcome_message J (pk s') (flip s')]) \<and>
    (\<exists>p. parseMessage J (welcome_message J (pk s') (flip s')) = \<lparr>cm_type = Welcome, cm_payload = Some p\<rparr> \<and>
      value_string J p ''pk'' [] = Inr (pk s') \<and> value_bool J p ''flip'' True = Inr (flip s')) \<and>
    handleMessage J cb sid junk s = Inr (s, []) \<and>
    handleMessage J cb sid (welcome_message J (pk s') (flip s')) s = Inr (s, [])"
proof -
  let ?ask = "[(''type'', json_string J ''hello''), (''deviceName'', json_string J name)]"
  let ?answer = "[(''type'', json_string J ''welcome''), (''deviceName'', json_string J ''Iriseus PC''),
     (''deviceId'', json_string J ''pc-placeholder-id''), (''pk'', json_string J (pk s')),
     (''flip'', json_bool J (flip s'))]"
  have parse: "json_parse J raw = Some (json_object J ?ask)"
    "json_parse J (welcome_message J (pk s') (flip s')) = Some (json_object J ?answer)"
    using assms(2) unfolding json_text_laws_def assms(3) welcome_message_def by (simp_all add: json_scalar_def)
  have vals: "value_string J (json_object J ?ask) ''type'' [] = Inr ''hello''"
    "value_string J (json_object J ?ask) ''deviceName'' d = Inr name"
    "value_string J (json_object J ?answer) ''type'' [] = Inr ''welcome''"
    "value_string J (json_object J ?answer) ''pk'' [] = Inr (pk s')"
    "value_bool J (json_object J ?answer) ''flip'' True = Inr (flip s')" for d
    by (simp_all add: json_value_string [OF assms(1)] json_value_bool [OF assms(1)])
  show ?thesis
    using assms(4-8) parse vals
    by (simp add: handleMessage_def parseMessage_def msgTypeFromString_def Let_def call2_def)
qed

end
