(* ===== verification/WsServer.thy ===== *)
theory WsServer
  imports WsSession
begin

text \<open>
  \<^verbatim>\<open>src/core/WsServer.{h,cpp}\<close>: the acceptor, the table of sessions and the callbacks it gives
  to each. The callbacks of the application work on the whole state, which holds the
  application's own part as \<open>app\<close>; they reach a session through \<open>ws_sendTo\<close>. Sessions get
  their ids from a 64-bit counter that starts at 1.
\<close>

section \<open>State\<close>

text \<open>
  \<open>broadcasts\<close> are the texts whose lambdas \<^verbatim>\<open>broadcast\<close> has posted to the \<^verbatim>\<open>io_context\<close> and the
  server's thread has not run yet: which sessions a text goes to is settled when its lambda runs.
\<close>

record 's WsServer =
  ws_running :: bool
  m_nextId :: u64
  ws_sessions :: "(u64, WsSession) umap"
  broadcasts :: "string list"
  app :: 's

record ('j, 's) ServerCallbacks =
  onDeviceConnected :: "(u64 \<Rightarrow> string \<Rightarrow> 's WsServer \<Rightarrow> exn + 's WsServer) option"
  onDeviceDisconnected :: "(u64 \<Rightarrow> 's WsServer \<Rightarrow> exn + 's WsServer) option"
  sc_onStartCamera :: "(u64 \<Rightarrow> 's WsServer \<Rightarrow> exn + 's WsServer) option"
  sc_onStopCamera :: "(u64 \<Rightarrow> 's WsServer \<Rightarrow> exn + 's WsServer) option"
  sc_onStartScreen :: "(u64 \<Rightarrow> 's WsServer \<Rightarrow> exn + 's WsServer) option"
  sc_onStopScreen :: "(u64 \<Rightarrow> 's WsServer \<Rightarrow> exn + 's WsServer) option"
  sc_onSetFlip :: "(u64 \<Rightarrow> bool \<Rightarrow> 's WsServer \<Rightarrow> exn + 's WsServer) option"
  sc_onPairRequest :: "(u64 \<Rightarrow> 'j \<Rightarrow> 's WsServer \<Rightarrow> exn + 's WsServer) option"
  sc_onFileOffer :: "(u64 \<Rightarrow> 'j \<Rightarrow> 's WsServer \<Rightarrow> exn + 's WsServer) option"
  sc_onFileAccept :: "(u64 \<Rightarrow> 'j \<Rightarrow> 's WsServer \<Rightarrow> exn + 's WsServer) option"
  sc_onFileReject :: "(u64 \<Rightarrow> 'j \<Rightarrow> 's WsServer \<Rightarrow> exn + 's WsServer) option"
  sc_onFileComplete :: "(u64 \<Rightarrow> 'j \<Rightarrow> 's WsServer \<Rightarrow> exn + 's WsServer) option"
  sc_onFileCancel :: "(u64 \<Rightarrow> 'j \<Rightarrow> 's WsServer \<Rightarrow> exn + 's WsServer) option"
  sc_getPcPublicKey :: "('s WsServer \<Rightarrow> string) option"
  sc_getFlipHorizontal :: "('s WsServer \<Rightarrow> bool) option"

definition newWsServer :: "'s \<Rightarrow> 's WsServer" where
  "newWsServer a = \<lparr>ws_running = False, m_nextId = 1, ws_sessions = [], broadcasts = [], app = a\<rparr>"

section \<open>Operations\<close>

definition ws_start :: "bool \<Rightarrow> 's WsServer \<Rightarrow> bool \<times> 's WsServer" where
  "ws_start bound w = (if bound then (True, w\<lparr>ws_running := True\<rparr>) else (False, w))"

definition ws_stop :: "'s WsServer \<Rightarrow> 's WsServer" where
  "ws_stop w = (if \<not> ws_running w then w else w\<lparr>ws_running := False, ws_sessions := []\<rparr>)"

definition removeSession :: "u64 \<Rightarrow> 's WsServer \<Rightarrow> 's WsServer" where
  "removeSession sid w = w\<lparr>ws_sessions := um_erase sid (ws_sessions w)\<rparr>"

text \<open>The lambdas that \<^verbatim>\<open>doAccept\<close> puts between a session and the application.\<close>

definition session_callbacks :: "('j, 's) ServerCallbacks \<Rightarrow> ('j, 's WsServer) SessionCallbacks" where
  "session_callbacks m = \<lparr>
     onHello = Some (call2 (onDeviceConnected m)),
     onStartCamera = Some (call1 (sc_onStartCamera m)),
     onStopCamera = Some (call1 (sc_onStopCamera m)),
     onStartScreen = Some (call1 (sc_onStartScreen m)),
     onStopScreen = Some (call1 (sc_onStopScreen m)),
     onSetFlip = Some (call2 (sc_onSetFlip m)),
     onDisconnect = Some (\<lambda>sid w. call1 (onDeviceDisconnected m) sid (removeSession sid w)),
     onPairRequest = Some (call2 (sc_onPairRequest m)),
     onFileOffer = Some (call2 (sc_onFileOffer m)),
     onFileAccept = Some (call2 (sc_onFileAccept m)),
     onFileReject = Some (call2 (sc_onFileReject m)),
     onFileComplete = Some (call2 (sc_onFileComplete m)),
     onFileCancel = Some (call2 (sc_onFileCancel m)),
     getPcPublicKey = Some (\<lambda>w. case sc_getPcPublicKey m of None \<Rightarrow> [] | Some g \<Rightarrow> g w),
     getFlipHorizontal = Some (\<lambda>w. case sc_getFlipHorizontal m of None \<Rightarrow> True | Some g \<Rightarrow> g w)\<rparr>"

text \<open>The accept handler: \<open>ec\<close> tells whether the accept failed.\<close>

definition ws_accept :: "bool \<Rightarrow> 's WsServer \<Rightarrow> 's WsServer" where
  "ws_accept ec w =
     (if \<not> ws_running w then w
      else if ec then w
      else w\<lparr>m_nextId := m_nextId w + 1,
             ws_sessions := um_put (m_nextId w) (new_ws_session (m_nextId w)) (ws_sessions w)\<rparr>)"

text \<open>\<^verbatim>\<open>WsSession::start\<close>: when the WebSocket handshake fails, nothing happens.\<close>

definition handshake_failed :: "u64 \<Rightarrow> 's WsServer \<Rightarrow> 's WsServer" where
  "handshake_failed sid w = w"

definition on_session :: "u64 \<Rightarrow> (WsSession \<Rightarrow> WsSession) \<Rightarrow> 's WsServer \<Rightarrow> 's WsServer" where
  "on_session sid g w =
     (case um_find (ws_sessions w) sid of
        None \<Rightarrow> w
      | Some s \<Rightarrow> w\<lparr>ws_sessions := um_put sid (g s) (ws_sessions w)\<rparr>)"

definition ws_sendTo :: "u64 \<Rightarrow> string \<Rightarrow> 's WsServer \<Rightarrow> 's WsServer" where
  "ws_sendTo sid message w = on_session sid (ws_send message) w"

definition ws_broadcast :: "string \<Rightarrow> 's WsServer \<Rightarrow> 's WsServer" where
  "ws_broadcast message w = w\<lparr>broadcasts := broadcasts w @ [message]\<rparr>"

text \<open>
  The server's thread runs the oldest lambda that \<^verbatim>\<open>broadcast\<close> has posted; once \<^verbatim>\<open>stop\<close> has
  stopped the \<^verbatim>\<open>io_context\<close>, no lambda runs.
\<close>

definition ws_run_broadcast :: "'s WsServer \<Rightarrow> 's WsServer" where
  "ws_run_broadcast w =
     (if \<not> ws_running w then w
      else case broadcasts w of
        [] \<Rightarrow> w
      | message # rest \<Rightarrow>
          w\<lparr>broadcasts := rest, ws_sessions := map (\<lambda>(k, s). (k, ws_send message s)) (ws_sessions w)\<rparr>)"

text \<open>
  A completed read of session \<open>sid\<close>: the dispatch with the server's callbacks, and the
  session's own answers put in its write queue.
\<close>

definition ws_read ::
  "'j json_api \<Rightarrow> ('j, 's) ServerCallbacks \<Rightarrow> u64 \<Rightarrow> string option \<Rightarrow> 's WsServer \<Rightarrow> exn + 's WsServer" where
  "ws_read J m sid received w =
     bindE (onRead J (session_callbacks m) sid received w) (\<lambda>(w', msgs, again).
       Inr (fold (ws_sendTo sid) msgs w'))"

section \<open>Identifiers\<close>

text \<open>
  \<open>ids\<close> is the history of the server: the ids of all sessions that have been accepted so far, the
  ended ones too, in order. The callbacks of the application may send and
  broadcast and change their own state; what they may not do, and have no way to do, is to
  touch the counter or to add a session.
\<close>

definition ws_table_inv :: "u64 list \<Rightarrow> 's WsServer \<Rightarrow> bool" where
  "ws_table_inv ids w \<longleftrightarrow> um_wf (ws_sessions w) \<and> m_nextId w = of_nat (Suc (length ids)) \<and>
     ids = map of_nat [1..<Suc (length ids)] \<and>
     (\<forall>k s. um_find (ws_sessions w) k = Some s \<longrightarrow> ws_id s = k \<and> k \<in> set ids)"

inductive ws_server_step :: "u64 list \<times> 's WsServer \<Rightarrow> u64 list \<times> 's WsServer \<Rightarrow> bool" where
  wss_start: "ws_server_step (ids, w) (ids, snd (ws_start bound w))"
| wss_stop: "ws_server_step (ids, w) (ids, ws_stop w)"
| wss_accept: "ws_running w \<Longrightarrow> ws_server_step (ids, w) (ids @ [m_nextId w], ws_accept False w)"
| wss_accept_failed: "ws_server_step (ids, w) (ids, ws_accept True w)"
| wss_handshake_failed: "ws_server_step (ids, w) (ids, handshake_failed sid w)"
| wss_disconnect: "ws_server_step (ids, w) (ids, removeSession sid w)"
| wss_send: "ws_server_step (ids, w) (ids, ws_sendTo sid message w)"
| wss_broadcast: "ws_server_step (ids, w) (ids, ws_broadcast message w)"
| wss_run_broadcast: "ws_server_step (ids, w) (ids, ws_run_broadcast w)"
| wss_posted: "ws_server_step (ids, w) (ids, on_session sid run_posted w)"
| wss_written: "ws_server_step (ids, w) (ids, on_session sid (on_written ec found) w)"
| wss_app: "ws_server_step (ids, w) (ids, w\<lparr>app := a\<rparr>)"

inductive ws_server_run :: "u64 list \<times> 's WsServer \<Rightarrow> bool" where
  wsr_new: "ws_server_run ([], newWsServer a)"
| wsr_step: "ws_server_run (ids, w) \<Longrightarrow> ws_server_step (ids, w) (ids', w') \<Longrightarrow> ws_server_run (ids', w')"

lemma on_session_find:
  "um_find (ws_sessions (on_session sid g w)) k =
     (if k = sid then map_option g (um_find (ws_sessions w) k) else um_find (ws_sessions w) k)"
  by (cases "um_find (ws_sessions w) sid") (auto simp: on_session_def)

lemma on_session_sels [simp]:
  "m_nextId (on_session sid g w) = m_nextId w"
  "um_wf (ws_sessions w) \<Longrightarrow> um_wf (ws_sessions (on_session sid g w))"
  by (auto simp: on_session_def split: option.split)

lemma um_find_map: "um_find (map (\<lambda>(k, s). (k, g s)) m) k = map_option g (um_find m k)"
  by (simp add: um_find_def map_of_map)

lemma ws_id_ops [simp]:
  "ws_id (ws_send message s) = ws_id s" "ws_id (run_posted s) = ws_id s" "ws_id (on_written ec found s) = ws_id s"
  by (auto simp: ws_send_def run_posted_def on_written_def doWrite_def Let_def split: list.split option.split)

lemma on_session_inv:
  assumes "ws_table_inv ids w" and "\<And>s. ws_id (g s) = ws_id s"
  shows "ws_table_inv ids (on_session sid g w)"
  using assms by (auto simp: ws_table_inv_def on_session_find split: if_splits)

lemma ws_accept_inv:
  assumes "ws_table_inv ids w" and "ws_running w"
  shows "ws_table_inv (ids @ [m_nextId w]) (ws_accept False w)"
proof -
  have ids: "ids = map of_nat [1..<Suc (length ids)]" and id: "m_nextId w = of_nat (Suc (length ids))"
    using assms(1) by (simp_all add: ws_table_inv_def)
  have "ids @ [m_nextId w] = map of_nat [1..<Suc (length (ids @ [m_nextId w]))]"
    by (subst (1) ids) (simp add: id)
  moreover have "m_nextId w + 1 = of_nat (Suc (length (ids @ [m_nextId w])))" by (simp add: id)
  ultimately show ?thesis
    using assms by (simp add: ws_table_inv_def ws_accept_def new_ws_session_def)
qed

lemma ws_server_step_inv:
  assumes "ws_server_step (ids, w) (ids', w')" and "ws_table_inv ids w"
  shows "ws_table_inv ids' w'"
  using assms(1)
proof (cases rule: ws_server_step.cases)
  case wss_accept
  with ws_accept_inv [OF assms(2)] show ?thesis by simp
next
  case (wss_start bound)
  with assms(2) show ?thesis by (simp add: ws_start_def ws_table_inv_def)
next
  case wss_stop
  with assms(2) show ?thesis by (simp add: ws_stop_def ws_table_inv_def)
next
  case wss_accept_failed
  with assms(2) show ?thesis by (simp add: ws_accept_def)
next
  case (wss_disconnect sid)
  with assms(2) show ?thesis by (auto simp: removeSession_def ws_table_inv_def split: if_splits)
next
  case (wss_broadcast message)
  with assms(2) show ?thesis by (simp add: ws_broadcast_def ws_table_inv_def)
next
  case wss_run_broadcast
  with assms(2) show ?thesis
    by (auto simp: ws_run_broadcast_def ws_table_inv_def um_find_map um_wf_def comp_def case_prod_beta split: list.split)
qed (use assms(2) in \<open>auto simp: handshake_failed_def ws_sendTo_def on_session_inv ws_table_inv_def [of _ "_\<lparr>app := _\<rparr>"],
     auto simp: ws_table_inv_def\<close>)

lemma ws_server_run_inv: "ws_server_run p \<Longrightarrow> ws_table_inv (fst p) (snd p)"
proof (induction rule: ws_server_run.induct)
  case (wsr_new a)
  then show ?case by (simp add: ws_table_inv_def newWsServer_def)
next
  case (wsr_step ids w ids' w')
  with ws_server_step_inv [OF wsr_step.hyps(2)] show ?case by simp
qed

lemma distinct_ids:
  assumes "n < 2 ^ 64"
  shows "distinct (map of_nat [1..<Suc n] :: u64 list)" and "(0 :: u64) \<notin> set (map of_nat [1..<Suc n])"
proof -
  have inj: "(of_nat a :: u64) = of_nat b \<longleftrightarrow> a = b" if "a \<le> n" "b \<le> n" for a b
  proof -
    have "take_bit 64 a = a" "take_bit 64 b = b"
      using that assms by (simp_all only: take_bit_nat_eq_self_iff le_less_trans)
    then show ?thesis by (simp add: word_of_nat_eq_iff)
  qed
  then have "inj_on (of_nat :: nat \<Rightarrow> u64) {1..<Suc n}" by (intro inj_onI) simp
  then show "distinct (map of_nat [1..<Suc n] :: u64 list)" by (simp add: distinct_map del: upt_Suc)
  have "of_nat i \<noteq> (0 :: u64)" if "1 \<le> i" "i < Suc n" for i
    using inj [of i 0] that by simp
  then show "(0 :: u64) \<notin> set (map of_nat [1..<Suc n])" by (auto simp del: upt_Suc)
qed

section \<open>Properties\<close>

text \<open>
  C34: session ids are never reused. Along every run of the server (accepting, failing handshakes,
  losing sessions, sending, stopping and starting again) in which fewer than $2^{64} - 2$ sessions have been
  accepted, all the ids ever given are different from each other and from 0, the number the
  file transfers use for "no session"; only such ids are in the table; and the next session accepted is put
  into the table under an id that no session has had, which leaves every other session alone.
\<close>

theorem session_ids_fresh:
  assumes "ws_server_run (ids, w)" and "length ids < 2 ^ 64 - 2" and "ws_running w"
  shows "distinct (ids @ [m_nextId w]) \<and> 0 \<notin> set (ids @ [m_nextId w]) \<and>
    (\<forall>k. um_find (ws_sessions w) k \<noteq> None \<longrightarrow> k \<in> set ids) \<and>
    ws_server_step (ids, w) (ids @ [m_nextId w], ws_accept False w) \<and>
    (\<forall>k. um_find (ws_sessions (ws_accept False w)) k =
      (if k = m_nextId w then Some (new_ws_session k) else um_find (ws_sessions w) k))"
proof -
  have inv: "ws_table_inv ids w" using ws_server_run_inv [OF assms(1)] by simp
  from ws_accept_inv [OF inv assms(3)] have "ids @ [m_nextId w] = map of_nat [1..<Suc (Suc (length ids))]"
    by (simp add: ws_table_inv_def del: upt_Suc)
  with distinct_ids [of "Suc (length ids)"] assms(2)
  have "distinct (ids @ [m_nextId w])" "0 \<notin> set (ids @ [m_nextId w])" by (simp_all del: upt_Suc)
  then show ?thesis
    using inv wss_accept [OF assms(3)] assms(3) by (auto simp: ws_table_inv_def ws_accept_def)
qed

theorem session_ids_fresh_witness:
  "distinct [1, m_nextId (snd (ws_start True (ws_stop (ws_accept False (snd (ws_start True (newWsServer ())))))))]"
proof -
  let ?start = "snd (ws_start True (newWsServer ()))"
  let ?again = "snd (ws_start True (ws_stop (ws_accept False ?start)))"
  have "ws_server_run ([], ?start)" by (rule wsr_step [OF wsr_new wss_start])
  then have "ws_server_run ([] @ [m_nextId ?start], ws_accept False ?start)"
    by (rule wsr_step) (rule wss_accept, simp add: ws_start_def)
  from wsr_step [OF wsr_step [OF this wss_stop] wss_start, of True]
  have "ws_server_run ([1], ?again)" by (simp add: ws_start_def newWsServer_def)
  from session_ids_fresh [OF this] show ?thesis by (simp add: ws_start_def)
qed

text \<open>
  A disconnect is complete. When a read fails, the session is out of the table before the
  application hears of it, a later \<^verbatim>\<open>sendTo\<close> to it has no effect, and no other session is
  touched.
\<close>

lemma disconnect_removes:
  assumes "um_wf (ws_sessions w)" and "onDeviceDisconnected m = Some h"
    and "h sid (removeSession sid w) = Inr w'"
    and "ws_sessions w' = ws_sessions (removeSession sid w)"
  shows "ws_read J m sid None w = Inr w' \<and> ws_sendTo sid message w' = w' \<and>
    (\<forall>k. um_find (ws_sessions w') k = (if k = sid then None else um_find (ws_sessions w) k))"
  using assms
  by (simp add: ws_read_def onRead_def session_callbacks_def call1_def removeSession_def
      ws_sendTo_def on_session_def)

end
