(* ===== verification/ByteStream.thy ===== *)
theory ByteStream
  imports Prelude
begin

unbundle bit_operations_syntax

text \<open>
  The receiving side of a TCP connection and the framing both data channels use
  (\<^verbatim>\<open>FileTransferServer\<close> on port 45680, \<^verbatim>\<open>StreamReceiver\<close> on port 45679).
  What is going to arrive on a socket is a list of segments, the pieces in which the network
  delivers it. Behind the last one the connection ends, or, when it is \<open>silent\<close>, the peer neither
  sends nor closes; then \<^verbatim>\<open>read_some\<close>, which has no time limit, never returns, and that is the
  value \<open>None\<close>. Otherwise it returns at most the bytes asked for and keeps the rest of the segment;
  \<^verbatim>\<open>readExact\<close> is the loop of the code. The locale \<open>byte_source\<close> is the contract its callers rely
  on: how the bytes were cut into segments is not visible.
\<close>

section \<open>Sockets\<close>

type_synonym segments = "bytes list"

fun read_some :: "bool \<Rightarrow> nat \<Rightarrow> segments \<Rightarrow> (bytes option \<times> segments) option" where
  "read_some silent k [] = (if silent then None else Some (None, []))"
| "read_some silent k (s # ss) =
     (if length s \<le> k then Some (Some s, ss) else Some (Some (take k s), drop k s # ss))"

text \<open>The loop of \<^verbatim>\<open>readExact\<close>: \<open>buf\<close> is the part of the buffer already filled.\<close>

function readExact_loop :: "bool \<Rightarrow> nat \<Rightarrow> bytes \<Rightarrow> segments \<Rightarrow> (bytes option \<times> segments) option" where
  "readExact_loop silent sz buf ss =
     (if length buf < sz then
        (case read_some silent (sz - length buf) ss of
           None \<Rightarrow> None
         | Some (None, ss') \<Rightarrow> Some (None, ss')
         | Some (Some got, ss') \<Rightarrow>
             if got = [] then Some (None, ss') else readExact_loop silent sz (buf @ got) ss')
      else Some (Some buf, ss))"
  by pat_completeness auto
termination
proof (relation "measure (\<lambda>(silent, sz, buf, ss). sz - length buf)", goal_cases)
  case 1
  then show ?case by simp
next
  case (2 silent sz buf ss p o' ss' got)
  then have "0 < length got" by simp
  with "2"(1) show ?case
    unfolding in_measure split_conv length_append by linarith
qed

declare readExact_loop.simps [simp del]

definition readExact :: "bool \<Rightarrow> nat \<Rightarrow> segments \<Rightarrow> (bytes option \<times> segments) option" where
  "readExact silent sz ss = readExact_loop silent sz [] ss"

text \<open>
  The bytes a caller can still get: an empty segment stands for a read of zero bytes, which
  the loop takes as the end.
\<close>

definition avail :: "segments \<Rightarrow> bytes" where
  "avail ss = concat (takeWhile (\<lambda>s. s \<noteq> []) ss)"

lemma avail_simps [simp]:
  "avail [] = []"
  "avail (s # ss) = (if s = [] then [] else s @ avail ss)"
  by (simp_all add: avail_def)

text \<open>A read for more than is available waits on a silent connection, if no empty segment comes first.\<close>

definition stalls :: "bool \<Rightarrow> segments \<Rightarrow> bool" where
  "stalls silent ss \<longleftrightarrow> silent \<and> [] \<notin> set ss"

lemma not_silent [simp]: "\<not> stalls False ss"
  by (simp add: stalls_def)

text \<open>
  One call of \<^verbatim>\<open>read_some\<close> for at least one byte waits, ends the stream or takes a
  non-empty prefix of what is available.
\<close>

lemma read_some_cases:
  assumes "0 < k"
  obtains (wait) "read_some silent k ss = None" "stalls silent ss" "avail ss = []"
  | (stop) o' ss' where "read_some silent k ss = Some (o', ss')" "o' = None \<or> o' = Some []" "avail ss = []"
      "\<not> stalls silent ss"
  | (got) got ss' where "read_some silent k ss = Some (Some got, ss')" "got \<noteq> []" "length got \<le> k"
      "avail ss = got @ avail ss'" "stalls silent ss' = stalls silent ss"
proof (cases ss)
  case Nil
  then show ?thesis by (cases silent) (auto simp: stalls_def intro: wait stop)
next
  case (Cons s rest)
  show ?thesis
  proof (cases "s = []")
    case True
    with Cons show ?thesis by (intro stop [of "Some []" rest]) (simp_all add: stalls_def)
  next
    case False
    with Cons assms show ?thesis
      by (cases "length s \<le> k") (auto simp: stalls_def intro: got)
  qed
qed

lemma readExact_loop_spec:
  "length buf \<le> sz \<Longrightarrow>
   (if sz - length buf \<le> length (avail ss)
    then \<exists>ss'. readExact_loop silent sz buf ss = Some (Some (buf @ take (sz - length buf) (avail ss)), ss') \<and>
         avail ss' = drop (sz - length buf) (avail ss) \<and> stalls silent ss' = stalls silent ss
    else if stalls silent ss then readExact_loop silent sz buf ss = None
    else \<exists>ss'. readExact_loop silent sz buf ss = Some (None, ss'))"
proof (induction silent sz buf ss rule: readExact_loop.induct)
  case (1 silent sz buf ss)
  show ?case
  proof (cases "length buf < sz")
    case False
    with "1.prems" show ?thesis by (simp add: readExact_loop.simps)
  next
    case True
    then have pos: "0 < sz - length buf" by simp
    show ?thesis
    proof (cases rule: read_some_cases [OF pos, of silent ss, case_names wait stop got])
      case wait
      with True show ?thesis by (simp add: readExact_loop.simps [of silent sz buf ss])
    next
      case (stop o' ss')
      with True show ?thesis
        by (auto simp: readExact_loop.simps [of silent sz buf ss])
    next
      case (got b ss')
      have len: "length (buf @ b) \<le> sz"
        using got(3) True by simp
      have rec: "readExact_loop silent sz buf ss = readExact_loop silent sz (buf @ b) ss'"
        using True got(1,2) by (simp add: readExact_loop.simps [of silent sz buf ss])
      have eq: "sz - length buf = length b + (sz - length (buf @ b))"
        using len by simp
      note IH = "1.IH" [OF True got(1) refl refl got(2) len]
      show ?thesis
        using IH unfolding rec got(4,5) eq by (auto simp flip: got(5) split: if_splits)
    qed
  qed
qed

text \<open>The contract of a byte source, and what a frame reader gets from it.\<close>

locale byte_source =
  fixes read :: "nat \<Rightarrow> 's \<Rightarrow> (bytes option \<times> 's) option"
    and view :: "'s \<Rightarrow> bytes"
    and waits :: "'s \<Rightarrow> bool"
  assumes read_enough: "n \<le> length (view s) \<Longrightarrow>
      \<exists>s'. read n s = Some (Some (take n (view s)), s') \<and> view s' = drop n (view s) \<and> waits s' = waits s"
    and read_short: "length (view s) < n \<Longrightarrow> \<not> waits s \<Longrightarrow> \<exists>s'. read n s = Some (None, s')"
    and read_waits: "length (view s) < n \<Longrightarrow> waits s \<Longrightarrow> read n s = None"
begin

lemma read_cases:
  obtains (enough) s' where "n \<le> length (view s)" "read n s = Some (Some (take n (view s)), s')"
      "view s' = drop n (view s)" "waits s' = waits s"
  | (short) s' where "length (view s) < n" "\<not> waits s" "read n s = Some (None, s')"
  | (waiting) "length (view s) < n" "waits s" "read n s = None"
  using read_enough [of n s] read_short [of s n] read_waits [of s n] by (metis not_less)

lemma read_Some_length: "read n s = Some (Some b, s') \<Longrightarrow> length b = n"
  by (cases rule: read_cases [of n s]) auto

lemma read_prefix:
  assumes "view s = a @ b"
  shows "\<exists>s'. read (length a) s = Some (Some a, s') \<and> view s' = b"
  using read_enough [of "length a" s] assms by auto

lemma read_view:
  assumes "read n s = Some (Some b, s')"
  shows "view s = b @ view s'"
  using assms by (cases rule: read_cases [of n s]) auto

lemma read_kept: "read n s = Some (Some b, s') \<Longrightarrow> waits s' = waits s"
  by (cases rule: read_cases [of n s]) auto

end

interpretation sock: byte_source "readExact silent" avail "stalls silent"
proof unfold_locales
  fix n :: nat and s :: segments
  show "n \<le> length (avail s) \<Longrightarrow>
      \<exists>s'. readExact silent n s = Some (Some (take n (avail s)), s') \<and> avail s' = drop n (avail s) \<and>
        stalls silent s' = stalls silent s"
    using readExact_loop_spec [of "[]" n s silent] by (simp add: readExact_def)
  show "length (avail s) < n \<Longrightarrow> \<not> stalls silent s \<Longrightarrow> \<exists>s'. readExact silent n s = Some (None, s')"
    using readExact_loop_spec [of "[]" n s silent] by (simp add: readExact_def)
  show "length (avail s) < n \<Longrightarrow> stalls silent s \<Longrightarrow> readExact silent n s = None"
    using readExact_loop_spec [of "[]" n s silent] by (simp add: readExact_def)
qed

end
