(* ===== verification/Framing.thy ===== *)
theory Framing
  imports ByteStream
begin

unbundle bit_operations_syntax

text \<open>
  The frame format of both data channels: four bytes of length, big endian, then that many
  bytes of payload. \<open>be32\<close> is the receiver's shift-and-or expression, \<open>be32_bytes\<close> the
  sender's; they are inverse to each other. \<open>read_frame\<close> is the part of a receive loop
  that reads one frame, over any byte source.
\<close>

section \<open>Big-endian lengths\<close>

definition be32 :: "bytes \<Rightarrow> u32" where
  "be32 lenBuf =
     (push_bit 24 (ucast (lenBuf ! 0)) OR push_bit 16 (ucast (lenBuf ! 1)) OR
      push_bit 8 (ucast (lenBuf ! 2)) OR ucast (lenBuf ! 3))"

definition be32_bytes :: "u32 \<Rightarrow> bytes" where
  "be32_bytes chunkSize =
     [ucast (drop_bit 24 chunkSize AND 0xFF), ucast (drop_bit 16 chunkSize AND 0xFF),
      ucast (drop_bit 8 chunkSize AND 0xFF), ucast (chunkSize AND 0xFF)]"

lemma length_be32_bytes [simp]: "length (be32_bytes c) = 4"
  by (simp add: be32_bytes_def)

lemma and_0xFF_u32: "(x :: u32) AND 0xFF = take_bit 8 x"
proof -
  have "(0xFF :: u32) = mask 8" by (simp add: mask_eq_exp_minus_1)
  then show ?thesis by (simp only: take_bit_eq_mask)
qed

lemma bit_byte_of_u32: "bit (ucast (take_bit 8 (x :: u32)) :: u8) n \<longleftrightarrow> n < 8 \<and> bit x n"
  by (auto simp: bit_simps dest: bit_imp_le_length)

lemma be32_bit:
  "bit (be32 [b0, b1, b2, b3]) n \<longleftrightarrow>
     (if n < 8 then bit b3 n else if n < 16 then bit b2 (n - 8)
      else if n < 24 then bit b1 (n - 16) else n < 32 \<and> bit b0 (n - 24))"
  by (auto simp: be32_def bit_simps dest: bit_imp_le_length)

lemma be32_be32_bytes: "be32 (be32_bytes c) = c"
proof (rule bit_word_eqI)
  fix n :: nat
  assume "n < LENGTH(32)"
  then show "bit (be32 (be32_bytes c)) n = bit c n"
    unfolding be32_bytes_def and_0xFF_u32 be32_bit bit_byte_of_u32
    by (auto simp: bit_drop_bit_eq)
qed

lemma be32_bytes_be32:
  assumes "length b = 4"
  shows "be32_bytes (be32 b) = b"
proof -
  obtain b0 b1 b2 b3 where b: "b = [b0, b1, b2, b3]"
    using assms by (auto simp: numeral_eq_Suc length_Suc_conv)
  have "(ucast (take_bit 8 (drop_bit k (be32 b))) :: u8) = c"
    if "\<And>n. n < 8 \<Longrightarrow> bit (be32 b) (k + n) = bit c n" for k c
    by (rule bit_word_eqI) (simp add: bit_byte_of_u32 bit_drop_bit_eq that)
  from this [of 24 b0] this [of 16 b1] this [of 8 b2] this [of 0 b3]
  show ?thesis
    unfolding b be32_bytes_def and_0xFF_u32 be32_bit by simp
qed

section \<open>Frames\<close>

definition frame :: "bytes \<Rightarrow> bytes" where
  "frame payload = be32_bytes (of_nat (length payload)) @ payload"

datatype frame_result = Frame bytes | ShortRead | BadLength u32

definition read_frame ::
  "(nat \<Rightarrow> 's \<Rightarrow> (bytes option \<times> 's) option) \<Rightarrow> u32 \<Rightarrow> 's \<Rightarrow> (frame_result \<times> 's) option" where
  "read_frame read maxLen s =
     (case read 4 s of
        None \<Rightarrow> None
      | Some (None, s1) \<Rightarrow> Some (ShortRead, s1)
      | Some (Some lenBuf, s1) \<Rightarrow>
          let n = be32 lenBuf
          in if n = 0 \<or> n > maxLen then Some (BadLength n, s1)
             else (case read (unat n) s1 of
                     None \<Rightarrow> None
                   | Some (None, s2) \<Rightarrow> Some (ShortRead, s2)
                   | Some (Some payload, s2) \<Rightarrow> Some (Frame payload, s2)))"

text \<open>What the bytes of a stream mean, with no socket and no segments.\<close>

definition frame_at :: "u32 \<Rightarrow> bytes \<Rightarrow> frame_result" where
  "frame_at maxLen bs =
     (if length bs < 4 then ShortRead
      else let n = be32 (take 4 bs)
           in if n = 0 \<or> n > maxLen then BadLength n
              else if length bs < 4 + unat n then ShortRead
              else Frame (take (unat n) (drop 4 bs)))"

lemma frame_at_Frame_size:
  assumes "frame_at maxLen bs = Frame p"
  shows "length p > 0" "length p \<le> unat maxLen" "4 + length p \<le> length bs"
    "bs = frame p @ drop (4 + length p) bs"
proof -
  let ?n = "be32 (take 4 bs)"
  from assms have n: "?n \<noteq> 0" "?n \<le> maxLen" "4 + unat ?n \<le> length bs"
    and p: "p = take (unat ?n) (drop 4 bs)" and "4 \<le> length bs"
    by (auto simp: frame_at_def Let_def not_less split: if_splits)
  from n(3) p have len: "length p = unat ?n" by simp
  with n show "length p > 0" "length p \<le> unat maxLen" "4 + length p \<le> length bs"
    by (simp_all add: word_le_nat_alt unat_gt_0)
  have "be32_bytes (of_nat (length p)) = take 4 bs"
    using be32_bytes_be32 [of "take 4 bs"] \<open>4 \<le> length bs\<close> by (simp add: len)
  moreover have "drop 4 bs = p @ drop (4 + length p) bs"
    using append_take_drop_id [of "unat ?n" "drop 4 bs"] p len by (simp add: add.commute)
  ultimately show "bs = frame p @ drop (4 + length p) bs"
    using append_take_drop_id [of 4 bs] by (simp add: frame_def)
qed

lemma frame_at_frame:
  assumes "0 < length p" and "length p \<le> unat maxLen"
  shows "frame_at maxLen (frame p @ rest) = Frame p"
proof -
  have "unat maxLen < 2 ^ LENGTH(32)" by (rule unsigned_less)
  with assms(2) have lt: "length p < 2 ^ 32" by simp
  then have u: "unat (of_nat (length p) :: u32) = length p"
    by (simp add: unat_of_nat)
  then have "(of_nat (length p) :: u32) \<noteq> 0" "(of_nat (length p) :: u32) \<le> maxLen"
    using assms by (auto simp: word_le_nat_alt)
  then show ?thesis
    using u by (simp add: frame_at_def frame_def be32_be32_bytes Let_def not_less)
qed

context byte_source begin

text \<open>
  Reading a frame from a source is reading it from its bytes, and consumes just the frame; where
  the bytes stop short of a frame and the source waits, it does not return.
\<close>

lemma read_frame_frame_at:
  "(frame_at m (view s) = ShortRead \<and> waits s \<and> read_frame read m s = None) \<or>
   (\<exists>s'. read_frame read m s = Some (frame_at m (view s), s') \<and>
      (frame_at m (view s) = ShortRead \<longrightarrow> \<not> waits s))"
proof (cases rule: read_cases [of 4 s, case_names enough short waiting])
  case (enough s1)
  let ?n = "be32 (take 4 (view s))"
  show ?thesis
  proof (cases "?n = 0 \<or> ?n > m")
    case True
    with enough show ?thesis by (simp add: read_frame_def frame_at_def Let_def)
  next
    case ok: False
    show ?thesis
      by (cases rule: read_cases [of "unat ?n" s1, case_names enough short waiting])
        (use enough ok in \<open>auto simp: read_frame_def frame_at_def Let_def\<close>)
  qed
qed (auto simp: read_frame_def frame_at_def)

lemma read_frame_Some:
  assumes "read_frame read m s = Some (res, s')"
  shows "res = frame_at m (view s)"
  using assms read_frame_frame_at [of m s] by auto

lemma read_frame_view:
  assumes "read_frame read m s = Some (Frame p, s')"
  shows "view s = frame p @ view s'" and "waits s' = waits s"
proof -
  from assms obtain lenBuf s1 where
    r1: "read 4 s = Some (Some lenBuf, s1)" and r2: "read (unat (be32 lenBuf)) s1 = Some (Some p, s')"
    by (auto simp: read_frame_def Let_def split: prod.splits option.splits if_splits)
  have l4: "length lenBuf = 4" and lp: "length p = unat (be32 lenBuf)"
    using read_Some_length r1 r2 by auto
  then have "be32_bytes (of_nat (length p)) = lenBuf"
    using be32_bytes_be32 [OF l4] by simp
  then show "view s = frame p @ view s'"
    using read_view [OF r1] read_view [OF r2] by (simp add: frame_def)
  show "waits s' = waits s" using read_kept [OF r1] read_kept [OF r2] by simp
qed

lemma read_frame_step:
  assumes "view s = frame p @ rest" and "0 < length p" and "length p \<le> unat m"
  shows "\<exists>s'. read_frame read m s = Some (Frame p, s') \<and> view s' = rest"
proof -
  have "frame_at m (view s) = Frame p"
    using assms by (simp add: frame_at_frame)
  then obtain s' where "read_frame read m s = Some (Frame p, s')"
    using read_frame_frame_at [of m s] by auto
  with read_frame_view(1) [OF this] assms(1) show ?thesis by simp
qed

text \<open>A frame that never comes whole keeps its reader waiting.\<close>

lemma read_frame_waits: "frame_at m (view s) = ShortRead \<Longrightarrow> waits s \<Longrightarrow> read_frame read m s = None"
  using read_frame_frame_at [of m s] by auto

lemma read_frame_returns: "\<not> waits s \<Longrightarrow> \<exists>s'. read_frame read m s = Some (frame_at m (view s), s')"
  using read_frame_frame_at [of m s] by auto

end

section \<open>Streams of frames\<close>

lemma length_frame [simp]: "length (frame p) = 4 + length p"
  by (simp add: frame_def)

definition stream_of :: "bytes list \<Rightarrow> bytes" where
  "stream_of cs = concat (map frame cs)"

lemma stream_of_simps [simp]:
  "stream_of [] = []"
  "stream_of (p # cs) = frame p @ stream_of cs"
  "stream_of (cs @ ds) = stream_of cs @ stream_of ds"
  by (simp_all add: stream_of_def)

text \<open>What a receive loop cuts off a stream, up to the first thing that is not a frame.\<close>

function frames_of :: "u32 \<Rightarrow> bytes \<Rightarrow> bytes list" where
  "frames_of m bs = (case frame_at m bs of Frame p \<Rightarrow> p # frames_of m (drop (4 + length p) bs) | _ \<Rightarrow> [])"
  by pat_completeness auto
termination
proof (relation "measure (\<lambda>(m, bs). length bs)", goal_cases)
  case (2 m bs p)
  from frame_at_Frame_size(3) [OF 2] show ?case by simp
qed simp

declare frames_of.simps [simp del]

lemma frames_of_stream:
  assumes "list_all (\<lambda>p. 0 < length p \<and> length p \<le> unat m) ps"
  shows "frames_of m (stream_of ps @ rest) = ps @ frames_of m rest"
  using assms
proof (induction ps)
  case (Cons p ps)
  then have "frame_at m (frame p @ stream_of ps @ rest) = Frame p"
    by (simp add: frame_at_frame)
  then show ?case
    using Cons by (subst frames_of.simps) (simp add: frame_def)
qed simp

lemma frames_of_sizes: "list_all (\<lambda>p. 0 < length p \<and> length p \<le> unat m) (frames_of m bs)"
proof (induction m bs rule: frames_of.induct)
  case (1 m bs)
  show ?case
  proof (cases "frame_at m bs")
    case (Frame p)
    with 1 frame_at_Frame_size(1,2) [OF Frame] show ?thesis by (subst frames_of.simps) simp
  qed (simp_all add: frames_of.simps [of m bs])
qed

end
