(* ===== verification/FileTransferServer.thy ===== *)
theory FileTransferServer
  imports Protocol Framing
begin

text \<open>
  \<^verbatim>\<open>src/core/FileTransferServer.{h,cpp}\<close>: the table of authorised transfers and the
  thread that serves one TCP connection on port 45680. A session is a heap object that the
  table and the connection threads share (\<^verbatim>\<open>std::shared_ptr\<close>), so \<open>m_store\<close> is the heap,
  \<open>m_sessions\<close> maps a transfer id to an address, and a thread keeps the address it found: a
  later \<^verbatim>\<open>registerTransfer\<close> under the same id makes a new object and leaves the thread with
  the old one. \<open>conn_step\<close> is one step of \<^verbatim>\<open>handleConnection\<close> (the handshake, the test of a
  loop, what a turn of the loop does once its read or write is over, the code after a loop), so that
  the steps of several threads and of the table's owner can interleave; \<open>handleConnection\<close> runs them to the end.
  No read and no write has a time limit (\<^verbatim>\<open>kFileTransferTimeoutSec\<close> is used nowhere), so a
  thread whose peer keeps silent waits in it for ever: then the step is \<open>None\<close>.
\<close>

section \<open>State\<close>

record ActiveTransferSession =
  transferId :: string
  tokenBase64 :: string
  tokenBytes :: bytes
  targetFilePath :: string
  tempFilePath :: string
  expectedSize :: u64
  expectedSha256 :: string
  direction :: transfer_direction
  bytesTransferred :: u64
  cancelled :: bool

text \<open>What the server tells its owner: the two callbacks, with their arguments.\<close>

datatype server_event =
    OnProgress string u64 u64
  | OnFinished string bool string

record 'f FileTransferServer =
  m_running :: bool
  m_store :: "ActiveTransferSession list"
  m_sessions :: "(string, nat) umap"
  disk :: 'f
  events :: "server_event list"

definition session_at :: "'f FileTransferServer \<Rightarrow> nat \<Rightarrow> ActiveTransferSession" where
  "session_at sv r = m_store sv ! r"

definition update_session ::
  "nat \<Rightarrow> (ActiveTransferSession \<Rightarrow> ActiveTransferSession) \<Rightarrow> 'f FileTransferServer \<Rightarrow> 'f FileTransferServer" where
  "update_session r g sv = sv\<lparr>m_store := (m_store sv)[r := g (m_store sv ! r)]\<rparr>"

definition emit :: "server_event \<Rightarrow> 'f FileTransferServer \<Rightarrow> 'f FileTransferServer" where
  "emit ev sv = sv\<lparr>events := events sv @ [ev]\<rparr>"

section \<open>The table of transfers\<close>

text \<open>\<^verbatim>\<open>start\<close>: \<open>bound\<close> tells whether opening, binding and listening went through.\<close>

definition server_start :: "bool \<Rightarrow> 'f FileTransferServer \<Rightarrow> bool \<times> 'f FileTransferServer" where
  "server_start bound sv = (if bound then (True, sv\<lparr>m_running := True\<rparr>) else (False, sv))"

definition registerTransfer ::
  "string \<Rightarrow> string \<Rightarrow> bytes \<Rightarrow> string \<Rightarrow> u64 \<Rightarrow> string \<Rightarrow> transfer_direction \<Rightarrow>
   'f FileTransferServer \<Rightarrow> 'f FileTransferServer" where
  "registerTransfer tid tokB64 tokBytes targetPath expSize expSha dir sv =
     (let session = \<lparr>transferId = tid, tokenBase64 = tokB64, tokenBytes = tokBytes,
            targetFilePath = targetPath, tempFilePath = targetPath @ ''.part'',
            expectedSize = expSize, expectedSha256 = expSha, direction = dir,
            bytesTransferred = 0, cancelled = False\<rparr>
      in sv\<lparr>m_store := m_store sv @ [session],
            m_sessions := um_put tid (length (m_store sv)) (m_sessions sv)\<rparr>)"

text \<open>The body that \<^verbatim>\<open>cancelTransfer\<close> and the loop of \<^verbatim>\<open>stop\<close> share.\<close>

definition cancel_session :: "'f os_api \<Rightarrow> nat \<Rightarrow> 'f FileTransferServer \<Rightarrow> 'f FileTransferServer" where
  "cancel_session E r sv =
     (let sv1 = update_session r (\<lambda>s. s\<lparr>cancelled := True\<rparr>) sv;
          temp = tempFilePath (session_at sv1 r)
      in if temp \<noteq> [] then sv1\<lparr>disk := fs_remove E (disk sv1) temp\<rparr> else sv1)"

definition cancelTransfer :: "'f os_api \<Rightarrow> string \<Rightarrow> 'f FileTransferServer \<Rightarrow> 'f FileTransferServer" where
  "cancelTransfer E tid sv =
     (case um_find (m_sessions sv) tid of
        None \<Rightarrow> sv
      | Some r \<Rightarrow> let sv1 = cancel_session E r sv
                  in sv1\<lparr>m_sessions := um_erase tid (m_sessions sv1)\<rparr>)"

definition server_stop :: "'f os_api \<Rightarrow> 'f FileTransferServer \<Rightarrow> 'f FileTransferServer" where
  "server_stop E sv =
     (if \<not> m_running sv then sv
      else let sv1 = fold (cancel_session E) (map snd (m_sessions sv)) (sv\<lparr>m_running := False\<rparr>)
           in sv1\<lparr>m_sessions := []\<rparr>)"

section \<open>The handshake\<close>

text \<open>\<^verbatim>\<open>snprintf\<close> of the 16 bytes in the canonical 8-4-4-4-12 form.\<close>

definition uuid_string :: "bytes \<Rightarrow> string" where
  "uuid_string b =
     hexString (take 4 b) @ ''-'' @ hexString (take 2 (drop 4 b)) @ ''-'' @
     hexString (take 2 (drop 6 b)) @ ''-'' @ hexString (take 2 (drop 8 b)) @ ''-'' @
     hexString (take 6 (drop 10 b))"

definition noDash :: "string \<Rightarrow> string" where
  "noDash s = filter (\<lambda>c. c \<noteq> CHR ''-'') s"

definition find_session :: "'f FileTransferServer \<Rightarrow> string \<Rightarrow> nat option" where
  "find_session sv transferIdCandidate =
     (case um_find (m_sessions sv) transferIdCandidate of
        Some r \<Rightarrow> Some r
      | None \<Rightarrow> map_option snd
          (List.find (\<lambda>(k, r). noDash k = noDash transferIdCandidate) (m_sessions sv)))"

definition token_ok :: "ActiveTransferSession \<Rightarrow> bytes \<Rightarrow> bool" where
  "token_ok s tokenCandidate \<longleftrightarrow>
     (if length (tokenBytes s) = kTokenSize then take kTokenSize tokenCandidate = tokenBytes s else True)"

definition kHandshakeSize :: nat where
  "kHandshakeSize = kUuidBinarySize + kTokenSize + 1"

section \<open>The connection thread\<close>

text \<open>
  A connection: what will arrive, what has been sent, and how many more bytes the peer takes.
  Behind these the connection ends, and a read or a write fails; or the peer is \<open>silent\<close>: it stays
  connected but neither sends nor takes anything more, and a read or a write does not return.
\<close>

record connection =
  incoming :: segments
  silent :: bool
  sent :: bytes
  room :: nat

definition asio_write :: "bytes \<Rightarrow> connection \<Rightarrow> (bool \<times> connection) option" where
  "asio_write bs c =
     (if length bs \<le> room c then Some (True, c\<lparr>sent := sent c @ bs, room := room c - length bs\<rparr>)
      else if silent c then None
      else Some (False, c\<lparr>sent := sent c @ take (room c) bs, room := 0\<rparr>))"

text \<open>
  Where a thread is: before the handshake; at the test of the receive loop, with the session,
  the hash state and \<^verbatim>\<open>totalReceived\<close>, or in its reads; behind that loop, with \<^verbatim>\<open>error\<close>; at the
  test of the send loop, with the position of the open file (\<open>None\<close> once a read has come short,
  which leaves the stream failed), or in its writes, with the chunk as well; behind that loop; or done.
\<close>

datatype 'h phase =
    Handshaking
  | Receiving nat 'h u64
  | Reading nat 'h u64
  | Received nat bool 'h u64
  | Sending nat "nat option" u64
  | Writing nat bytes "nat option" u64
  | Sent nat bool u64
  | Closed

text \<open>The answers of the code, in the bytes of its UTF-8 literals.\<close>

definition msg_cancelled :: string where "msg_cancelled = ''Cancelado''"
definition msg_interrupted :: string where
  "msg_interrupted = ''Conex'' @ [CHR 0xC3, CHR 0xA3] @ ''o interrompida''"
definition msg_no_file :: string where "msg_no_file = ''Falha ao criar arquivo local''"
definition msg_bad_hash :: string where "msg_bad_hash = ''Hash SHA-256 incorreto''"
definition msg_no_rename :: string where "msg_no_rename = ''Falha ao salvar arquivo final''"
definition msg_unreadable :: string where
  "msg_unreadable = ''Arquivo local inacess'' @ [CHR 0xC3, CHR 0xAD] @ ''vel''"
definition msg_send_interrupted :: string where "msg_send_interrupted = ''Envio interrompido''"

definition step_handshake ::
  "'h sodium_api \<Rightarrow> 'f os_api \<Rightarrow> connection \<Rightarrow> 'f FileTransferServer \<Rightarrow>
   ('h phase \<times> connection \<times> 'f FileTransferServer) option" where
  "step_handshake S E c sv =
     (case readExact (silent c) kHandshakeSize (incoming c) of
        None \<Rightarrow> None
      | Some (None, rest) \<Rightarrow> Some (Closed, c\<lparr>incoming := rest\<rparr>, sv)
      | Some (Some buf, rest) \<Rightarrow> Some (
          let c1 = c\<lparr>incoming := rest\<rparr>;
              transferIdCandidate = uuid_string (take kUuidBinarySize buf);
              tokenCandidate = drop kUuidBinarySize buf;
              directionByte = buf ! (kUuidBinarySize + kTokenSize)
          in (case find_session sv transferIdCandidate of
                None \<Rightarrow> (Closed, c1, sv)
              | Some r \<Rightarrow>
                  let s = session_at sv r in
                  if \<not> token_ok s tokenCandidate then (Closed, c1, sv)
                  else if directionByte = direction_byte MobileUploadToPc then
                    (let disk1 = fs_mkpath E (disk sv) (absolutePath E (tempFilePath s)) in
                     case fs_create E disk1 (tempFilePath s) of
                       None \<Rightarrow> (Closed, c1,
                          emit (OnFinished (transferId s) False msg_no_file) (sv\<lparr>disk := disk1\<rparr>))
                     | Some disk2 \<Rightarrow> (Receiving r (sha256_init S) 0, c1, sv\<lparr>disk := disk2\<rparr>))
                  else if directionByte = direction_byte DesktopDownloadToMobile then
                    (case fs_open_read E (disk sv) (targetFilePath s) of
                       None \<Rightarrow> (Closed, c1, emit (OnFinished (transferId s) False msg_unreadable) sv)
                     | Some _ \<Rightarrow> (Sending r (Some 0) 0, c1, sv))
                  else (Closed, c1, sv))))"

definition kMaxChunk :: u32 where "kMaxChunk = 1024 * 1024"

text \<open>The test of the receive loop.\<close>

definition step_receive :: "nat \<Rightarrow> 'h \<Rightarrow> u64 \<Rightarrow> 'f FileTransferServer \<Rightarrow> 'h phase" where
  "step_receive r sha totalReceived sv =
     (let s = session_at sv r in
      if m_running sv \<and> \<not> cancelled s \<and> totalReceived < expectedSize s
      then Reading r sha totalReceived else Received r False sha totalReceived)"

text \<open>The body of the receive loop: it reads a frame, however long that takes, and stores it.\<close>

definition step_read ::
  "'h sodium_api \<Rightarrow> 'f os_api \<Rightarrow> nat \<Rightarrow> 'h \<Rightarrow> u64 \<Rightarrow> connection \<Rightarrow> 'f FileTransferServer \<Rightarrow>
   ('h phase \<times> connection \<times> 'f FileTransferServer) option" where
  "step_read S E r sha totalReceived c sv =
     (case read_frame (readExact (silent c)) kMaxChunk (incoming c) of
        None \<Rightarrow> None
      | Some (Frame chunk, rest) \<Rightarrow>
          let s = session_at sv r;
              tot = totalReceived + of_nat (length chunk);
              sv1 = sv\<lparr>disk := fs_append E (disk sv) (tempFilePath s) chunk\<rparr>;
              sv2 = update_session r (\<lambda>s. s\<lparr>bytesTransferred := tot\<rparr>) sv1;
              sv3 = emit (OnProgress (transferId s) tot (expectedSize s)) sv2
          in Some (Receiving r (sha256_update S sha chunk) tot, c\<lparr>incoming := rest\<rparr>, sv3)
      | Some (_, rest) \<Rightarrow> Some (Received r True sha totalReceived, c\<lparr>incoming := rest\<rparr>, sv))"

text \<open>
  The loop that looks for a free name. It may run for as long as names are taken, so not
  returning is the value \<open>None\<close>; \<open>resolve_name_returns\<close> below proves that it returns.
\<close>

definition candidate_name :: "'f os_api \<Rightarrow> string \<Rightarrow> nat \<Rightarrow> string" where
  "candidate_name E targetPath count =
     (let base = completeBaseName E targetPath; ext = suffix E targetPath in
      if ext \<noteq> []
      then dir_filePath E targetPath
             (qarg E (qarg E (qarg E ''%1 (%2).%3'' base) (dec count)) ext)
      else dir_filePath E targetPath (qarg E (qarg E ''%1 (%2)'' base) (dec count)))"

partial_function (option) resolve_name ::
  "'f os_api \<Rightarrow> 'f \<Rightarrow> string \<Rightarrow> string \<Rightarrow> nat \<Rightarrow> string option" where
  "resolve_name E f targetPath finalPath count =
     (if fs_exists E f finalPath
      then resolve_name E f targetPath (candidate_name E targetPath count) (Suc count)
      else Some finalPath)"

declare resolve_name.simps [code]

text \<open>The code behind the receive loop.\<close>

definition step_received ::
  "'h sodium_api \<Rightarrow> 'f os_api \<Rightarrow> nat \<Rightarrow> bool \<Rightarrow> 'h \<Rightarrow> u64 \<Rightarrow> 'f FileTransferServer \<Rightarrow>
   'f FileTransferServer option" where
  "step_received S E r err sha totalReceived sv =
     (let s = session_at sv r;
          fail = (\<lambda>why f. Some (emit (OnFinished (transferId s) False why) (sv\<lparr>disk := f\<rparr>)))
      in
      if err \<or> cancelled s \<or> totalReceived \<noteq> expectedSize s then
        fail (if cancelled s then msg_cancelled else msg_interrupted)
             (fs_remove E (disk sv) (tempFilePath s))
      else if expectedSha256 s \<noteq> [] \<and> hexString (sha256_final S sha) \<noteq> expectedSha256 s then
        fail msg_bad_hash (fs_remove E (disk sv) (tempFilePath s))
      else
        case resolve_name E (disk sv) (targetFilePath s) (targetFilePath s) 1 of
          None \<Rightarrow> None
        | Some finalPath \<Rightarrow>
            (case fs_rename E (disk sv) (tempFilePath s) finalPath of
               (True, f) \<Rightarrow> Some (emit (OnFinished (transferId s) True []) (sv\<lparr>disk := f\<rparr>))
             | (False, f) \<Rightarrow> fail msg_no_rename (fs_remove E f (tempFilePath s))))"

text \<open>
  \<^verbatim>\<open>in.read\<close> of at most \<open>n\<close> bytes at a position, with the bytes and the position behind
  them: a short read fails the stream, and a failed stream reads nothing.
\<close>

definition stream_read :: "'f os_api \<Rightarrow> 'f \<Rightarrow> string \<Rightarrow> nat option \<Rightarrow> nat \<Rightarrow> bytes \<times> nat option" where
  "stream_read E f path at n =
     (case at of
        None \<Rightarrow> ([], None)
      | Some pos \<Rightarrow> let got = take n (fs_read E f path pos)
          in (got, if length got < n then None else Some (pos + n)))"

text \<open>The test of the send loop and the read from the file, at its state at that moment.\<close>

definition step_send :: "'f os_api \<Rightarrow> nat \<Rightarrow> nat option \<Rightarrow> u64 \<Rightarrow> 'f FileTransferServer \<Rightarrow> 'h phase" where
  "step_send E r at totalSent sv =
     (let s = session_at sv r in
      if m_running sv \<and> \<not> cancelled s \<and> totalSent < expectedSize s then
        (let toRead = min kChunkPlaintextSize (unat (expectedSize s - totalSent));
             (chunk, at') = stream_read E (disk sv) (targetFilePath s) at toRead
         in if chunk = [] then Sent r False totalSent else Writing r chunk at' totalSent)
      else Sent r False totalSent)"

text \<open>The rest of the send loop's body: the two writes of a frame, however long they take.\<close>

definition step_write ::
  "nat \<Rightarrow> bytes \<Rightarrow> nat option \<Rightarrow> u64 \<Rightarrow> connection \<Rightarrow> 'f FileTransferServer \<Rightarrow>
   ('h phase \<times> connection \<times> 'f FileTransferServer) option" where
  "step_write r chunk at totalSent c sv =
     (case asio_write (be32_bytes (of_nat (length chunk))) c of
        None \<Rightarrow> None
      | Some (False, c1) \<Rightarrow> Some (Sent r True totalSent, c1, sv)
      | Some (True, c1) \<Rightarrow>
          (case asio_write chunk c1 of
             None \<Rightarrow> None
           | Some (False, c2) \<Rightarrow> Some (Sent r True totalSent, c2, sv)
           | Some (True, c2) \<Rightarrow>
               let s = session_at sv r;
                   tot = totalSent + of_nat (length chunk);
                   sv1 = update_session r (\<lambda>s. s\<lparr>bytesTransferred := tot\<rparr>) sv
               in Some (Sending r at tot, c2, emit (OnProgress (transferId s) tot (expectedSize s)) sv1)))"

definition step_sent :: "nat \<Rightarrow> bool \<Rightarrow> u64 \<Rightarrow> 'f FileTransferServer \<Rightarrow> 'f FileTransferServer" where
  "step_sent r err totalSent sv =
     (let s = session_at sv r in
      if err \<or> cancelled s \<or> totalSent \<noteq> expectedSize s
      then emit (OnFinished (transferId s) False msg_send_interrupted) sv
      else emit (OnFinished (transferId s) True []) sv)"

record 'h thread =
  th_phase :: "'h phase"
  th_conn :: connection

text \<open>One step of a thread; \<open>None\<close> when the thread never gets through it.\<close>

fun conn_step ::
  "'h sodium_api \<Rightarrow> 'f os_api \<Rightarrow> 'h phase \<Rightarrow> connection \<Rightarrow> 'f FileTransferServer \<Rightarrow>
   ('h phase \<times> connection \<times> 'f FileTransferServer) option" where
  "conn_step S E Handshaking c sv = step_handshake S E c sv"
| "conn_step S E (Receiving r sha tot) c sv = Some (step_receive r sha tot sv, c, sv)"
| "conn_step S E (Reading r sha tot) c sv = step_read S E r sha tot c sv"
| "conn_step S E (Received r err sha tot) c sv =
     map_option (\<lambda>sv'. (Closed, c, sv')) (step_received S E r err sha tot sv)"
| "conn_step S E (Sending r at tot) c sv = Some (step_send E r at tot sv, c, sv)"
| "conn_step S E (Writing r chunk at tot) c sv = step_write r chunk at tot c sv"
| "conn_step S E (Sent r err tot) c sv = Some (Closed, c, step_sent r err tot sv)"
| "conn_step S E Closed c sv = Some (Closed, c, sv)"

text \<open>\<^verbatim>\<open>handleConnection\<close>: the steps of one thread with nothing in between.\<close>

partial_function (option) run_thread ::
  "'h sodium_api \<Rightarrow> 'f os_api \<Rightarrow> 'h phase \<Rightarrow> connection \<Rightarrow> 'f FileTransferServer \<Rightarrow>
   (connection \<times> 'f FileTransferServer) option" where
  "run_thread S E ph c sv =
     (if ph = Closed then Some (c, sv)
      else Option.bind (conn_step S E ph c sv) (\<lambda>(ph', c', sv'). run_thread S E ph' c' sv'))"

declare run_thread.simps [code]

definition handleConnection ::
  "'h sodium_api \<Rightarrow> 'f os_api \<Rightarrow> connection \<Rightarrow> 'f FileTransferServer \<Rightarrow>
   (connection \<times> 'f FileTransferServer) option" where
  "handleConnection S E c sv = run_thread S E Handshaking c sv"

end
