(* ===== verification/TransferNames.thy ===== *)
theory TransferNames
  imports FileTransferServer
begin

text \<open>
  The loop at the end of an upload that looks for a free name (\<open>resolve_name\<close>): the names it
  tries are pairwise different, so it passes every existing file at most once and returns the
  first free name; and the two ways a handshake's transfer id is matched with the table.
\<close>

section \<open>The names tried\<close>

definition plain_target :: "'f os_api \<Rightarrow> string \<Rightarrow> bool" where
  "plain_target E p \<longleftrightarrow> plain_name (completeBaseName E p) \<and> plain_name (suffix E p)"

lemma plain_name_append: "plain_name (a @ b) \<longleftrightarrow> plain_name a \<and> plain_name b"
  by (auto simp: plain_name_def)

lemma plain_name_simps:
  "plain_name []"
  "plain_name (c # s) \<longleftrightarrow> c \<notin> {CHR ''%'', CHR ''/'', CHR 0x5C, CHR '':''} \<and> plain_name s"
  by (auto simp: plain_name_def)

lemma plain_name_dec: "plain_name (dec n)"
proof -
  have "\<not> is_digit c" if "c \<in> {CHR ''%'', CHR ''/'', CHR 0x5C, CHR '':''}" for c
    using that by (auto simp: is_digit_def)
  then show ?thesis
    using dec_digits [of n] unfolding plain_name_def list_all_iff by blast
qed

lemma candidate_name_eq:
  assumes "path_laws E" and "plain_target E p"
  shows "candidate_name E p n =
    dir_filePath E p (completeBaseName E p @ '' ('' @ dec n @
      (if suffix E p \<noteq> [] then '').'' @ suffix E p else '')''))"
  using assms plain_name_dec [of n]
  by (simp add: candidate_name_def path_laws_def plain_target_def)

lemma candidate_name_inj:
  assumes "path_laws E" and "plain_target E p" and "candidate_name E p m = candidate_name E p n"
  shows "m = n"
proof -
  let ?nm = "\<lambda>n. completeBaseName E p @ '' ('' @ dec n @
      (if suffix E p \<noteq> [] then '').'' @ suffix E p else '')'')"
  have plain: "plain_name (?nm n)" for n
    using assms(2) plain_name_dec [of n]
    by (simp add: plain_name_append plain_name_simps plain_target_def)
  have "dir_filePath E p (?nm m) = dir_filePath E p (?nm n)"
    using assms(3) unfolding candidate_name_eq [OF assms(1,2)] .
  then have "?nm m = ?nm n"
    using plain assms(1) unfolding path_laws_def by blast
  then show ?thesis by (auto dest: dec_inj)
qed

lemma free_candidate:
  assumes "path_laws E" and "plain_target E p" and "finite {q. fs_exists E f q}"
  shows "\<exists>n \<ge> c. \<not> fs_exists E f (candidate_name E p n)"
proof (rule ccontr)
  assume "\<not> ?thesis"
  then have "candidate_name E p ` {c..} \<subseteq> {q. fs_exists E f q}" by auto
  then have "finite (candidate_name E p ` {c..})"
    using assms(3) by (rule finite_subset)
  moreover have "inj_on (candidate_name E p) {c..}"
    using candidate_name_inj [OF assms(1,2)] by (auto intro: inj_onI)
  ultimately have "finite {c..}" by (rule finite_imageD)
  then show False using infinite_Ici by blast
qed

section \<open>The loop\<close>

lemma resolve_name_skips:
  assumes "\<forall>i < k. fs_exists E f (candidate_name E p (c + i))"
    and "\<not> fs_exists E f (candidate_name E p (c + k))"
  shows "resolve_name E f p (candidate_name E p c) (Suc c) = Some (candidate_name E p (c + k))"
  using assms
proof (induction k arbitrary: c)
  case 0
  then show ?case by (subst resolve_name.simps) simp
next
  case (Suc k)
  have "resolve_name E f p (candidate_name E p (Suc c)) (Suc (Suc c)) =
      Some (candidate_name E p (Suc c + k))"
  proof (rule Suc.IH)
    show "\<forall>i < k. fs_exists E f (candidate_name E p (Suc c + i))"
      using Suc.prems(1) by (metis Suc_less_eq add_Suc_shift)
    show "\<not> fs_exists E f (candidate_name E p (Suc c + k))"
      using Suc.prems(2) by simp
  qed
  moreover have "fs_exists E f (candidate_name E p c)"
    using Suc.prems(1) by (metis add.right_neutral zero_less_Suc)
  ultimately show ?case by (subst resolve_name.simps) simp
qed

lemma resolve_name_returns:
  assumes "path_laws E" and "plain_target E p" and "finite {q. fs_exists E f q}"
  shows "\<exists>q. resolve_name E f p p 1 = Some q \<and> \<not> fs_exists E f q \<and>
    (q = p \<or> fs_exists E f p \<and> (\<exists>k \<ge> 1. q = candidate_name E p k \<and>
       (\<forall>i. 1 \<le> i \<and> i < k \<longrightarrow> fs_exists E f (candidate_name E p i))))"
proof (cases "fs_exists E f p")
  case False
  then show ?thesis by (subst resolve_name.simps) simp
next
  case True
  define k where "k = (LEAST n. \<not> fs_exists E f (candidate_name E p (1 + n)))"
  obtain n where "1 \<le> n" and n: "\<not> fs_exists E f (candidate_name E p n)"
    using free_candidate [OF assms, of 1] by blast
  then obtain n' where "n = 1 + n'" by (metis le_Suc_ex)
  with n have n': "\<not> fs_exists E f (candidate_name E p (1 + n'))" by simp
  have free: "\<not> fs_exists E f (candidate_name E p (1 + k))"
    unfolding k_def using n' by (rule LeastI)
  have taken: "\<forall>i < k. fs_exists E f (candidate_name E p (1 + i))"
    unfolding k_def using not_less_Least by blast
  have "resolve_name E f p p 1 = resolve_name E f p (candidate_name E p 1) (Suc 1)"
    using True by (subst resolve_name.simps) simp
  also have "\<dots> = Some (candidate_name E p (1 + k))"
    by (rule resolve_name_skips [OF taken free])
  finally have eq: "resolve_name E f p p 1 = Some (candidate_name E p (1 + k))" .
  have "fs_exists E f (candidate_name E p i)" if "1 \<le> i" "i < 1 + k" for i
    using taken that by (metis add_less_cancel_left le_Suc_ex plus_1_eq_Suc)
  with eq free True show ?thesis
    by (intro exI [of _ "candidate_name E p (1 + k)"]) (auto intro!: exI [of _ "1 + k"])
qed

lemma resolve_name_free: "resolve_name E f p q n = Some r \<Longrightarrow> \<not> fs_exists E f r"
proof (rule resolve_name.raw_induct [where P = "\<lambda>E f p q n r. \<not> fs_exists E f r"], goal_cases)
  case (1 g E f p q n r)
  then show ?case by (cases "fs_exists E f q") auto
qed

section \<open>Matching a transfer id\<close>

lemma noDash_append: "noDash (a @ b) = noDash a @ noDash b"
  by (simp add: noDash_def)

lemma noDash_hexString: "noDash (hexString b) = hexString b"
  using hexString_no_dash [of b] unfolding noDash_def by (auto simp: filter_id_conv)

lemma noDash_uuid_string:
  assumes "length b = 16"
  shows "noDash (uuid_string b) = hexString b"
proof -
  have cut: "take 2 (drop m b) @ drop (m + 2) b = drop m b" for m
    by (metis append_take_drop_id drop_drop add.commute)
  have "take 6 (drop 10 b) = drop 10 b" using assms by simp
  moreover have "take 2 (drop 8 b) @ drop 10 b = drop 8 b" using cut [of 8] by simp
  moreover have "take 2 (drop 6 b) @ drop 8 b = drop 6 b" using cut [of 6] by simp
  moreover have "take 2 (drop 4 b) @ drop 6 b = drop 4 b" using cut [of 4] by simp
  ultimately have parts: "take 4 b @ take 2 (drop 4 b) @ take 2 (drop 6 b) @ take 2 (drop 8 b) @
      take 6 (drop 10 b) = b" by (simp only: append_take_drop_id)
  have "noDash (uuid_string b) = hexString (take 4 b @ take 2 (drop 4 b) @ take 2 (drop 6 b) @
      take 2 (drop 8 b) @ take 6 (drop 10 b))"
    unfolding uuid_string_def noDash_append noDash_hexString hexString_append
    by (simp add: noDash_def)
  then show ?thesis by (simp only: parts)
qed

lemma uuid_string_inj:
  assumes "length a = 16" and "length b = 16" and "uuid_string a = uuid_string b"
  shows "a = b"
  using assms noDash_uuid_string by (metis hexString_inj)

lemma find_session_exact:
  "um_find (m_sessions sv) tid = Some r \<Longrightarrow> find_session sv tid = Some r"
  by (simp add: find_session_def)

lemma find_session_Some:
  assumes "um_wf (m_sessions sv)" and "find_session sv tid = Some r"
  shows "\<exists>k. um_find (m_sessions sv) k = Some r \<and> noDash k = noDash tid"
proof (cases "um_find (m_sessions sv) tid")
  case (Some r')
  with assms(2) show ?thesis by (auto simp: find_session_def)
next
  case None
  with assms(2) obtain k where "List.find (\<lambda>(k, r). noDash k = noDash tid) (m_sessions sv) = Some (k, r)"
    by (auto simp: find_session_def)
  then obtain i where "i < length (m_sessions sv)" "m_sessions sv ! i = (k, r)" "noDash k = noDash tid"
    by (auto simp: find_Some_iff)
  then have "(k, r) \<in> set (m_sessions sv)" "noDash k = noDash tid"
    by (metis nth_mem)+
  with assms(1) show ?thesis by (blast intro: um_in_set_find)
qed

end
