(* ===== verification/TransferSteps.thy ===== *)
theory TransferSteps
  imports TransferNames
begin

text \<open>
  What one step of a connection thread may change, whatever arrives on its socket: of the
  server only the progress counter of a session, the event log and the disk; on the disk only
  the temporary file of its session and a path that did not exist. These facts hold for every
  interleaving, so they are stated for a step and lifted to runs.
\<close>

section \<open>The server's own invariant\<close>

definition server_inv :: "'f FileTransferServer \<Rightarrow> bool" where
  "server_inv sv \<longleftrightarrow> um_wf (m_sessions sv) \<and>
     (\<forall>k r. um_find (m_sessions sv) k = Some r \<longrightarrow> r < length (m_store sv) \<and>
        transferId (session_at sv r) = k \<and> \<not> cancelled (session_at sv r)) \<and>
     (\<forall>s \<in> set (m_store sv). tempFilePath s = targetFilePath s @ ''.part'')"

lemma session_at_update [simp]:
  "session_at (update_session r g sv) r' =
     (if r' = r \<and> r < length (m_store sv) then g (session_at sv r) else session_at sv r')"
  by (auto simp: session_at_def update_session_def nth_list_update list_update_beyond not_less)

lemma update_session_sels [simp]:
  "m_running (update_session r g sv) = m_running sv"
  "m_sessions (update_session r g sv) = m_sessions sv"
  "disk (update_session r g sv) = disk sv"
  "events (update_session r g sv) = events sv"
  "length (m_store (update_session r g sv)) = length (m_store sv)"
  by (simp_all add: update_session_def)

lemma emit_sels [simp]:
  "m_running (emit ev sv) = m_running sv"
  "m_sessions (emit ev sv) = m_sessions sv"
  "m_store (emit ev sv) = m_store sv"
  "disk (emit ev sv) = disk sv"
  "events (emit ev sv) = events sv @ [ev]"
  "session_at (emit ev sv) r = session_at sv r"
  by (simp_all add: emit_def session_at_def)

lemma session_at_disk [simp]: "session_at (sv\<lparr>disk := f\<rparr>) r = session_at sv r"
  by (simp add: session_at_def)

text \<open>A session without its progress counter: what no thread ever writes.\<close>

definition static :: "ActiveTransferSession \<Rightarrow> ActiveTransferSession" where
  "static s = s\<lparr>bytesTransferred := 0\<rparr>"

lemma static_progress [simp]: "static (s\<lparr>bytesTransferred := n\<rparr>) = static s"
  by (simp add: static_def)

lemma static_fields:
  assumes "static a = static b"
  shows "transferId a = transferId b" "tokenBytes a = tokenBytes b"
    "targetFilePath a = targetFilePath b" "tempFilePath a = tempFilePath b"
    "expectedSize a = expectedSize b" "expectedSha256 a = expectedSha256 b"
    "direction a = direction b" "cancelled a = cancelled b"
  using assms unfolding static_def by (cases a; cases b; simp)+

definition kept :: "'f FileTransferServer \<Rightarrow> 'f FileTransferServer \<Rightarrow> bool" where
  "kept sv sv' \<longleftrightarrow> m_running sv' = m_running sv \<and> m_sessions sv' = m_sessions sv \<and>
     length (m_store sv') = length (m_store sv) \<and>
     (\<forall>r. static (session_at sv' r) = static (session_at sv r))"

lemma kept_refl [simp, intro]: "kept sv sv"
  by (simp add: kept_def)

lemma kept_trans: "kept a b \<Longrightarrow> kept b c \<Longrightarrow> kept a c"
  by (simp add: kept_def)

lemma keptI_disk: "kept sv (sv\<lparr>disk := f\<rparr>)"
  by (simp add: kept_def)

lemma kept_emit: "kept sv sv' \<Longrightarrow> kept sv (emit ev sv')"
  by (simp add: kept_def)

lemmas kept_fields = static_fields [of "session_at sv' r" "session_at sv r" for sv' sv r]

lemma kept_running: "kept sv sv' \<Longrightarrow> m_running sv' = m_running sv"
  by (simp add: kept_def)

lemma kept_static: "kept sv sv' \<Longrightarrow> static (session_at sv' r) = static (session_at sv r)"
  by (simp add: kept_def)

lemma conn_step_kept:
  assumes "conn_step S E ph c sv = Some (ph', c', sv')"
  shows "kept sv sv'"
  using assms
  by (cases ph)
    (auto simp: step_handshake_def step_read_def step_received_def step_write_def step_sent_def
      Let_def kept_def session_at_disk
      split: prod.splits option.splits if_splits frame_result.splits bool.splits)

lemma conn_step_events:
  assumes "conn_step S E ph c sv = Some (ph', c', sv')"
  shows "\<exists>evs. events sv' = events sv @ evs"
  using assms
  by (cases ph)
    (auto simp: step_handshake_def step_read_def step_received_def step_write_def step_sent_def Let_def
      split: prod.splits option.splits if_splits frame_result.splits bool.splits)

lemma asio_write_silent: "asio_write bs c = Some (ok, c') \<Longrightarrow> silent c' = silent c"
  by (auto simp: asio_write_def split: if_splits)

lemma conn_step_silent:
  assumes "conn_step S E ph c sv = Some (ph', c', sv')"
  shows "silent c' = silent c"
  using assms
  by (cases ph)
    (auto simp: step_handshake_def step_read_def step_received_def step_write_def Let_def dest!: asio_write_silent
      split: prod.splits option.splits if_splits frame_result.splits bool.splits)

section \<open>Threads and their sessions\<close>

fun phase_ref :: "'h phase \<Rightarrow> nat option" where
  "phase_ref Handshaking = None"
| "phase_ref (Receiving r sha t) = Some r"
| "phase_ref (Reading r sha t) = Some r"
| "phase_ref (Received r err sha t) = Some r"
| "phase_ref (Sending r at t) = Some r"
| "phase_ref (Writing r chunk at t) = Some r"
| "phase_ref (Sent r err t) = Some r"
| "phase_ref Closed = None"

definition phase_ok :: "'f FileTransferServer \<Rightarrow> 'h phase \<Rightarrow> bool" where
  "phase_ok sv ph \<longleftrightarrow> (case phase_ref ph of None \<Rightarrow> True | Some r \<Rightarrow> r < length (m_store sv))"

lemma find_session_valid:
  assumes "server_inv sv" and "find_session sv tid = Some r"
  shows "r < length (m_store sv)" "noDash (transferId (session_at sv r)) = noDash tid"
  using find_session_Some [of sv tid r] assms unfolding server_inv_def by auto

lemma conn_step_phase_ok:
  assumes "conn_step S E ph c sv = Some (ph', c', sv')" and "server_inv sv" and "phase_ok sv ph"
  shows "phase_ok sv' ph'"
  using assms find_session_valid(1) [OF assms(2)]
  by (cases ph)
    (auto simp: step_handshake_def step_receive_def step_read_def step_received_def step_send_def step_write_def
      Let_def phase_ok_def
      split: prod.splits option.splits if_splits frame_result.splits bool.splits)

lemma kept_inv:
  assumes "kept sv sv'" and "server_inv sv"
  shows "server_inv sv'"
proof -
  have "tempFilePath s = targetFilePath s @ ''.part''" if "s \<in> set (m_store sv')" for s
  proof -
    from that obtain i where i: "i < length (m_store sv')" "s = session_at sv' i"
      by (auto simp: in_set_conv_nth session_at_def)
    with assms have "session_at sv i \<in> set (m_store sv)"
      by (simp add: session_at_def kept_def)
    with assms(2) i kept_fields [OF kept_static [OF assms(1), of i]] show ?thesis
      by (simp add: server_inv_def)
  qed
  with assms kept_fields [OF kept_static [OF assms(1)]] show ?thesis
    by (auto simp: server_inv_def kept_def)
qed

lemmas conn_step_inv = kept_inv [OF conn_step_kept]

section \<open>Running a thread\<close>

lemma run_thread_Closed [simp]: "run_thread S E Closed c sv = Some (c, sv)"
  by (subst run_thread.simps) simp

lemma run_thread_step:
  "ph \<noteq> Closed \<Longrightarrow> conn_step S E ph c sv = Some (ph', c', sv') \<Longrightarrow>
   run_thread S E ph c sv = run_thread S E ph' c' sv'"
  by (subst run_thread.simps) simp

text \<open>Whatever every step keeps, a run that returns keeps.\<close>

lemma run_thread_rule:
  assumes run: "run_thread S E ph c sv = Some (c', sv')"
    and init: "P ph c sv"
    and step: "\<And>ph c sv ph' c' sv'. P ph c sv \<Longrightarrow> conn_step S E ph c sv = Some (ph', c', sv') \<Longrightarrow> P ph' c' sv'"
  shows "P Closed c' sv'"
proof -
  have "\<forall>P. P ph c sv \<longrightarrow>
      (\<forall>ph c sv ph' c' sv'. P ph c sv \<longrightarrow> conn_step S E ph c sv = Some (ph', c', sv') \<longrightarrow> P ph' c' sv') \<longrightarrow>
      P Closed (fst (c', sv')) (snd (c', sv'))"
  proof (rule run_thread.raw_induct [where P = "\<lambda>S E ph c sv res. \<forall>P. P ph c sv \<longrightarrow>
      (\<forall>ph c sv ph' c' sv'. P ph c sv \<longrightarrow> conn_step S E ph c sv = Some (ph', c', sv') \<longrightarrow> P ph' c' sv') \<longrightarrow>
      P Closed (fst res) (snd res)", OF _ run], goal_cases)
    case (1 g S E ph c sv res)
    show ?case
    proof (cases "ph = Closed")
      case True
      with 1(2) show ?thesis by auto
    next
      case False
      with 1(2) obtain ph1 c1 sv1 where s: "conn_step S E ph c sv = Some (ph1, c1, sv1)"
        and r: "g S E ph1 c1 sv1 = Some res"
        by (auto simp: bind_eq_Some_conv)
      from 1(1) [OF r] s show ?thesis by blast
    qed
  qed
  with init step show ?thesis by auto
qed


section \<open>What happens to other files\<close>

text \<open>The single facts of \<open>fs_laws\<close>, as rules.\<close>

lemma fs_lawsD:
  assumes "fs_laws E V"
  shows "V f p \<noteq> None \<Longrightarrow> fs_exists E f p"
    and "finite {p. fs_exists E f p}"
    and "q \<noteq> p \<Longrightarrow> V (fs_remove E f p) q = V f q"
    and "q \<noteq> stream_path E p \<Longrightarrow> V (fs_append E f p bs) q = V f q"
    and "V (fs_mkpath E f d) = V f"
    and "fs_create E f p = Some f' \<Longrightarrow> V f' = (V f)(stream_path E p := Some [])"
    and "fs_rename E f old new = (True, f') \<Longrightarrow>
      \<not> fs_exists E f new \<and> old \<noteq> new \<and> V f old \<noteq> None \<and> V f' = (V f)(old := None, new := V f old)"
    and "fs_rename E f old new = (False, f') \<Longrightarrow> V f' = V f"
    and "fs_open_read E f p = Some b \<Longrightarrow> V f (stream_path E p) = Some b"
    and "V f (stream_path E p) = Some b \<Longrightarrow> fs_read E f p pos = drop pos b"
  using assms unfolding fs_laws_def by (simp | blast)+

text \<open>
  A session's temporary file under both readings of its name: Qt removes and renames the one, the
  stream writes the other. \<open>spares\<close>: every file that existed, except these, is still there with
  the same content.
\<close>

definition temp_names :: "'f os_api \<Rightarrow> ActiveTransferSession \<Rightarrow> string set" where
  "temp_names E s = {tempFilePath s, stream_path E (tempFilePath s)}"

definition temp_paths :: "'f os_api \<Rightarrow> 'f FileTransferServer \<Rightarrow> string set" where
  "temp_paths E sv = \<Union> (temp_names E ` set (m_store sv))"

lemma temp_names_own [simp, intro]:
  "tempFilePath s \<in> temp_names E s" "stream_path E (tempFilePath s) \<in> temp_names E s"
  by (simp_all add: temp_names_def)

lemma temp_names_stream_named: "stream_named E (tempFilePath s) \<Longrightarrow> temp_names E s = {tempFilePath s}"
  by (simp add: temp_names_def stream_named_def)

lemma temp_names_cong: "tempFilePath s = tempFilePath s' \<Longrightarrow> temp_names E s = temp_names E s'"
  by (simp add: temp_names_def)

lemma temp_paths_at: "r < length (m_store sv) \<Longrightarrow> temp_names E (session_at sv r) \<subseteq> temp_paths E sv"
  unfolding temp_paths_def session_at_def by (intro Union_upper imageI nth_mem)

lemma temp_path_at: "r < length (m_store sv) \<Longrightarrow> tempFilePath (session_at sv r) \<in> temp_paths E sv"
  by (rule subsetD [OF temp_paths_at]) auto

lemma temp_paths_map:
  "map tempFilePath (m_store sv') = map tempFilePath (m_store sv) \<Longrightarrow> temp_paths E sv' = temp_paths E sv"
proof -
  have "temp_paths E sv = (\<Union>p \<in> set (map tempFilePath (m_store sv)). {p, stream_path E p})" for sv
    by (auto simp: temp_paths_def temp_names_def)
  then show "map tempFilePath (m_store sv') = map tempFilePath (m_store sv) \<Longrightarrow> ?thesis" by metis
qed

lemma temp_paths_kept:
  assumes "kept sv sv'"
  shows "temp_paths E sv' = temp_paths E sv"
proof (rule temp_paths_map)
  show "map tempFilePath (m_store sv') = map tempFilePath (m_store sv)"
    using assms kept_fields(4) [OF kept_static [OF assms]]
    by (intro nth_equalityI) (simp_all add: kept_def session_at_def)
qed

definition spares :: "('f \<Rightarrow> string \<Rightarrow> bytes option) \<Rightarrow> string set \<Rightarrow> 'f \<Rightarrow> 'f \<Rightarrow> bool" where
  "spares V T f f' \<longleftrightarrow> (\<forall>q x. q \<notin> T \<longrightarrow> V f q = Some x \<longrightarrow> V f' q = Some x)"

lemma spares_refl [simp]: "spares V T f f"
  by (simp add: spares_def)

lemma spares_trans: "spares V T f g \<Longrightarrow> spares V T g h \<Longrightarrow> spares V T f h"
  by (simp add: spares_def)

lemma spares_remove: "fs_laws E V \<Longrightarrow> p \<in> T \<Longrightarrow> spares V T f (fs_remove E f p)"
  by (metis fs_lawsD(3) spares_def)

lemma spares_append: "fs_laws E V \<Longrightarrow> stream_path E p \<in> T \<Longrightarrow> spares V T f (fs_append E f p bs)"
  by (metis fs_lawsD(4) spares_def)

lemma spares_create:
  "fs_laws E V \<Longrightarrow> stream_path E p \<in> T \<Longrightarrow> fs_create E f p = Some f' \<Longrightarrow> spares V T f f'"
  by (auto dest: fs_lawsD(6) simp: spares_def)

lemma spares_rename:
  assumes "fs_laws E V" and "old \<in> T" and "fs_rename E f old new = (ok, f')"
  shows "spares V T f f'"
proof (cases ok)
  case True
  with assms fs_lawsD(7) [OF assms(1)] have "\<not> fs_exists E f new" "V f' = (V f)(old := None, new := V f old)"
    by auto
  with assms(1,2) show ?thesis
    by (auto simp: spares_def dest: fs_lawsD(1))
next
  case False
  with assms fs_lawsD(8) [OF assms(1)] have "V f' = V f" by auto
  then show ?thesis by (simp add: spares_def)
qed

lemma spares_mkpath: "fs_laws E V \<Longrightarrow> spares V T f (fs_mkpath E f d)"
  by (simp add: spares_def fs_lawsD(5))

lemmas spares_rules = spares_remove spares_append spares_create spares_rename spares_mkpath

text \<open>
  A step touches at most the temporary file (under its two names) of the session it works for, before or after the
  step.
\<close>

definition own_temps :: "'f os_api \<Rightarrow> 'f FileTransferServer \<Rightarrow> 'h phase \<Rightarrow> 'h phase \<Rightarrow> string set" where
  "own_temps E sv ph ph' =
     \<Union> {temp_names E (session_at sv r) | r. phase_ref ph = Some r \<or> phase_ref ph' = Some r}"

lemma conn_step_touches:
  assumes "conn_step S E ph c sv = Some (ph', c', sv')" and "fs_laws E V"
  shows "spares V (own_temps E sv ph ph') (disk sv) (disk sv')"
proof -
  define T where "T = own_temps E sv ph ph'"
  have own: "tempFilePath (session_at sv r) \<in> T \<and> stream_path E (tempFilePath (session_at sv r)) \<in> T" if "phase_ref ph = Some r \<or> phase_ref ph' = Some r" for r
    using that unfolding T_def own_temps_def by blast
  have "spares V T (disk sv) (disk sv')"
  proof (cases ph)
    case Handshaking
    have "spares V T (disk sv) f"
      if "phase_ref ph' = Some r"
        "fs_create E (fs_mkpath E (disk sv) d) (tempFilePath (session_at sv r)) = Some f" for r d f
      using spares_mkpath [OF assms(2)] spares_create [OF assms(2) own [THEN conjunct2] that(2)] that(1)
      by (blast intro: spares_trans)
    with assms(1) Handshaking show ?thesis
      by (auto simp: step_handshake_def Let_def spares_mkpath [OF assms(2)]
          split: prod.splits option.splits if_splits)
  next
    case (Received r err sha t)
    then have T: "tempFilePath (session_at sv r) \<in> T" using own by simp
    have "spares V T (disk sv) (fs_remove E f (tempFilePath (session_at sv r)))"
      if "fs_rename E (disk sv) (tempFilePath (session_at sv r)) p = (ok, f)" for f p ok
      using spares_rename [OF assms(2) T that] spares_remove [OF assms(2) T] by (rule spares_trans)
    with assms(1) Received show ?thesis
      by (auto simp: step_received_def Let_def spares_remove [OF assms(2) T] spares_rename [OF assms(2) T]
          split: prod.splits option.splits if_splits bool.splits)
  next
    case (Reading r sha t)
    then have T: "stream_path E (tempFilePath (session_at sv r)) \<in> T" using own by simp
    from assms(1) Reading show ?thesis
      by (auto simp: step_read_def Let_def spares_append [OF assms(2) T]
          split: option.splits prod.splits frame_result.splits)
  next
    case (Writing r chunk at t)
    with assms(1) show ?thesis
      by (auto simp: step_write_def Let_def split: option.splits prod.splits bool.splits)
  next
    case (Sent r err t)
    with assms(1) show ?thesis by (auto simp: step_sent_def Let_def)
  qed (use assms(1) in simp_all)
  then show ?thesis by (simp add: T_def)
qed

lemma spares_mono: "spares V T f f' \<Longrightarrow> T \<subseteq> T' \<Longrightarrow> spares V T' f f'"
  by (auto simp: spares_def)

lemma conn_step_spares:
  assumes "conn_step S E ph c sv = Some (ph', c', sv')" and "fs_laws E V"
    and "server_inv sv" and "phase_ok sv ph"
  shows "spares V (temp_paths E sv) (disk sv) (disk sv')"
proof (rule spares_mono [OF conn_step_touches [OF assms(1,2)]])
  have "phase_ok sv' ph'" by (rule conn_step_phase_ok [OF assms(1,3,4)])
  then have "phase_ok sv ph'"
    using conn_step_kept [OF assms(1)] by (simp add: phase_ok_def kept_def split: option.splits)
  with assms(4) show "own_temps E sv ph ph' \<subseteq> temp_paths E sv"
    unfolding own_temps_def by (auto simp: phase_ok_def dest!: temp_paths_at [THEN subsetD, rotated])
qed


section \<open>Termination\<close>

text \<open>
  What a thread still has to do: the bytes it can still read, or those of the session's size that it
  has not sent. Every frame takes at least its four length bytes from the first, every turn of the
  send loop at least one byte from the second.
\<close>

fun work :: "'f FileTransferServer \<Rightarrow> 'h phase \<Rightarrow> connection \<Rightarrow> nat" where
  "work sv Handshaking c = 0"
| "work sv (Receiving r sha t) c = 3 + length (avail (incoming c))"
| "work sv (Reading r sha t) c = 2 + length (avail (incoming c))"
| "work sv (Received r err sha t) c = 1"
| "work sv (Sending r at t) c = 2 + 2 * unat (expectedSize (session_at sv r) - t)"
| "work sv (Writing r chunk at t) c = 3 + 2 * unat (expectedSize (session_at sv r) - (t + of_nat (length chunk)))"
| "work sv (Sent r err t) c = 1"
| "work sv Closed c = 0"

lemma work_cong:
  assumes "\<And>r. phase_ref ph = Some r \<Longrightarrow> expectedSize (session_at sv' r) = expectedSize (session_at sv r)"
  shows "work sv' ph c = work sv ph c"
  using assms by (cases ph) simp_all

lemma remaining_step:
  fixes t e :: u64
  assumes "t < e" and "n \<le> unat (e - t)"
  shows "unat (e - (t + of_nat n)) = unat (e - t) - n" and "t + of_nat n \<le> e"
proof -
  have "of_nat n \<le> e - t"
    using assms(2) by (metis le_unat_uoi word_le_nat_alt)
  moreover have n: "unat (of_nat n :: u64) = n"
    using assms(2) by (metis le_unat_uoi)
  ultimately have "unat (e - t - of_nat n) = unat (e - t) - n"
    using n by (simp add: unat_sub)
  then show "unat (e - (t + of_nat n)) = unat (e - t) - n" by (simp add: algebra_simps)
  have "unat t + n \<le> unat e"
    using assms by (simp add: unat_sub word_less_nat_alt order_less_imp_le)
  then show "t + of_nat n \<le> e"
    using n by (simp add: word_le_nat_alt unat_word_ariths)
qed

lemma stream_read_length: "stream_read E f path at n = (chunk, at') \<Longrightarrow> length chunk \<le> n"
  by (auto simp: stream_read_def Let_def split: option.splits)

text \<open>The send loop reads on, or it is left.\<close>

lemma step_send_cases:
  assumes "step_send E r at t sv = ph"
  obtains (sent) "ph = Sent r False t"
  | (chunk) chunk at' where "ph = Writing r chunk at' t" "chunk \<noteq> []"
      "length chunk \<le> kChunkPlaintextSize" "length chunk \<le> unat (expectedSize (session_at sv r) - t)"
      "t < expectedSize (session_at sv r)"
proof -
  let ?s = "session_at sv r"
  obtain chunk at' where r: "stream_read E (disk sv) (targetFilePath ?s) at
      (min kChunkPlaintextSize (unat (expectedSize ?s - t))) = (chunk, at')" by fastforce
  from stream_read_length [OF r] assms [symmetric] show thesis
    by (cases "m_running sv \<and> \<not> cancelled ?s \<and> t < expectedSize ?s \<and> chunk \<noteq> []")
      (auto simp: step_send_def Let_def r intro: sent chunk)
qed

lemma conn_step_work:
  assumes step: "conn_step S E ph c sv = Some (ph', c', sv')" and "ph \<noteq> Handshaking" and "ph \<noteq> Closed"
  shows "work sv' ph' c' < work sv ph c \<and> ph' \<noteq> Handshaking"
proof -
  have same: "work sv' ph' c' = work sv ph' c'"
    by (rule work_cong) (rule kept_fields(5) [OF kept_static [OF conn_step_kept [OF step]]])
  show ?thesis unfolding same
  proof (cases ph)
    case (Reading r sha t)
    have "Suc (length (avail rest)) < length (avail (incoming c))"
      if "read_frame (readExact (silent c)) kMaxChunk (incoming c) = Some (Frame p, rest)" for p rest
      using sock.read_frame_view(1) [OF that] by (simp add: frame_def)
    with step Reading show "work sv ph' c' < work sv ph c \<and> ph' \<noteq> Handshaking"
      by (auto simp: step_read_def Let_def split: option.splits prod.splits frame_result.splits)
  next
    case (Sending r at t)
    with step have "step_send E r at t sv = ph'" by auto
    then show "work sv ph' c' < work sv ph c \<and> ph' \<noteq> Handshaking"
    proof (cases rule: step_send_cases [consumes 1, case_names sent chunk])
      case (chunk p at')
      let ?left = "unat (expectedSize (session_at sv r) - t)"
      have "0 < length p" using chunk(2) by simp
      then have "Suc (2 * (?left - length p)) < 2 * ?left" using chunk(4) by linarith
      with chunk(1) step Sending remaining_step(1) [OF chunk(5,4)] show ?thesis by auto
    qed (use step Sending in auto)
  next
    case (Writing r chunk at t)
    with step show "work sv ph' c' < work sv ph c \<and> ph' \<noteq> Handshaking"
      by (auto simp: step_write_def Let_def split: option.splits prod.splits bool.splits)
  qed (use assms in \<open>auto simp: step_receive_def Let_def split: if_splits\<close>)
qed

definition plain_targets :: "'f os_api \<Rightarrow> 'f FileTransferServer \<Rightarrow> bool" where
  "plain_targets E sv \<longleftrightarrow> (\<forall>r < length (m_store sv). plain_target E (targetFilePath (session_at sv r)))"

lemma plain_targets_kept: "kept sv sv' \<Longrightarrow> plain_targets E sv \<Longrightarrow> plain_targets E sv'"
  using kept_fields(3) [OF kept_static] by (metis kept_def plain_targets_def)

lemma step_received_returns:
  assumes "path_laws E" and "fs_laws E V" and "plain_target E (targetFilePath (session_at sv r))"
  shows "\<exists>sv'. step_received S E r err sha t sv = Some sv'"
proof -
  obtain p where "resolve_name E (disk sv) (targetFilePath (session_at sv r)) (targetFilePath (session_at sv r)) 1 = Some p"
    using resolve_name_returns [OF assms(1,3) fs_lawsD(2) [OF assms(2)], of "disk sv"] by blast
  then show ?thesis
    by (auto simp: step_received_def Let_def split: prod.splits bool.splits)
qed

section \<open>Silent peers\<close>

text \<open>
  Where a thread waits for ever: its peer is silent, and in the handshake or in a turn of the receive
  loop the rest of what it is to send is missing, or in a turn of the send loop it does not take the
  whole frame. These are the only places: everywhere else, and with every other peer, a thread gets
  through its step.
\<close>

fun waiting :: "'h phase \<Rightarrow> connection \<Rightarrow> bool" where
  "waiting Handshaking c \<longleftrightarrow> stalls (silent c) (incoming c) \<and> length (avail (incoming c)) < kHandshakeSize"
| "waiting (Reading r sha t) c \<longleftrightarrow> stalls (silent c) (incoming c) \<and> frame_at kMaxChunk (avail (incoming c)) = ShortRead"
| "waiting (Writing r chunk at t) c \<longleftrightarrow> silent c \<and> room c < length (frame chunk)"
| "waiting _ c \<longleftrightarrow> False"

lemma waiting_silent: "waiting ph c \<Longrightarrow> silent c"
  by (cases ph) (auto simp: stalls_def)

lemma step_handshake_waits:
  "step_handshake S E c sv = None \<longleftrightarrow> stalls (silent c) (incoming c) \<and> length (avail (incoming c)) < kHandshakeSize"
  by (cases rule: sock.read_cases [of kHandshakeSize "incoming c" "silent c", case_names enough short waiting])
    (auto simp: step_handshake_def)

lemma conn_step_waits: "waiting ph c \<Longrightarrow> conn_step S E ph c sv = None"
proof (cases ph)
  case Handshaking
  then show "waiting ph c \<Longrightarrow> ?thesis" by (simp add: step_handshake_waits)
next
  case (Reading r sha t)
  then show "waiting ph c \<Longrightarrow> ?thesis"
    using sock.read_frame_waits [of kMaxChunk "incoming c" "silent c"] by (simp add: step_read_def)
next
  case (Writing r chunk at t)
  then show "waiting ph c \<Longrightarrow> ?thesis" by (auto simp: step_write_def asio_write_def)
qed simp_all

lemma conn_step_returns:
  assumes "path_laws E" and "fs_laws E V" and "plain_targets E sv" and "phase_ok sv ph"
  shows "(\<exists>ph' c' sv'. conn_step S E ph c sv = Some (ph', c', sv')) \<longleftrightarrow> \<not> waiting ph c"
proof -
  have "conn_step S E ph c sv \<noteq> None" if no: "\<not> waiting ph c"
  proof (cases ph)
    case Handshaking
    with no show ?thesis by (simp add: step_handshake_waits)
  next
    case (Reading r sha t)
    with no obtain res where "read_frame (readExact (silent c)) kMaxChunk (incoming c) = Some res"
      using sock.read_frame_frame_at [of kMaxChunk "incoming c" "silent c"] by auto
    with Reading show ?thesis by (cases res) (auto simp: step_read_def Let_def split: frame_result.split)
  next
    case (Writing r chunk at t)
    with no show ?thesis by (auto simp: step_write_def asio_write_def Let_def)
  next
    case (Received r err sha t)
    with assms(3,4) have "plain_target E (targetFilePath (session_at sv r))"
      by (simp add: plain_targets_def phase_ok_def)
    with step_received_returns [OF assms(1,2)] Received show ?thesis by fastforce
  qed simp_all
  then show ?thesis using conn_step_waits [of ph c S E sv] by (cases "conn_step S E ph c sv") auto
qed

lemma run_thread_returns_active:
  assumes "path_laws E" and "fs_laws E V"
  shows "plain_targets E sv \<Longrightarrow> server_inv sv \<Longrightarrow> phase_ok sv ph \<Longrightarrow> \<not> silent c \<Longrightarrow> ph \<noteq> Handshaking \<Longrightarrow>
    \<exists>c' sv'. run_thread S E ph c sv = Some (c', sv')"
proof (induction "work sv ph c" arbitrary: ph c sv rule: less_induct)
  case less
  show ?case
  proof (cases "ph = Closed")
    case False
    obtain ph' c' sv' where s: "conn_step S E ph c sv = Some (ph', c', sv')"
      using conn_step_returns [OF assms less.prems(1,3), of S c] waiting_silent less.prems(4) by blast
    have "\<exists>c'' sv''. run_thread S E ph' c' sv' = Some (c'', sv'')"
    proof (rule less.hyps)
      show "work sv' ph' c' < work sv ph c" "ph' \<noteq> Handshaking"
        using conn_step_work [OF s less.prems(5) False] by simp_all
      show "plain_targets E sv'" by (rule plain_targets_kept [OF conn_step_kept [OF s] less.prems(1)])
      show "server_inv sv'" by (rule conn_step_inv [OF s less.prems(2)])
      show "phase_ok sv' ph'" by (rule conn_step_phase_ok [OF s less.prems(2,3)])
      show "\<not> silent c'" using conn_step_silent [OF s] less.prems(4) by simp
    qed
    then show ?thesis using run_thread_step [OF False s] by simp
  qed simp
qed

lemma step_handshake_phase: "step_handshake S E c sv = Some (ph', c', sv') \<Longrightarrow> ph' \<noteq> Handshaking"
  by (auto simp: step_handshake_def Let_def split: prod.splits option.splits if_splits)

lemma handleConnection_returns:
  assumes "path_laws E" and "fs_laws E V" and "plain_targets E sv" and "server_inv sv" and "\<not> silent c"
  shows "\<exists>c' sv'. handleConnection S E c sv = Some (c', sv')"
proof -
  obtain ph' c' sv' where s: "conn_step S E Handshaking c sv = Some (ph', c', sv')"
    using conn_step_returns [OF assms(1-3), of Handshaking S c] waiting_silent [of Handshaking c] assms(5)
    by (auto simp: phase_ok_def)
  moreover have "ph' \<noteq> Handshaking"
    using step_handshake_phase [of S E c sv] s by simp
  moreover have "phase_ok sv' ph'"
    by (rule conn_step_phase_ok [OF s assms(4)]) (simp add: phase_ok_def)
  moreover have "\<not> silent c'" using conn_step_silent [OF s] assms(5) by simp
  ultimately show ?thesis
    using run_thread_returns_active [OF assms(1,2) plain_targets_kept [OF conn_step_kept [OF s] assms(3)]
        conn_step_inv [OF s assms(4)]]
    unfolding handleConnection_def by (subst run_thread_step [OF _ s]) auto
qed

end
