(* ===== verification/TransferTable.thy ===== *)
theory TransferTable
  imports TransferSteps
begin

text \<open>
  The table of authorised transfers as its owner sees it: \<open>transfer_table\<close> is the contract of
  \<^verbatim>\<open>registerTransfer\<close>, \<^verbatim>\<open>cancelTransfer\<close> and the lookup of a connection thread, and the
  server is an instance of it. Sessions live on a heap, so a lookup goes through an address;
  the invariant of the server keeps every address of the table valid and the session behind it
  filed under its own id.
\<close>

section \<open>Sessions through the table\<close>

definition new_session ::
  "string \<Rightarrow> string \<Rightarrow> bytes \<Rightarrow> string \<Rightarrow> u64 \<Rightarrow> string \<Rightarrow> transfer_direction \<Rightarrow> ActiveTransferSession" where
  "new_session tid tokB64 tokBytes targetPath expSize expSha dir =
     \<lparr>transferId = tid, tokenBase64 = tokB64, tokenBytes = tokBytes,
      targetFilePath = targetPath, tempFilePath = targetPath @ ''.part'',
      expectedSize = expSize, expectedSha256 = expSha, direction = dir,
      bytesTransferred = 0, cancelled = False\<rparr>"

definition table_lookup :: "'f FileTransferServer \<Rightarrow> string \<Rightarrow> ActiveTransferSession option" where
  "table_lookup sv tid = map_option (session_at sv) (um_find (m_sessions sv) tid)"

locale transfer_table =
  fixes lookup :: "'t \<Rightarrow> string \<Rightarrow> ActiveTransferSession option"
    and register :: "string \<Rightarrow> string \<Rightarrow> bytes \<Rightarrow> string \<Rightarrow> u64 \<Rightarrow> string \<Rightarrow> transfer_direction \<Rightarrow> 't \<Rightarrow> 't"
    and cancel :: "string \<Rightarrow> 't \<Rightarrow> 't"
    and inv :: "'t \<Rightarrow> bool"
  assumes lookup_register: "inv t \<Longrightarrow> lookup (register k b64 tok p n h d t) k' =
      (if k' = k then Some (new_session k b64 tok p n h d) else lookup t k')"
    and lookup_cancel: "inv t \<Longrightarrow> lookup (cancel k t) k' = (if k' = k then None else lookup t k')"
    and inv_register: "inv t \<Longrightarrow> inv (register k b64 tok p n h d t)"
    and inv_cancel: "inv t \<Longrightarrow> inv (cancel k t)"
    and lookup_id: "inv t \<Longrightarrow> lookup t k = Some s \<Longrightarrow> transferId s = k \<and> \<not> cancelled s"
begin

lemma register_keeps_all:
  assumes "inv t" and "\<And>k s. lookup t k = Some s \<Longrightarrow> P k s" and "P k0 (new_session k0 b64 tok p n h d)"
  shows "lookup (register k0 b64 tok p n h d t) k = Some s \<Longrightarrow> P k s"
  using assms by (auto simp: lookup_register split: if_splits)

lemma cancel_keeps_all:
  assumes "inv t" and "\<And>k s. lookup t k = Some s \<Longrightarrow> P k s"
  shows "lookup (cancel k0 t) k = Some s \<Longrightarrow> P k s"
  using assms by (auto simp: lookup_cancel split: if_splits)

text \<open>Registering an id again replaces its session; cancelling twice is cancelling once.\<close>

lemma register_replaces:
  assumes "inv t"
  shows "lookup (register k b tok p n h d (register k b' tok' p' n' h' d' t)) = lookup (register k b tok p n h d t)"
  using assms by (auto simp: lookup_register inv_register fun_eq_iff)

lemma cancel_undoes_register:
  assumes "inv t" and "lookup t k = None"
  shows "lookup (cancel k (register k b tok p n h d t)) = lookup t"
  using assms by (auto simp: lookup_register lookup_cancel inv_register fun_eq_iff)

lemma cancel_commutes:
  assumes "inv t" and "k \<noteq> k'"
  shows "lookup (cancel k (cancel k' t)) = lookup (cancel k' (cancel k t))"
  using assms by (auto simp: lookup_cancel inv_cancel fun_eq_iff)

end

section \<open>The server is a transfer table\<close>

lemma registerTransfer_sels [simp]:
  "m_running (registerTransfer k b tok p n h d sv) = m_running sv"
  "m_store (registerTransfer k b tok p n h d sv) = m_store sv @ [new_session k b tok p n h d]"
  "m_sessions (registerTransfer k b tok p n h d sv) = um_put k (length (m_store sv)) (m_sessions sv)"
  "disk (registerTransfer k b tok p n h d sv) = disk sv"
  "events (registerTransfer k b tok p n h d sv) = events sv"
  by (simp_all add: registerTransfer_def new_session_def)

lemma registerTransfer_session_at:
  "session_at (registerTransfer k b tok p n h d sv) r =
     (if r = length (m_store sv) then new_session k b tok p n h d
      else if r < length (m_store sv) then session_at sv r
      else session_at (registerTransfer k b tok p n h d sv) r)"
  by (simp add: session_at_def nth_append)

lemma server_inv_lookup:
  assumes "server_inv sv" and "um_find (m_sessions sv) k = Some r"
  shows "r < length (m_store sv)" "transferId (session_at sv r) = k" "\<not> cancelled (session_at sv r)"
  using assms by (auto simp: server_inv_def)

lemma server_inv_register:
  assumes "server_inv sv"
  shows "server_inv (registerTransfer k b tok p n h d sv)"
  unfolding server_inv_def
proof (intro conjI allI impI ballI)
  show "um_wf (m_sessions (registerTransfer k b tok p n h d sv))"
    using assms by (simp add: server_inv_def)
next
  fix k' r
  assume f: "um_find (m_sessions (registerTransfer k b tok p n h d sv)) k' = Some r"
  then have "k' = k \<and> r = length (m_store sv) \<or> k' \<noteq> k \<and> um_find (m_sessions sv) k' = Some r"
    by (simp split: if_splits)
  then show "r < length (m_store (registerTransfer k b tok p n h d sv))"
    and "transferId (session_at (registerTransfer k b tok p n h d sv) r) = k'"
    and "\<not> cancelled (session_at (registerTransfer k b tok p n h d sv) r)"
    using server_inv_lookup [OF assms, of k' r]
    by (auto simp: session_at_def nth_append new_session_def)
next
  fix s
  assume "s \<in> set (m_store (registerTransfer k b tok p n h d sv))"
  with assms show "tempFilePath s = targetFilePath s @ ''.part''"
    by (auto simp: server_inv_def new_session_def)
qed

lemma cancel_session_sels [simp]:
  "m_running (cancel_session E r sv) = m_running sv"
  "m_sessions (cancel_session E r sv) = m_sessions sv"
  "length (m_store (cancel_session E r sv)) = length (m_store sv)"
  "events (cancel_session E r sv) = events sv"
  "session_at (cancel_session E r sv) r' =
     (if r' = r \<and> r < length (m_store sv) then (session_at sv r)\<lparr>cancelled := True\<rparr> else session_at sv r')"
  by (simp_all add: cancel_session_def Let_def)

lemma map_update_same:
  assumes "f x = f (xs ! i)"
  shows "map f (xs[i := x]) = map f xs"
  using assms
  by (cases "i < length xs") (auto intro!: nth_equalityI simp: nth_list_update list_update_beyond not_less)

lemma cancel_session_paths:
  "map tempFilePath (m_store (cancel_session E r sv)) = map tempFilePath (m_store sv)"
  "map targetFilePath (m_store (cancel_session E r sv)) = map targetFilePath (m_store sv)"
  "map tokenBytes (m_store (cancel_session E r sv)) = map tokenBytes (m_store sv)"
  by (simp_all add: cancel_session_def Let_def update_session_def map_update_same)

text \<open>The rest of the invariant, on a store whose paths are the same.\<close>

lemma temp_names_map:
  "(\<forall>s \<in> set xs. tempFilePath s = targetFilePath s @ ''.part'') \<longleftrightarrow>
   map tempFilePath xs = map (\<lambda>p. p @ ''.part'') (map targetFilePath xs)"
  by (induction xs) auto

lemma server_inv_cancel:
  assumes "server_inv sv"
  shows "server_inv (cancelTransfer E k sv)"
proof (cases "um_find (m_sessions sv) k")
  case None
  with assms show ?thesis by (simp add: cancelTransfer_def)
next
  case (Some r)
  note r = server_inv_lookup [OF assms Some]
  have "um_find (m_sessions sv) k' = Some r \<Longrightarrow> k' = k" for k'
    using server_inv_lookup(2) [OF assms] r(2) by blast
  then show ?thesis
    using assms server_inv_lookup [OF assms] cancel_session_paths [of E r sv]
    unfolding server_inv_def cancelTransfer_def Some temp_names_map
    by (auto simp: Let_def session_at_def [of "_\<lparr>m_sessions := _\<rparr>"] simp flip: session_at_def split: if_splits)
qed

interpretation tt: transfer_table table_lookup registerTransfer "cancelTransfer E" server_inv
proof unfold_locales
  fix sv :: "'a FileTransferServer" and k k' b64 tok p n h d s
  assume inv: "server_inv sv"
  show "table_lookup (registerTransfer k b64 tok p n h d sv) k' =
      (if k' = k then Some (new_session k b64 tok p n h d) else table_lookup sv k')"
    using server_inv_lookup(1) [OF inv, of k']
    by (cases "um_find (m_sessions sv) k'")
      (auto simp: table_lookup_def session_at_def nth_append)
  show "table_lookup (cancelTransfer E k sv) k' = (if k' = k then None else table_lookup sv k')"
  proof (cases "um_find (m_sessions sv) k")
    case None
    then show ?thesis by (simp add: cancelTransfer_def table_lookup_def)
  next
    case (Some r)
    have "um_find (m_sessions sv) k' = Some r \<Longrightarrow> k' = k"
      using server_inv_lookup(2) [OF inv] Some by metis
    moreover have "um_wf (m_sessions sv)" using inv by (simp add: server_inv_def)
    ultimately show ?thesis
      using Some
      by (cases "um_find (m_sessions sv) k'")
        (auto simp: cancelTransfer_def table_lookup_def Let_def session_at_def [of "_\<lparr>m_sessions := _\<rparr>"]
          simp flip: session_at_def)
  qed
  show "server_inv (registerTransfer k b64 tok p n h d sv)" by (rule server_inv_register [OF inv])
  show "server_inv (cancelTransfer E k sv)" by (rule server_inv_cancel [OF inv])
  show "table_lookup sv k = Some s \<Longrightarrow> transferId s = k \<and> \<not> cancelled s"
    using server_inv_lookup [OF inv] by (auto simp: table_lookup_def)
qed

section \<open>Stopping the server\<close>

lemma fold_cancel_sels [simp]:
  "m_running (fold (cancel_session E) rs sv) = m_running sv"
  "m_sessions (fold (cancel_session E) rs sv) = m_sessions sv"
  "length (m_store (fold (cancel_session E) rs sv)) = length (m_store sv)"
  "events (fold (cancel_session E) rs sv) = events sv"
  by (induction rs arbitrary: sv) simp_all

lemma fold_cancel_paths:
  "map tempFilePath (m_store (fold (cancel_session E) rs sv)) = map tempFilePath (m_store sv)"
  "map targetFilePath (m_store (fold (cancel_session E) rs sv)) = map targetFilePath (m_store sv)"
  by (induction rs arbitrary: sv) (simp_all add: cancel_session_paths)

lemma fold_cancel_session_at:
  "r < length (m_store sv) \<Longrightarrow> cancelled (session_at (fold (cancel_session E) rs sv) r) \<longleftrightarrow>
     r \<in> set rs \<or> cancelled (session_at sv r)"
  by (induction rs arbitrary: sv) auto

text \<open>Removing a session's temporary file leaves every other file.\<close>

lemma cancel_session_spares:
  assumes "fs_laws E V" and "tempFilePath (session_at sv r) \<in> T"
  shows "spares V T (disk sv) (disk (cancel_session E r sv))"
  using spares_remove [OF assms] by (auto simp: cancel_session_def Let_def)

lemma fold_cancel_spares:
  assumes "fs_laws E V"
  shows "(\<forall>r \<in> set rs. r < length (m_store sv)) \<Longrightarrow>
    spares V (temp_paths E sv) (disk sv) (disk (fold (cancel_session E) rs sv))"
proof (induction rs arbitrary: sv)
  case (Cons r rs)
  have "temp_paths E (cancel_session E r sv) = temp_paths E sv"
    by (rule temp_paths_map) (rule cancel_session_paths(1))
  then have "spares V (temp_paths E sv) (disk (cancel_session E r sv))
      (disk (fold (cancel_session E) rs (cancel_session E r sv)))"
    using Cons.IH [of "cancel_session E r sv"] Cons.prems by simp
  moreover have "spares V (temp_paths E sv) (disk sv) (disk (cancel_session E r sv))"
    using Cons.prems by (intro cancel_session_spares [OF assms] temp_path_at) simp
  ultimately show ?case by (auto intro: spares_trans)
qed simp

lemma server_stop_sels:
  "m_running (server_stop E sv) = False"
  "m_running sv \<Longrightarrow> m_sessions (server_stop E sv) = []"
  "events (server_stop E sv) = events sv"
  by (simp_all add: server_stop_def Let_def)

lemma server_inv_stop:
  assumes "server_inv sv"
  shows "server_inv (server_stop E sv)"
proof (cases "m_running sv")
  case True
  let ?sv = "fold (cancel_session E) (map snd (m_sessions sv)) (sv\<lparr>m_running := False\<rparr>)"
  have "map tempFilePath (m_store sv) = map (\<lambda>p. p @ ''.part'') (map targetFilePath (m_store sv))"
    using assms unfolding server_inv_def temp_names_map by simp
  then have "\<forall>s \<in> set (m_store ?sv). tempFilePath s = targetFilePath s @ ''.part''"
    unfolding temp_names_map fold_cancel_paths by simp
  with True show ?thesis by (simp add: server_inv_def server_stop_def Let_def)
next
  case False
  with assms show ?thesis by (simp add: server_stop_def)
qed

lemma server_inv_start: "server_inv sv \<Longrightarrow> server_inv (snd (server_start bound sv))"
  by (auto simp: server_start_def server_inv_def session_at_def)

text \<open>
  \<^verbatim>\<open>registerTransfer\<close> gives a download the name of the user's own file with \<^verbatim>\<open>.part\<close> as its temporary
  file, which no thread of a download ever writes; calling the download off removes the file of that
  name all the same.
\<close>

lemma cancelled_download_takes_neighbour:
  assumes "fs_laws E V" and "fs_reliable E V"
  shows "V (disk (cancelTransfer E k (registerTransfer k b64 tok path n h DesktopDownloadToMobile sv))) =
    (V (disk sv))(path @ ''.part'' := None)"
proof -
  have "V (fs_remove E f p) = (V f)(p := None)" for f p
    using fs_lawsD(3) [OF assms(1), of _ p f] assms(2) by (auto simp: fs_reliable_def fun_eq_iff)
  then show ?thesis
    by (simp add: cancelTransfer_def cancel_session_def Let_def registerTransfer_session_at new_session_def)
qed

end
