(* ===== verification/TransferUpload.thy ===== *)
theory TransferUpload
  imports TransferSteps
begin

text \<open>
  Uploads: a phone sends a file to the PC. The first half follows a connection that sends
  anything at all after the handshake and says how it can end (\<open>upload_ends\<close>); the second half
  shows that a client that sends the frames of the announced file gets it stored
  (\<open>receive_chunks\<close>, \<open>upload_stored\<close>).
\<close>

section \<open>The chunks of an upload\<close>

definition chunks_ok :: "bytes list \<Rightarrow> bool" where
  "chunks_ok cs \<longleftrightarrow> list_all (\<lambda>p. 0 < length p \<and> length p \<le> unat kMaxChunk) cs"

lemma chunks_ok_simps [simp]:
  "chunks_ok []"
  "chunks_ok (p # cs) \<longleftrightarrow> 0 < length p \<and> length p \<le> unat kMaxChunk \<and> chunks_ok cs"
  by (simp_all add: chunks_ok_def)

fun is_progress :: "server_event \<Rightarrow> bool" where
  "is_progress (OnProgress tid n tot) = True"
| "is_progress (OnFinished tid ok why) = False"

fun progress_log :: "string \<Rightarrow> u64 \<Rightarrow> u64 \<Rightarrow> bytes list \<Rightarrow> server_event list" where
  "progress_log tid tot t [] = []"
| "progress_log tid tot t (p # ps) =
     OnProgress tid (t + of_nat (length p)) tot # progress_log tid tot (t + of_nat (length p)) ps"

section \<open>The handshake of an upload\<close>

text \<open>\<open>handshake uid tok dir\<close>: the 49 bytes a client sends first.\<close>

definition handshake :: "bytes \<Rightarrow> bytes \<Rightarrow> u8 \<Rightarrow> bytes" where
  "handshake uid tok dir = uid @ tok @ [dir]"

lemma read_handshake:
  assumes "length uid = 16" and "length tok = 32" and "avail ss = handshake uid tok dir @ data"
  shows "\<exists>rest. readExact b kHandshakeSize ss = Some (Some (handshake uid tok dir), rest) \<and> avail rest = data"
proof -
  have "length (handshake uid tok dir) = kHandshakeSize"
    using assms(1,2) by (simp add: handshake_def kHandshakeSize_def protocol_consts)
  then show ?thesis
    using sock.read_prefix [OF assms(3)] by simp
qed

lemma handshake_parts:
  assumes "length uid = 16" and "length tok = 32"
  shows "take kUuidBinarySize (handshake uid tok dir) = uid"
    and "drop kUuidBinarySize (handshake uid tok dir) = tok @ [dir]"
    and "handshake uid tok dir ! (kUuidBinarySize + kTokenSize) = dir"
  using assms by (simp_all add: handshake_def protocol_consts nth_append)

lemma handshake_split:
  assumes "49 \<le> length a"
  shows "a = handshake (take 16 a) (take 32 (drop 16 a)) (a ! 48) @ drop 49 a"
proof -
  have "a = take 16 a @ drop 16 a" by simp
  also have "drop 16 a = take 32 (drop 16 a) @ drop 48 a"
    using append_take_drop_id [of 32 "drop 16 a"] by (simp add: drop_drop)
  also have "drop 48 a = [a ! 48] @ drop 49 a"
    using Cons_nth_drop_Suc [of 48 a] assms by simp
  finally show ?thesis unfolding handshake_def append_assoc .
qed

lemma token_ok_snoc: "length tok = 32 \<Longrightarrow> token_ok s (tok @ [dir]) = token_ok s tok"
  by (simp add: token_ok_def protocol_consts)

text \<open>Every handshake that is accepted or refused, in one equation.\<close>

lemma step_handshake_eq:
  assumes "length uid = 16" and "length tok = 32"
    and "avail (incoming c) = handshake uid tok dir @ data"
  shows "\<exists>rest. avail rest = data \<and> step_handshake S E c sv = Some
    (case find_session sv (uuid_string uid) of
       None \<Rightarrow> (Closed, c\<lparr>incoming := rest\<rparr>, sv)
     | Some r \<Rightarrow>
         let s = session_at sv r in
         if \<not> token_ok s tok then (Closed, c\<lparr>incoming := rest\<rparr>, sv)
         else if dir = 0 then
           (let disk1 = fs_mkpath E (disk sv) (absolutePath E (tempFilePath s)) in
            case fs_create E disk1 (tempFilePath s) of
              None \<Rightarrow> (Closed, c\<lparr>incoming := rest\<rparr>,
                 emit (OnFinished (transferId s) False msg_no_file) (sv\<lparr>disk := disk1\<rparr>))
            | Some disk2 \<Rightarrow> (Receiving r (sha256_init S) 0, c\<lparr>incoming := rest\<rparr>, sv\<lparr>disk := disk2\<rparr>))
         else if dir = 1 then
           (case fs_open_read E (disk sv) (targetFilePath s) of
              None \<Rightarrow> (Closed, c\<lparr>incoming := rest\<rparr>, emit (OnFinished (transferId s) False msg_unreadable) sv)
            | Some _ \<Rightarrow> (Sending r (Some 0) 0, c\<lparr>incoming := rest\<rparr>, sv))
         else (Closed, c\<lparr>incoming := rest\<rparr>, sv))"
proof -
  obtain rest where rd: "readExact (silent c) kHandshakeSize (incoming c) = Some (Some (handshake uid tok dir), rest)"
    and "avail rest = data"
    using read_handshake [OF assms] by blast
  then show ?thesis
    unfolding step_handshake_def rd
    by (intro exI [of _ rest])
      (simp add: handshake_parts [OF assms(1,2)] token_ok_snoc [OF assms(2)] Let_def split: option.split)
qed

section \<open>How an upload can end\<close>

lemma fs_reliableD:
  assumes "fs_reliable E V"
  shows "V (fs_remove E f p) p = None"
    and "V f (stream_path E p) = Some old \<Longrightarrow> V (fs_append E f p bs) (stream_path E p) = Some (old @ bs)"
    and "\<exists>f'. fs_create E f p = Some f'"
    and "V f old' \<noteq> None \<Longrightarrow> \<not> fs_exists E f new \<Longrightarrow> fst (fs_rename E f old' new)"
  using assms unfolding fs_reliable_def by (simp | blast)+

lemma sha256_lawsD:
  assumes "sha256_laws S"
  shows "sha256_update S (sha256_update S h a) b = sha256_update S h (a @ b)"
    and "sha256_update S h [] = h"
    and "length (sha256_final S h) = 32"
  using assms unfolding sha256_laws_def by (simp | blast)+

lemma remove_view:
  assumes "fs_laws E V" and "fs_reliable E V"
  shows "V (fs_remove E f p) = (V f)(p := None)"
  using fs_lawsD(3) [OF assms(1)] fs_reliableD(1) [OF assms(2)] by (auto simp: fun_eq_iff)

lemma append_view:
  assumes "fs_laws E V" and "fs_reliable E V" and "V f (stream_path E p) = Some old"
  shows "V (fs_append E f p bs) = (V f)(stream_path E p := Some (old @ bs))"
  using fs_lawsD(4) [OF assms(1)] fs_reliableD(2) [OF assms(2,3)] by (auto simp: fun_eq_iff)

text \<open>
  What is known while a thread receives: the chunks \<open>cs\<close> it has taken off the stream are in
  the file that its stream has open, in the hash and in the count, and nothing else has changed.
\<close>

definition receiving_state ::
  "'h sodium_api \<Rightarrow> 'f os_api \<Rightarrow> ('f \<Rightarrow> string \<Rightarrow> bytes option) \<Rightarrow> nat \<Rightarrow> bytes \<Rightarrow> 'f FileTransferServer \<Rightarrow>
   bytes list \<Rightarrow> 'h \<Rightarrow> u64 \<Rightarrow> 'f FileTransferServer \<Rightarrow> bool" where
  "receiving_state S E V r data sv0 cs sha t sv \<longleftrightarrow>
     kept sv0 sv \<and>
     V (disk sv) = (V (disk sv0))(stream_path E (tempFilePath (session_at sv0 r)) := Some (concat cs)) \<and>
     sha = sha256_update S (sha256_init S) (concat cs) \<and>
     t = of_nat (length (concat cs)) \<and>
     (\<exists>rest. data = stream_of cs @ rest) \<and>
     (\<exists>ps. events sv = events sv0 @ ps \<and> list_all is_progress ps)"

text \<open>
  How it ends. When the stream and Qt mean the same temporary file, either it has been moved to a free
  name, or it is gone. When they do not, and there is no file at the name that Qt reads, the transfer
  has failed and what the stream wrote stays.
\<close>

definition upload_ended ::
  "'h sodium_api \<Rightarrow> 'f os_api \<Rightarrow> ('f \<Rightarrow> string \<Rightarrow> bytes option) \<Rightarrow> nat \<Rightarrow> bytes \<Rightarrow>
   'f FileTransferServer \<Rightarrow> 'f FileTransferServer \<Rightarrow> bool" where
  "upload_ended S E V r data sv0 sv \<longleftrightarrow>
     (let s = session_at sv0 r; temp = tempFilePath s in
      \<exists>ps ok why cs rest. events sv = events sv0 @ ps @ [OnFinished (transferId s) ok why] \<and>
        list_all is_progress ps \<and> kept sv0 sv \<and> data = stream_of cs @ rest \<and>
        (stream_named E temp \<longrightarrow>
          (if ok then \<exists>p. of_nat (length (concat cs)) = expectedSize s \<and>
             (expectedSha256 s = [] \<or> hexString (sha256 S (concat cs)) = expectedSha256 s) \<and>
             p \<noteq> temp \<and> V (disk sv0) p = None \<and>
             V (disk sv) = (V (disk sv0))(temp := None, p := Some (concat cs))
           else V (disk sv) = (V (disk sv0))(temp := None))) \<and>
        (\<not> stream_named E temp \<and> V (disk sv0) temp = None \<longrightarrow>
          \<not> ok \<and> V (disk sv) = (V (disk sv0))(stream_path E temp := Some (concat cs))))"

lemma step_received_cases:
  assumes "step_received S E r err sha t sv = Some sv'" and "s = session_at sv r"
  obtains (failed) why f where "sv' = emit (OnFinished (transferId s) False why) (sv\<lparr>disk := fs_remove E f (tempFilePath s)\<rparr>)"
      "f = disk sv \<or> (\<exists>p. fs_rename E (disk sv) (tempFilePath s) p = (False, f))"
    | (renamed) p f where "sv' = emit (OnFinished (transferId s) True []) (sv\<lparr>disk := f\<rparr>)"
      "fs_rename E (disk sv) (tempFilePath s) p = (True, f)" "t = expectedSize s"
      "expectedSha256 s = [] \<or> hexString (sha256_final S sha) = expectedSha256 s"
  using assms unfolding step_received_def Let_def
  by (auto split: if_splits option.splits prod.splits bool.splits)

lemma step_received_ends:
  assumes fs: "fs_laws E V" "fs_reliable E V"
    and st: "receiving_state S E V r data sv0 cs sha t sv"
    and step: "step_received S E r err sha t sv = Some sv'"
  shows "upload_ended S E V r data sv0 sv'"
proof -
  let ?s = "session_at sv0 r" and ?temp = "tempFilePath (session_at sv0 r)"
  from st have kept: "kept sv0 sv" and V: "V (disk sv) = (V (disk sv0))(stream_path E ?temp := Some (concat cs))"
    and sha: "sha = sha256_update S (sha256_init S) (concat cs)" and t: "t = of_nat (length (concat cs))"
    by (auto simp: receiving_state_def)
  from st obtain rest ps where data: "data = stream_of cs @ rest"
    and ev: "events sv = events sv0 @ ps" "list_all is_progress ps"
    by (auto simp: receiving_state_def)
  note same = kept_fields [OF kept_static [OF kept, of r]]
  from step show ?thesis
  proof (cases rule: step_received_cases [OF _ refl, consumes 1, case_names failed renamed])
    case (failed why f)
    note failed = failed [unfolded same]
    have "V f = V (disk sv)" using failed(2) fs_lawsD(8) [OF fs(1)] by auto
    then have gone: "V (fs_remove E f ?temp) = (V (disk sv))(?temp := None)"
      by (simp add: remove_view [OF fs])
    have view: "stream_named E ?temp \<longrightarrow> V (fs_remove E f ?temp) = (V (disk sv0))(?temp := None)"
      "\<not> stream_named E ?temp \<and> V (disk sv0) ?temp = None \<longrightarrow>
        V (fs_remove E f ?temp) = (V (disk sv0))(stream_path E ?temp := Some (concat cs))"
      unfolding gone V stream_named_def by (auto simp: fun_eq_iff)
    show ?thesis
      unfolding upload_ended_def Let_def
      by (rule exI [of _ ps], rule exI [of _ False], rule exI [of _ why], rule exI [of _ cs], rule exI [of _ rest])
        (use ev kept data view in \<open>simp add: failed(1) kept_def\<close>)
  next
    case (renamed p f)
    note renamed = renamed [unfolded same]
    from fs_lawsD(7) [OF fs(1) renamed(2)] have p: "\<not> fs_exists E (disk sv) p" "?temp \<noteq> p" "V (disk sv) ?temp \<noteq> None"
      and f: "V f = (V (disk sv))(?temp := None, p := V (disk sv) ?temp)" by auto
    have "V (disk sv) p = None"
      using p(1) fs_lawsD(1) [OF fs(1)] by blast
    then have free: "V (disk sv0) p = None" using V by (auto split: if_splits)
    have view: "stream_named E ?temp \<longrightarrow> V f = (V (disk sv0))(?temp := None, p := Some (concat cs))"
      using V p(2) unfolding f stream_named_def by (auto simp: fun_eq_iff)
    have found: "V (disk sv0) ?temp \<noteq> None" if "\<not> stream_named E ?temp"
      using p(3) that V by (simp add: stream_named_def)
    show ?thesis
      unfolding upload_ended_def Let_def
      by (rule exI [of _ ps], rule exI [of _ True], rule exI [of _ "[]"], rule exI [of _ cs], rule exI [of _ rest])
        (use ev kept data t sha renamed(3,4) free p(2) [symmetric] view found in
          \<open>auto simp: renamed(1) kept_def sha256_def intro!: exI [of _ p]\<close>)
  qed
qed

lemma step_read_frame:
  assumes fs: "fs_laws E V" "fs_reliable E V" and sha: "sha256_laws S"
    and st: "receiving_state S E V r data sv0 cs sha t sv" and data: "data = stream_of cs @ avail (incoming c)"
    and frame: "read_frame (readExact b) kMaxChunk (incoming c) = Some (Frame p, rest)"
  shows "receiving_state S E V r data sv0 (cs @ [p]) (sha256_update S sha p) (t + of_nat (length p))
      (emit (OnProgress tid k tot) (update_session r (\<lambda>s. s\<lparr>bytesTransferred := n\<rparr>)
        (sv\<lparr>disk := fs_append E (disk sv) (tempFilePath (session_at sv r)) p\<rparr>)))"
    and "data = stream_of (cs @ [p]) @ avail rest"
proof -
  show next_data: "data = stream_of (cs @ [p]) @ avail rest"
    using data sock.read_frame_view(1) [OF frame] by simp
  from st have kept: "kept sv0 sv" by (simp add: receiving_state_def)
  note same = kept_fields(4) [OF kept_static [OF kept, of r]]
  have "V (disk sv) (stream_path E (tempFilePath (session_at sv0 r))) = Some (concat cs)"
    using st by (simp add: receiving_state_def)
  then have "V (fs_append E (disk sv) (tempFilePath (session_at sv r)) p) =
      (V (disk sv))(stream_path E (tempFilePath (session_at sv0 r)) := Some (concat (cs @ [p])))"
    unfolding same by (simp add: append_view [OF fs])
  with st next_data show "receiving_state S E V r data sv0 (cs @ [p]) (sha256_update S sha p) (t + of_nat (length p))
      (emit (OnProgress tid k tot) (update_session r (\<lambda>s. s\<lparr>bytesTransferred := n\<rparr>)
        (sv\<lparr>disk := fs_append E (disk sv) (tempFilePath (session_at sv r)) p\<rparr>)))"
    by (auto simp: receiving_state_def kept_def sha256_lawsD(1) [OF sha])
qed

fun upload_run_inv ::
  "'h sodium_api \<Rightarrow> 'f os_api \<Rightarrow> ('f \<Rightarrow> string \<Rightarrow> bytes option) \<Rightarrow> nat \<Rightarrow> bytes \<Rightarrow>
   'f FileTransferServer \<Rightarrow> 'h phase \<Rightarrow> connection \<Rightarrow> 'f FileTransferServer \<Rightarrow> bool" where
  "upload_run_inv S E V r data sv0 (Receiving r' sha t) c sv \<longleftrightarrow> r' = r \<and>
     (\<exists>cs. receiving_state S E V r data sv0 cs sha t sv \<and> data = stream_of cs @ avail (incoming c))"
| "upload_run_inv S E V r data sv0 (Reading r' sha t) c sv \<longleftrightarrow> r' = r \<and>
     (\<exists>cs. receiving_state S E V r data sv0 cs sha t sv \<and> data = stream_of cs @ avail (incoming c))"
| "upload_run_inv S E V r data sv0 (Received r' err sha t) c sv \<longleftrightarrow> r' = r \<and>
     (\<exists>cs. receiving_state S E V r data sv0 cs sha t sv)"
| "upload_run_inv S E V r data sv0 Closed c sv \<longleftrightarrow> upload_ended S E V r data sv0 sv"
| "upload_run_inv S E V r data sv0 _ c sv \<longleftrightarrow> False"

lemma upload_run_step:
  assumes fs: "fs_laws E V" "fs_reliable E V" and sha: "sha256_laws S"
    and inv: "upload_run_inv S E V r data sv0 ph c sv"
    and step: "conn_step S E ph c sv = Some (ph', c', sv')"
  shows "upload_run_inv S E V r data sv0 ph' c' sv'"
proof (cases ph)
  case (Receiving r' h t)
  with inv step show ?thesis by (auto simp: step_receive_def Let_def split: if_splits)
next
  case (Reading r' h t)
  with inv obtain cs where r': "r' = r" and st: "receiving_state S E V r data sv0 cs h t sv"
    and data: "data = stream_of cs @ avail (incoming c)" by auto
  from step Reading r' have eq: "step_read S E r h t c sv = Some (ph', c', sv')" by simp
  show ?thesis
  proof (cases "ph' = Received r True h t")
    case True
    with eq st show ?thesis
      by (auto simp: step_read_def Let_def split: option.splits prod.splits frame_result.splits)
  next
    case False
    with eq obtain p rest where frame: "read_frame (readExact (silent c)) kMaxChunk (incoming c) = Some (Frame p, rest)"
      and new: "ph' = Receiving r (sha256_update S h p) (t + of_nat (length p))" "incoming c' = rest"
      "sv' = emit (OnProgress (transferId (session_at sv r)) (t + of_nat (length p)) (expectedSize (session_at sv r)))
         (update_session r (\<lambda>s. s\<lparr>bytesTransferred := t + of_nat (length p)\<rparr>)
           (sv\<lparr>disk := fs_append E (disk sv) (tempFilePath (session_at sv r)) p\<rparr>))"
      by (auto simp: step_read_def Let_def split: option.splits prod.splits frame_result.splits)
    from step_read_frame [OF fs sha st data frame] new show ?thesis
      by (auto intro!: exI [of _ "cs @ [p]"])
  qed
next
  case (Received r' err h t)
  with inv obtain cs where "r' = r" "receiving_state S E V r data sv0 cs h t sv" by auto
  with step Received step_received_ends [OF fs] show ?thesis by auto
qed (use inv step in auto)

lemma upload_start:
  assumes fs: "fs_laws E V" "fs_reliable E V" and sha: "sha256_laws S"
    and uid: "length uid = 16" "length tok = 32"
    and c: "avail (incoming c) = handshake uid tok 0 @ data"
    and sess: "find_session sv (uuid_string uid) = Some r" "token_ok (session_at sv r) tok"
  shows "\<exists>rest disk2. avail rest = data \<and>
    receiving_state S E V r data sv [] (sha256_init S) 0 (sv\<lparr>disk := disk2\<rparr>) \<and>
    handleConnection S E c sv =
      run_thread S E (Receiving r (sha256_init S) 0) (c\<lparr>incoming := rest\<rparr>) (sv\<lparr>disk := disk2\<rparr>)"
proof -
  let ?temp = "tempFilePath (session_at sv r)"
  obtain disk2 where disk2: "fs_create E (fs_mkpath E (disk sv) (absolutePath E ?temp)) ?temp = Some disk2"
    using fs_reliableD(3) [OF fs(2)] by blast
  with step_handshake_eq [OF uid c, of S E sv] sess obtain rest where "avail rest = data"
    and hs: "conn_step S E Handshaking c sv =
      Some (Receiving r (sha256_init S) 0, c\<lparr>incoming := rest\<rparr>, sv\<lparr>disk := disk2\<rparr>)"
    by (auto simp: Let_def)
  moreover have "receiving_state S E V r data sv [] (sha256_init S) 0 (sv\<lparr>disk := disk2\<rparr>)"
    using fs_lawsD(6) [OF fs(1) disk2] fs_lawsD(5) [OF fs(1)]
    by (simp add: receiving_state_def keptI_disk sha256_lawsD(2) [OF sha])
  ultimately show ?thesis
    using run_thread_step [OF _ hs] unfolding handleConnection_def by blast
qed

lemma upload_ends:
  assumes fs: "fs_laws E V" "fs_reliable E V" and sha: "sha256_laws S"
    and uid: "length uid = 16" "length tok = 32"
    and c: "avail (incoming c) = handshake uid tok 0 @ data"
    and sess: "find_session sv (uuid_string uid) = Some r" "token_ok (session_at sv r) tok"
    and run: "handleConnection S E c sv = Some (c', sv')"
  shows "upload_ended S E V r data sv sv'"
proof -
  from upload_start [OF fs sha uid c sess] obtain rest disk2 where "avail rest = data"
    and "receiving_state S E V r data sv [] (sha256_init S) 0 (sv\<lparr>disk := disk2\<rparr>)"
    and eq: "handleConnection S E c sv =
      run_thread S E (Receiving r (sha256_init S) 0) (c\<lparr>incoming := rest\<rparr>) (sv\<lparr>disk := disk2\<rparr>)"
    by blast
  then have "upload_run_inv S E V r data sv (Receiving r (sha256_init S) 0) (c\<lparr>incoming := rest\<rparr>) (sv\<lparr>disk := disk2\<rparr>)"
    by (auto intro: exI [of _ "[]"])
  with run eq have "upload_run_inv S E V r data sv Closed c' sv'"
    using upload_run_step [OF fs sha, of r data sv]
    by (intro run_thread_rule [where P = "upload_run_inv S E V r data sv"]) auto
  then show ?thesis by simp
qed

section \<open>A complete upload\<close>

text \<open>
  The receive loop over the frames of a client that sends what it announced: one turn per
  chunk, and the loop is left with the count at the expected size.
\<close>

lemma receive_chunks:
  assumes fs: "fs_laws E V" "fs_reliable E V" and sha: "sha256_laws S"
    and live: "m_running sv0" "\<not> cancelled (session_at sv0 r)"
  shows "receiving_state S E V r data sv0 ds h t sv \<Longrightarrow> data = stream_of ds @ avail (incoming c) \<Longrightarrow>
    avail (incoming c) = stream_of cs @ tail \<Longrightarrow> chunks_ok cs \<Longrightarrow>
    length (concat (ds @ cs)) = unat (expectedSize (session_at sv0 r)) \<Longrightarrow>
    \<exists>c' sv' h'. run_thread S E (Receiving r h t) c sv =
        run_thread S E (Received r False h' (expectedSize (session_at sv0 r))) c' sv' \<and>
      receiving_state S E V r data sv0 (ds @ cs) h' (expectedSize (session_at sv0 r)) sv' \<and>
      sent c' = sent c \<and>
      events sv' = events sv @
        progress_log (transferId (session_at sv0 r)) (expectedSize (session_at sv0 r)) t cs"
proof (induction cs arbitrary: ds h t sv c)
  case Nil
  from Nil.prems(1,5) have t: "t = expectedSize (session_at sv0 r)"
    by (simp add: receiving_state_def)
  then have "step_receive r h t sv = Received r False h t"
    using kept_fields(5) [OF kept_static, of sv0 sv r] Nil.prems(1)
    by (simp add: step_receive_def Let_def receiving_state_def)
  with Nil.prems(1) t show ?case
    by (intro exI [of _ c] exI [of _ sv] exI [of _ h]) (simp add: run_thread_step)
next
  case (Cons p cs)
  let ?s = "session_at sv0 r"
  let ?t = "t + of_nat (length p)"
  from Cons.prems(1) have kept: "kept sv0 sv" and t: "t = of_nat (length (concat ds))"
    by (simp_all add: receiving_state_def)
  note same = kept_fields [OF kept_static [OF kept, of r]] kept_running [OF kept]
  have p: "0 < length p" "length p \<le> unat kMaxChunk" "chunks_ok cs"
    using Cons.prems(4) by simp_all
  have below: "length (concat ds) < unat (expectedSize ?s)"
    using Cons.prems(5) p(1) unfolding concat_append length_append concat.simps by linarith
  then have "t < expectedSize ?s"
    unfolding t by (simp add: word_less_nat_alt unat_of_nat le_less_trans [OF mod_less_eq_dividend])
  then have test: "conn_step S E (Receiving r h t) c sv = Some (Reading r h t, c, sv)"
    using live by (simp add: step_receive_def Let_def same)
  moreover obtain rest where frame: "read_frame (readExact (silent c)) kMaxChunk (incoming c) = Some (Frame p, rest)"
    and rest: "avail rest = stream_of cs @ tail"
    using sock.read_frame_step [of "incoming c" p "stream_of cs @ tail" kMaxChunk "silent c"] p Cons.prems(3) by auto
  moreover define sv1 where "sv1 = emit (OnProgress (transferId ?s) ?t (expectedSize ?s))
      (update_session r (\<lambda>s. s\<lparr>bytesTransferred := ?t\<rparr>)
        (sv\<lparr>disk := fs_append E (disk sv) (tempFilePath (session_at sv r)) p\<rparr>))"
  ultimately have step: "conn_step S E (Reading r h t) c sv =
      Some (Receiving r (sha256_update S h p) ?t, c\<lparr>incoming := rest\<rparr>, sv1)"
    by (simp add: step_read_def Let_def same)
  have "receiving_state S E V r data sv0 (ds @ [p]) (sha256_update S h p) ?t sv1"
    and "data = stream_of (ds @ [p]) @ avail rest"
    unfolding sv1_def by (rule step_read_frame [OF fs sha Cons.prems(1,2) frame])+
  then obtain c' sv' h' where
    "run_thread S E (Receiving r (sha256_update S h p) ?t) (c\<lparr>incoming := rest\<rparr>) sv1 =
        run_thread S E (Received r False h' (expectedSize ?s)) c' sv'"
    "receiving_state S E V r data sv0 (ds @ p # cs) h' (expectedSize ?s) sv'" "sent c' = sent c"
    "events sv' = events sv1 @ progress_log (transferId ?s) (expectedSize ?s) ?t cs"
    using Cons.IH [of "ds @ [p]" "sha256_update S h p" ?t sv1 "c\<lparr>incoming := rest\<rparr>"] rest p(3) Cons.prems(5)
    by auto
  with run_thread_step [OF _ test] run_thread_step [OF _ step] show ?case
    by (intro exI [of _ c'] exI [of _ sv'] exI [of _ h']) (simp add: sv1_def)
qed

text \<open>
  Which name a file gets: the announced one, or the first numbered one, that no file has and
  that is not the temporary file itself. \<open>no_directory_at\<close>: none of those names is a directory.
\<close>

definition names_tried :: "'f os_api \<Rightarrow> string \<Rightarrow> string set" where
  "names_tried E p = insert p (range (candidate_name E p))"

definition no_directory_at :: "'f os_api \<Rightarrow> ('f \<Rightarrow> string \<Rightarrow> bytes option) \<Rightarrow> string \<Rightarrow> bool" where
  "no_directory_at E V p \<longleftrightarrow> (\<forall>f. \<forall>q \<in> names_tried E p. fs_exists E f q \<longrightarrow> V f q \<noteq> None)"

definition first_free ::
  "'f os_api \<Rightarrow> (string \<Rightarrow> bytes option) \<Rightarrow> string \<Rightarrow> string \<Rightarrow> string \<Rightarrow> bool" where
  "first_free E files temp target p \<longleftrightarrow>
     (let taken = (\<lambda>q. files q \<noteq> None \<or> q = temp) in
      \<not> taken p \<and>
      (p = target \<or> taken target \<and>
        (\<exists>k \<ge> 1. p = candidate_name E target k \<and>
          (\<forall>i. 1 \<le> i \<and> i < k \<longrightarrow> taken (candidate_name E target i)))))"

lemma resolve_name_first_free:
  assumes "path_laws E" and "fs_laws E V" and "plain_target E target" and "no_directory_at E V target"
    and f: "V f = files(temp := Some b)"
  shows "\<exists>p. resolve_name E f target target 1 = Some p \<and> \<not> fs_exists E f p \<and> first_free E files temp target p"
proof -
  obtain p where p: "resolve_name E f target target 1 = Some p" "\<not> fs_exists E f p"
    "p = target \<or> fs_exists E f target \<and> (\<exists>k \<ge> 1. p = candidate_name E target k \<and>
       (\<forall>i. 1 \<le> i \<and> i < k \<longrightarrow> fs_exists E f (candidate_name E target i)))"
    using resolve_name_returns [OF assms(1,3) fs_lawsD(2) [OF assms(2)]] by blast
  have taken: "fs_exists E f q \<longleftrightarrow> files q \<noteq> None \<or> q = temp" if "q \<in> names_tried E target" for q
    using assms(4) fs_lawsD(1) [OF assms(2), of f q] that f unfolding no_directory_at_def
    by (cases "q = temp") (auto dest!: spec [of _ f] bspec)
  have "p \<in> names_tried E target" using p(3) by (auto simp: names_tried_def)
  with p(2,3) taken have "first_free E files temp target p"
    unfolding first_free_def Let_def names_tried_def by (metis insertCI rangeI)
  with p show ?thesis by blast
qed

lemma step_received_stores:
  assumes fs: "fs_laws E V" "fs_reliable E V" and path: "path_laws E"
    and plain: "plain_target E (targetFilePath (session_at sv0 r))"
      "no_directory_at E V (targetFilePath (session_at sv0 r))"
    and named: "stream_named E (tempFilePath (session_at sv0 r))"
    and live: "\<not> cancelled (session_at sv0 r)"
    and st: "receiving_state S E V r data sv0 cs h (expectedSize (session_at sv0 r)) sv"
    and hash: "expectedSha256 (session_at sv0 r) = [] \<or>
      hexString (sha256 S (concat cs)) = expectedSha256 (session_at sv0 r)"
  shows "\<exists>f p. step_received S E r False h (expectedSize (session_at sv0 r)) sv =
      Some (emit (OnFinished (transferId (session_at sv0 r)) True []) (sv\<lparr>disk := f\<rparr>)) \<and>
      first_free E (V (disk sv0)) (tempFilePath (session_at sv0 r)) (targetFilePath (session_at sv0 r)) p \<and>
      V f = (V (disk sv0))(tempFilePath (session_at sv0 r) := None, p := Some (concat cs))"
proof -
  let ?s = "session_at sv0 r"
  from st have kept: "kept sv0 sv" and h: "h = sha256_update S (sha256_init S) (concat cs)"
    and V: "V (disk sv) = (V (disk sv0))(tempFilePath ?s := Some (concat cs))"
    using named by (simp_all add: receiving_state_def stream_named_def)
  note same = kept_fields [OF kept_static [OF kept, of r]]
  obtain p where p: "resolve_name E (disk sv) (targetFilePath ?s) (targetFilePath ?s) 1 = Some p"
    "\<not> fs_exists E (disk sv) p"
    "first_free E (V (disk sv0)) (tempFilePath ?s) (targetFilePath ?s) p"
    using resolve_name_first_free [OF path fs(1) plain V] by blast
  then obtain f where f: "fs_rename E (disk sv) (tempFilePath ?s) p = (True, f)"
    using fs_reliableD(4) [OF fs(2), of "disk sv" "tempFilePath ?s" p] V
    by (cases "fs_rename E (disk sv) (tempFilePath ?s) p") auto
  have "V f = (V (disk sv0))(tempFilePath ?s := None, p := Some (concat cs))"
    using fs_lawsD(7) [OF fs(1) f] V by (auto simp: fun_eq_iff)
  with p f live hash h show ?thesis
    by (intro exI [of _ f] exI [of _ p]) (auto simp: step_received_def Let_def same sha256_def)
qed

lemma upload_stores:
  assumes "path_laws E" and "fs_laws E V" and "fs_reliable E V" and "sha256_laws S"
    and "length uid = 16" and "length tok = 32" and "chunks_ok cs"
    and "avail (incoming c) = handshake uid tok 0 @ stream_of cs @ tail"
    and "find_session sv (uuid_string uid) = Some r" and "s = session_at sv r"
    and "token_ok s tok" and "m_running sv" and "\<not> cancelled s"
    and "plain_target E (targetFilePath s)" and "no_directory_at E V (targetFilePath s)"
    and "stream_named E (tempFilePath s)" and "length (concat cs) = unat (expectedSize s)"
    and "expectedSha256 s = [] \<or> hexString (sha256 S (concat cs)) = expectedSha256 s"
  shows "\<exists>c' sv' p. handleConnection S E c sv = Some (c', sv') \<and> kept sv sv' \<and> sent c' = sent c \<and>
    events sv' = events sv @ progress_log (transferId s) (expectedSize s) 0 cs @
      [OnFinished (transferId s) True []] \<and>
    first_free E (V (disk sv)) (tempFilePath s) (targetFilePath s) p \<and>
    V (disk sv') = (V (disk sv))(tempFilePath s := None, p := Some (concat cs))"
proof -
  note fs = assms(2,3)
  let ?data = "stream_of cs @ tail"
  from upload_start [OF fs assms(4-6,8,9)] assms(10,11) obtain rest disk2 where
    rest: "avail rest = ?data"
    and st: "receiving_state S E V r ?data sv [] (sha256_init S) 0 (sv\<lparr>disk := disk2\<rparr>)"
    and run: "handleConnection S E c sv =
      run_thread S E (Receiving r (sha256_init S) 0) (c\<lparr>incoming := rest\<rparr>) (sv\<lparr>disk := disk2\<rparr>)"
    by blast
  obtain c1 sv1 h1 where run1: "run_thread S E (Receiving r (sha256_init S) 0) (c\<lparr>incoming := rest\<rparr>) (sv\<lparr>disk := disk2\<rparr>) =
      run_thread S E (Received r False h1 (expectedSize s)) c1 sv1"
    and st1: "receiving_state S E V r ?data sv cs h1 (expectedSize s) sv1" and sent: "sent c1 = sent c"
    and ev: "events sv1 = events sv @ progress_log (transferId s) (expectedSize s) 0 cs"
    using receive_chunks [OF fs assms(4,12) _ st, of "c\<lparr>incoming := rest\<rparr>" cs tail] assms(7,10,13,17) rest
    by auto
  have "\<exists>f p. step_received S E r False h1 (expectedSize s) sv1 =
      Some (emit (OnFinished (transferId s) True []) (sv1\<lparr>disk := f\<rparr>)) \<and>
      first_free E (V (disk sv)) (tempFilePath s) (targetFilePath s) p \<and>
      V f = (V (disk sv))(tempFilePath s := None, p := Some (concat cs))"
    using step_received_stores [OF fs assms(1), of sv r S ?data cs h1 sv1] assms(10,13-16,18) st1 by simp
  then obtain f p where fin: "conn_step S E (Received r False h1 (expectedSize s)) c1 sv1 =
      Some (Closed, c1, emit (OnFinished (transferId s) True []) (sv1\<lparr>disk := f\<rparr>))"
    and p: "first_free E (V (disk sv)) (tempFilePath s) (targetFilePath s) p"
    "V f = (V (disk sv))(tempFilePath s := None, p := Some (concat cs))" by auto
  from st1 have "kept sv (emit (OnFinished (transferId s) True []) (sv1\<lparr>disk := f\<rparr>))"
    by (auto simp: receiving_state_def kept_def)
  with run run1 run_thread_step [OF _ fin] p sent ev show ?thesis by auto
qed

section \<open>A server for the witnesses\<close>

text \<open>
  One session is registered, for a file whose name is taken; \<open>demo_conn dir data\<close> is a client
  with the right transfer id and token.
\<close>

definition empty_server :: "'f \<Rightarrow> 'f FileTransferServer" where
  "empty_server f = \<lparr>m_running = True, m_store = [], m_sessions = [], disk = f, events = []\<rparr>"

definition demo_uid :: bytes where "demo_uid = replicate 15 0xA0 @ [7]"
definition demo_token :: bytes where "demo_token = replicate 32 5"
definition demo_chunks :: "bytes list" where "demo_chunks = [[1, 2, 3], [4, 5]]"

definition demo_server :: "transfer_direction \<Rightarrow> files FileTransferServer" where
  "demo_server dir = registerTransfer (uuid_string demo_uid) ''token'' demo_token ''a.txt'' 5
     (hexString (sha256 sodium_model [1, 2, 3, 4, 5])) dir (empty_server [(''a.txt'', [9, 9, 9, 9, 9])])"

definition demo_conn :: "u8 \<Rightarrow> bytes \<Rightarrow> connection" where
  "demo_conn dir data = \<lparr>incoming = [handshake demo_uid demo_token dir @ data], silent = False, sent = [], room = 100\<rparr>"

lemma server_inv_empty: "server_inv (empty_server f)"
  by (simp add: server_inv_def empty_server_def)

lemma demo_lengths [simp]: "length demo_uid = 16" "length demo_token = 32"
  by (simp_all add: demo_uid_def demo_token_def)

lemma demo_avail [simp]: "avail (incoming (demo_conn dir data)) = handshake demo_uid demo_token dir @ data"
  by (simp add: demo_conn_def handshake_def demo_uid_def)

lemma demo_silent [simp]: "silent (demo_conn dir data) = False"
  by (simp add: demo_conn_def)

lemma demo_sessions: "m_sessions (demo_server dir) = [(uuid_string demo_uid, 0)]"
  by (simp add: demo_server_def registerTransfer_def empty_server_def um_put_def)

lemma demo_find [simp]: "find_session (demo_server dir) (uuid_string demo_uid) = Some 0"
  by (rule find_session_exact) (simp add: demo_sessions um_find_def)

lemma demo_session [simp]: "session_at (demo_server dir) 0 = \<lparr>transferId = uuid_string demo_uid,
   tokenBase64 = ''token'', tokenBytes = demo_token, targetFilePath = ''a.txt'',
   tempFilePath = ''a.txt.part'', expectedSize = 5,
   expectedSha256 = hexString (sha256 sodium_model [1, 2, 3, 4, 5]), direction = dir,
   bytesTransferred = 0, cancelled = False\<rparr>"
  by (simp add: demo_server_def registerTransfer_def empty_server_def session_at_def)

lemma demo_server_sels [simp]:
  "m_running (demo_server dir) = True" "disk (demo_server dir) = [(''a.txt'', [9, 9, 9, 9, 9])]"
  "events (demo_server dir) = []" "length (m_store (demo_server dir)) = 1"
  by (simp_all add: demo_server_def registerTransfer_def empty_server_def)

lemma demo_token_ok [simp]: "token_ok (session_at (demo_server dir) 0) demo_token"
  by (simp add: token_ok_def protocol_consts)

lemma demo_plain: "plain_target os_model ''a.txt''"
  by (simp add: plain_target_def plain_name_def before_last_dot_def after_last_dot_def last_part_def)

lemma os_model_no_directory: "no_directory_at os_model um_find p"
  by (simp add: no_directory_at_def)

lemma demo_inv: "server_inv (demo_server dir)"
  by (simp add: server_inv_def demo_server_def registerTransfer_def empty_server_def session_at_def)

lemma demo_plain_targets: "plain_targets os_model (demo_server dir)"
  using demo_plain by (simp add: plain_targets_def)

lemma demo_chunks_ok: "chunks_ok demo_chunks" "concat demo_chunks = [1, 2, 3, 4, 5]"
  by (simp_all add: demo_chunks_def kMaxChunk_def)

section \<open>Properties\<close>

text \<open>
  C14: what a client announced and sends is stored. A connection whose handshake names a live
  session and carries its token, and that goes on with frames of at most 1 MiB whose
  concatenation has the announced length and hash, ends with the file under the announced
  name, or the first free numbered one; the temporary file is gone, every other file is
  untouched, the owner is told the progress after each chunk and at last success, and the
  table of sessions is unchanged. Nothing depends on how the bytes were cut into segments, or
  on what the client sends after the last chunk. The temporary name is one that the stream and
  Qt read alike (\<open>misnamed_upload_fails\<close> says what happens to the others).
\<close>

theorem upload_stored:
  assumes "path_laws E" and "fs_laws E V" and "fs_reliable E V" and "sha256_laws S"
    and "length uid = 16" and "length tok = 32" and "chunks_ok cs"
    and "avail (incoming c) = handshake uid tok 0 @ stream_of cs @ tail"
    and "find_session sv (uuid_string uid) = Some r" and "s = session_at sv r"
    and "token_ok s tok" and "m_running sv" and "\<not> cancelled s"
    and "plain_target E (targetFilePath s)" and "no_directory_at E V (targetFilePath s)"
    and "stream_named E (tempFilePath s)" and "length (concat cs) = unat (expectedSize s)"
    and "expectedSha256 s = [] \<or> hexString (sha256 S (concat cs)) = expectedSha256 s"
  shows "\<exists>c' sv' p. handleConnection S E c sv = Some (c', sv') \<and> kept sv sv' \<and> sent c' = sent c \<and>
    events sv' = events sv @ progress_log (transferId s) (expectedSize s) 0 cs @
      [OnFinished (transferId s) True []] \<and>
    first_free E (V (disk sv)) (tempFilePath s) (targetFilePath s) p \<and>
    V (disk sv') = (V (disk sv))(tempFilePath s := None, p := Some (concat cs))"
  using assms by (rule upload_stores)

theorem upload_stored_witness:
  "\<exists>c' sv' p. handleConnection sodium_model os_model (demo_conn 0 (stream_of demo_chunks))
      (demo_server MobileUploadToPc) = Some (c', sv') \<and>
     um_find (disk sv') p = Some [1, 2, 3, 4, 5] \<and> um_find (disk sv') ''a.txt'' = Some [9, 9, 9, 9, 9]"
proof -
  have "\<exists>c' sv' p. handleConnection sodium_model os_model (demo_conn 0 (stream_of demo_chunks))
      (demo_server MobileUploadToPc) = Some (c', sv') \<and>
    first_free os_model (um_find [(''a.txt'', [9, 9, 9, 9, 9])]) ''a.txt.part'' ''a.txt'' p \<and>
    um_find (disk sv') = (um_find [(''a.txt'', [9, 9, 9, 9, 9])])
       (''a.txt.part'' := None, p := Some [1, 2, 3, 4, 5])"
    using upload_stored [OF os_model_path_laws os_model_fs_laws os_model_fs_reliable
        sodium_model_sha256_laws demo_lengths demo_chunks_ok(1) _ demo_find refl demo_token_ok,
        of "demo_conn 0 (stream_of demo_chunks)" "[]" MobileUploadToPc]
      demo_plain os_model_no_directory
    by (simp add: demo_chunks_ok(2)) blast
  then obtain c' sv' p where run: "handleConnection sodium_model os_model (demo_conn 0 (stream_of demo_chunks))
      (demo_server MobileUploadToPc) = Some (c', sv')"
    and p: "first_free os_model (um_find [(''a.txt'', [9, 9, 9, 9, 9])]) ''a.txt.part'' ''a.txt'' p"
    and f: "um_find (disk sv') = (um_find [(''a.txt'', [9, 9, 9, 9, 9])])
       (''a.txt.part'' := None, p := Some [1, 2, 3, 4, 5])"
    by blast
  from p have "p \<noteq> ''a.txt''" by (auto simp: first_free_def um_find_def)
  with run f show ?thesis
    by (intro exI [of _ c'] exI [of _ sv'] exI [of _ p]) (simp add: um_find_def)
qed



text \<open>
  C15: no upload succeeds under a name that the stream and Qt read differently. When the encoding of
  the process is not UTF-8 and the name has other than ASCII characters, the stream writes one file
  and \<^verbatim>\<open>QFile\<close> looks for another: whatever an authenticated client sends, be it the announced
  content to the last byte, the thread reports one failure, unless a silent client keeps it waiting,
  and what it has received stays on the disk under the stream's name, where no code of the program removes it.
\<close>

theorem misnamed_upload_fails:
  assumes "path_laws E" and "fs_laws E V" and "fs_reliable E V" and "sha256_laws S"
    and "length uid = 16" and "length tok = 32"
    and "avail (incoming c) = handshake uid tok 0 @ data"
    and "find_session sv (uuid_string uid) = Some r" and "s = session_at sv r" and "token_ok s tok"
    and "plain_targets E sv" and "server_inv sv"
    and "\<not> stream_named E (tempFilePath s)" and "V (disk sv) (tempFilePath s) = None"
  shows "silent c \<and> handleConnection S E c sv = None \<or>
   (\<exists>c' sv' ps why cs rest. handleConnection S E c sv = Some (c', sv') \<and> kept sv sv' \<and>
    data = stream_of cs @ rest \<and>
    events sv' = events sv @ ps @ [OnFinished (transferId s) False why] \<and> list_all is_progress ps \<and>
    V (disk sv') = (V (disk sv))(stream_path E (tempFilePath s) := Some (concat cs)))"
proof (cases "handleConnection S E c sv")
  case None
  with handleConnection_returns [OF assms(1,2,11,12), of c S] show ?thesis by force
next
  case (Some res)
  then obtain c' sv' where run: "handleConnection S E c sv = Some (c', sv')" by (metis surj_pair)
  have "upload_ended S E V r data sv sv'"
    using upload_ends [OF assms(2-8) _ run] assms(9,10) by simp
  then obtain ps ok why cs rest where ended: "events sv' = events sv @ ps @ [OnFinished (transferId s) ok why]"
    "list_all is_progress ps" "kept sv sv'" "data = stream_of cs @ rest" "\<not> ok"
    "V (disk sv') = (V (disk sv))(stream_path E (tempFilePath s) := Some (concat cs))"
    unfolding upload_ended_def Let_def assms(9) [symmetric] using assms(13,14) by blast
  show ?thesis
    by (rule disjI2, rule exI [of _ c'], rule exI [of _ sv'], rule exI [of _ ps], rule exI [of _ why], rule exI [of _ cs],
        rule exI [of _ rest]) (use run ended in simp)
qed

definition accent_server :: "files FileTransferServer" where
  "accent_server = registerTransfer (uuid_string demo_uid) ''token'' demo_token ([CHR 0xC3, CHR 0xA3] @ ''.txt'') 5
     [] MobileUploadToPc (empty_server [])"

theorem misnamed_upload_fails_witness:
  "\<exists>c' sv' ps why cs. handleConnection sodium_model (os_model_with latin1_path)
      (demo_conn 0 (stream_of demo_chunks)) accent_server = Some (c', sv') \<and>
     events sv' = ps @ [OnFinished (uuid_string demo_uid) False why] \<and>
     um_find (disk sv') ([CHR 0xC3, CHR 0x83, CHR 0xC2, CHR 0xA3] @ ''.txt.part'') = Some (concat cs)"
proof -
  let ?E = "os_model_with latin1_path"
  have sess: "session_at accent_server 0 = \<lparr>transferId = uuid_string demo_uid, tokenBase64 = ''token'',
      tokenBytes = demo_token, targetFilePath = [CHR 0xC3, CHR 0xA3] @ ''.txt'',
      tempFilePath = [CHR 0xC3, CHR 0xA3] @ ''.txt.part'', expectedSize = 5, expectedSha256 = [],
      direction = MobileUploadToPc, bytesTransferred = 0, cancelled = False\<rparr>"
    by (simp add: accent_server_def registerTransfer_def empty_server_def session_at_def)
  have find: "find_session accent_server (uuid_string demo_uid) = Some 0"
    by (rule find_session_exact)
      (simp add: accent_server_def registerTransfer_def empty_server_def um_put_def um_find_def)
  have inv: "server_inv accent_server"
    by (simp add: server_inv_def accent_server_def registerTransfer_def empty_server_def session_at_def)
  have plain: "plain_targets ?E accent_server"
    by (simp add: plain_targets_def sess accent_server_def registerTransfer_def empty_server_def session_at_def
        plain_target_def plain_name_def before_last_dot_def after_last_dot_def last_part_def)
  have read: "stream_path ?E (tempFilePath (session_at accent_server 0)) =
      [CHR 0xC3, CHR 0x83, CHR 0xC2, CHR 0xA3] @ ''.txt.part''"
    by (simp add: sess latin1_path_def char_of_def bit_0)
  have "disk accent_server = []" "events accent_server = []"
    by (simp_all add: accent_server_def registerTransfer_def empty_server_def)
  with misnamed_upload_fails [OF os_model_with_path_laws os_model_with_fs_laws os_model_with_fs_reliable
      sodium_model_sha256_laws demo_lengths demo_avail [of 0 "stream_of demo_chunks"] find refl _ plain inv]
  obtain c' sv' ps why cs where run: "handleConnection sodium_model ?E (demo_conn 0 (stream_of demo_chunks)) accent_server =
      Some (c', sv')" "events sv' = ps @ [OnFinished (uuid_string demo_uid) False why]"
    and left: "um_find (disk sv') = (um_find [])([CHR 0xC3, CHR 0x83, CHR 0xC2, CHR 0xA3] @ ''.txt.part'' := Some (concat cs))"
    unfolding stream_named_def read by (auto simp: sess token_ok_def protocol_consts um_find_def)
  show ?thesis
    by (intro exI [of _ c'] exI [of _ sv'] exI [of _ ps] exI [of _ why] exI [of _ cs] conjI run) (simp only: left fun_upd_same)
qed

text \<open>A handshake that does not name a session of the table and its token changes nothing.\<close>

lemma handshake_refused:
  assumes "server_inv sv" and "list_all (\<lambda>s. length (tokenBytes s) = kTokenSize) (m_store sv)"
    and no: "\<not> (\<exists>uid dir data r k. um_find (m_sessions sv) k = Some r \<and> noDash k = hexString uid \<and>
      length uid = 16 \<and> dir \<in> {0, 1} \<and> avail (incoming c) = handshake uid (tokenBytes (session_at sv r)) dir @ data)"
  shows "step_handshake S E c sv = None \<or> (\<exists>c1. step_handshake S E c sv = Some (Closed, c1, sv) \<and> sent c1 = sent c)"
proof (cases "length (avail (incoming c)) < kHandshakeSize")
  case True
  then show ?thesis
    by (cases rule: sock.read_cases [of kHandshakeSize "incoming c" "silent c"]) (auto simp: step_handshake_def)
next
  case False
  let ?a = "avail (incoming c)"
  define uid tok dir data where parts: "uid = take 16 ?a" "tok = take 32 (drop 16 ?a)"
    "dir = ?a ! 48" "data = drop 49 ?a"
  have len: "length uid = 16" "length tok = 32"
    using False by (simp_all add: parts kHandshakeSize_def protocol_consts)
  have a: "?a = handshake uid tok dir @ data"
    unfolding parts using False by (intro handshake_split) (simp add: kHandshakeSize_def protocol_consts)
  have "\<not> token_ok (session_at sv r) tok \<or> dir \<notin> {0, 1}" if r: "find_session sv (uuid_string uid) = Some r" for r
  proof -
    have "\<exists>k. um_find (m_sessions sv) k = Some r \<and> noDash k = hexString uid"
      using find_session_Some [OF _ r] assms(1) noDash_uuid_string [OF len(1)]
      by (auto simp: server_inv_def)
    with no a len(1) have "tok \<noteq> tokenBytes (session_at sv r) \<or> dir \<notin> {0, 1}" by blast
    moreover have "session_at sv r \<in> set (m_store sv)"
      using find_session_valid(1) [OF assms(1) r] by (simp add: session_at_def)
    ultimately show ?thesis using assms(2) len by (auto simp: token_ok_def list_all_iff protocol_consts)
  qed
  then show ?thesis
    using step_handshake_eq [OF len a, of S E sv] by (cases "find_session sv (uuid_string uid)") (auto simp: Let_def)
qed

text \<open>
  C5: nobody without the token gets anything. When every session has a token of 32 bytes, a
  connection that changes the server in any way, or is sent a single byte, or holds its thread
  behind the handshake, began with the
  transfer id of a session of the table, dashes apart, and with exactly that session's token.
\<close>

theorem effect_needs_token:
  assumes "case handleConnection S E c sv of Some (c', sv') \<Rightarrow> sv' \<noteq> sv \<or> sent c' \<noteq> sent c
      | None \<Rightarrow> step_handshake S E c sv \<noteq> None"
    and "server_inv sv" and "list_all (\<lambda>s. length (tokenBytes s) = kTokenSize) (m_store sv)"
  shows "\<exists>uid dir data r k. um_find (m_sessions sv) k = Some r \<and> noDash k = hexString uid \<and>
    length uid = 16 \<and> dir \<in> {0, 1} \<and>
    avail (incoming c) = handshake uid (tokenBytes (session_at sv r)) dir @ data"
proof (rule ccontr)
  assume "\<not> ?thesis"
  from handshake_refused [OF assms(2,3) this, of S E]
  consider "step_handshake S E c sv = None" | c1 where "step_handshake S E c sv = Some (Closed, c1, sv)" "sent c1 = sent c"
    by auto
  then show False
  proof cases
    case 1
    then have "handleConnection S E c sv = None"
      unfolding handleConnection_def by (subst run_thread.simps) simp
    with 1 assms(1) show False by simp
  next
    case (2 c1)
    then have "handleConnection S E c sv = Some (c1, sv)"
      unfolding handleConnection_def by (simp add: run_thread_step)
    with 2 assms(1) show False by simp
  qed
qed

lemma demo_upload_run:
  "\<exists>c' sv'. handleConnection sodium_model os_model (demo_conn 0 (stream_of demo_chunks))
      (demo_server MobileUploadToPc) = Some (c', sv') \<and> sv' \<noteq> demo_server MobileUploadToPc"
proof -
  obtain c' sv' where run: "handleConnection sodium_model os_model (demo_conn 0 (stream_of demo_chunks))
      (demo_server MobileUploadToPc) = Some (c', sv')"
    using handleConnection_returns [OF os_model_path_laws os_model_fs_laws demo_plain_targets demo_inv] demo_silent by blast
  have "upload_ended sodium_model os_model um_find 0 (stream_of demo_chunks)
      (demo_server MobileUploadToPc) sv'"
    by (rule upload_ends [OF os_model_fs_laws os_model_fs_reliable sodium_model_sha256_laws
          demo_lengths demo_avail demo_find demo_token_ok run])
  then have "events sv' \<noteq> events (demo_server MobileUploadToPc)"
    unfolding upload_ended_def Let_def by force
  with run show ?thesis by auto
qed

theorem effect_needs_token_witness:
  "\<exists>uid dir data r k. um_find (m_sessions (demo_server MobileUploadToPc)) k = Some r \<and>
     noDash k = hexString uid \<and> length uid = 16 \<and> dir \<in> {0, 1} \<and>
     avail (incoming (demo_conn 0 (stream_of demo_chunks))) =
       handshake uid (tokenBytes (session_at (demo_server MobileUploadToPc) r)) dir @ data"
proof -
  have tokens: "list_all (\<lambda>s. length (tokenBytes s) = kTokenSize) (m_store (demo_server MobileUploadToPc))"
    by (simp add: demo_server_def registerTransfer_def empty_server_def protocol_consts)
  from demo_upload_run obtain c' sv' where "handleConnection sodium_model os_model (demo_conn 0 (stream_of demo_chunks))
      (demo_server MobileUploadToPc) = Some (c', sv')" "sv' \<noteq> demo_server MobileUploadToPc" by blast
  then show ?thesis
    using effect_needs_token [OF _ demo_inv tokens, of sodium_model os_model "demo_conn 0 (stream_of demo_chunks)"] by simp
qed

text \<open>
  The 16 bytes of the handshake find the session whose id is their hexadecimal text, with
  or without dashes: in a table without two ids that differ only in dashes, the lookup gives
  exactly that session, and different bytes never find the same one.
\<close>

lemma session_lookup:
  assumes "um_wf (m_sessions sv)" and "length uid = 16"
    and "\<forall>k k' r r'. um_find (m_sessions sv) k = Some r \<longrightarrow> um_find (m_sessions sv) k' = Some r' \<longrightarrow>
      noDash k = noDash k' \<longrightarrow> k = k'"
  shows "find_session sv (uuid_string uid) = Some r \<longleftrightarrow>
    (\<exists>k. um_find (m_sessions sv) k = Some r \<and> noDash k = hexString uid)"
proof
  assume "find_session sv (uuid_string uid) = Some r"
  from find_session_Some [OF assms(1) this]
  show "\<exists>k. um_find (m_sessions sv) k = Some r \<and> noDash k = hexString uid"
    by (simp add: noDash_uuid_string [OF assms(2)])
next
  assume "\<exists>k. um_find (m_sessions sv) k = Some r \<and> noDash k = hexString uid"
  then obtain k where k: "um_find (m_sessions sv) k = Some r" "noDash k = hexString uid" by blast
  then have "find_session sv (uuid_string uid) \<noteq> None"
    using um_find_in_set [OF k(1)] noDash_uuid_string [OF assms(2)]
    by (cases "um_find (m_sessions sv) (uuid_string uid)") (auto simp: find_session_def find_None_iff)
  then obtain r' where r': "find_session sv (uuid_string uid) = Some r'" by blast
  with find_session_Some [OF assms(1) r'] k assms(3) show "find_session sv (uuid_string uid) = Some r"
    by (metis noDash_uuid_string [OF assms(2)] option.inject)
qed

lemma handleConnection_spares:
  fixes S :: "'h sodium_api"
  assumes "fs_laws E V" and "server_inv sv" and "handleConnection S E c sv = Some (c', sv')"
  shows "kept sv sv' \<and> spares V (temp_paths E sv) (disk sv) (disk sv')"
proof -
  let ?P = "\<lambda>(ph :: 'h phase) (c :: connection) sv1. kept sv sv1 \<and> server_inv sv1 \<and> phase_ok sv1 ph \<and>
      spares V (temp_paths E sv) (disk sv) (disk sv1)"
  have step: "?P ph' c2 sv2"
    if "?P ph c1 sv1" "conn_step S E ph c1 sv1 = Some (ph', c2, sv2)" for ph c1 sv1 ph' c2 sv2
    using that conn_step_spares [OF that(2) assms(1)] temp_paths_kept [of sv sv1]
      conn_step_kept [OF that(2)] conn_step_inv [OF that(2)] conn_step_phase_ok [OF that(2)]
    by (auto intro: kept_trans spares_trans)
  have init: "?P Handshaking c sv" using assms(2) by (simp add: phase_ok_def)
  have "?P Closed c' sv'"
    by (rule run_thread_rule [where P = ?P, OF assms(3) [unfolded handleConnection_def] init step])
  then show ?thesis by blast
qed



end
