(* ===== verification/TransferDownload.thy ===== *)
theory TransferDownload
  imports TransferUpload
begin

text \<open>
  Downloads: the PC sends a file to a phone. One equation says what the send loop puts on the
  wire, whatever the length of the file on disk and however early the peer stops
  taking bytes, and when a silent peer keeps the thread (\<open>send_loop\<close>); the stream it sends is one the upload side accepts.
\<close>

section \<open>The frames of a file\<close>

function split_chunks :: "nat \<Rightarrow> bytes \<Rightarrow> bytes list" where
  "split_chunks k xs = (if xs = [] \<or> k = 0 then [] else take k xs # split_chunks k (drop k xs))"
  by pat_completeness auto
termination by (relation "measure (\<lambda>(k, xs). length xs)") auto

declare split_chunks.simps [simp del]

lemma split_chunks_Nil [simp]: "split_chunks k [] = []"
  by (simp add: split_chunks.simps)

lemma split_chunks_step: "xs \<noteq> [] \<Longrightarrow> 0 < k \<Longrightarrow> split_chunks k xs = take k xs # split_chunks k (drop k xs)"
  by (simp add: split_chunks.simps)

lemma concat_split_chunks: "0 < k \<Longrightarrow> concat (split_chunks k xs) = xs"
  by (induction k xs rule: split_chunks.induct) (subst split_chunks.simps, auto)

lemma split_chunks_sizes: "list_all (\<lambda>p. 0 < length p \<and> length p \<le> k) (split_chunks k xs)"
  by (induction k xs rule: split_chunks.induct) (subst split_chunks.simps, auto)

lemma chunks_ok_split: "chunks_ok (split_chunks kChunkPlaintextSize xs)"
  unfolding chunks_ok_def
  by (rule list.pred_mono_strong [OF split_chunks_sizes])
    (simp add: kMaxChunk_def kChunkPlaintextSize_def)

text \<open>The frames of the first \<open>n\<close> bytes of a file: what a download puts on the wire.\<close>

definition file_stream :: "nat \<Rightarrow> bytes \<Rightarrow> bytes" where
  "file_stream n content = stream_of (split_chunks kChunkPlaintextSize (take n content))"

section \<open>The send loop\<close>

text \<open>Two writes, the header and the chunk, put on the wire what fits of the frame, or wait.\<close>

lemma step_write_cases:
  obtains (full) "length (frame p) \<le> room c" "conn_step S E (Writing r p at t) c sv =
      Some (Sending r at (t + of_nat (length p)), c\<lparr>sent := sent c @ frame p, room := room c - length (frame p)\<rparr>,
        emit (OnProgress (transferId (session_at sv r)) (t + of_nat (length p)) (expectedSize (session_at sv r)))
          (update_session r (\<lambda>s. s\<lparr>bytesTransferred := t + of_nat (length p)\<rparr>) sv))"
  | (cut) d where "room c < length (frame p)" "\<not> silent c" "conn_step S E (Writing r p at t) c sv = Some (Sent r True t, d, sv)"
      "sent d = sent c @ take (room c) (frame p)"
  | (waits) "room c < length (frame p)" "silent c" "conn_step S E (Writing r p at t) c sv = None"
proof -
  consider "length (frame p) \<le> room c" | "room c < length (frame p)" "silent c"
    | "4 \<le> room c" "room c < length (frame p)" "\<not> silent c" | "room c < 4" "\<not> silent c" by linarith
  then show thesis
  proof cases
    case 1
    then show thesis by (intro full) (simp_all add: step_write_def asio_write_def frame_def Let_def)
  next
    case 2
    then show thesis by (intro waits) (auto simp: step_write_def asio_write_def)
  next
    case 3
    then show thesis
      by (intro cut [of "c\<lparr>sent := sent c @ be32_bytes (of_nat (length p)) @ take (room c - 4) p, room := 0\<rparr>"])
        (auto simp: step_write_def asio_write_def frame_def)
  next
    case 4
    then show thesis
      by (intro cut [of "c\<lparr>sent := sent c @ take (room c) (be32_bytes (of_nat (length p))), room := 0\<rparr>"])
        (simp_all add: step_write_def asio_write_def frame_def)
  qed
qed

text \<open>What is left of a file behind a position; the reads of a stream whose file does not change.\<close>

definition file_rest :: "bytes \<Rightarrow> nat option \<Rightarrow> bytes" where
  "file_rest content at = (case at of None \<Rightarrow> [] | Some pos \<Rightarrow> drop pos content)"

lemma stream_read_rest:
  assumes "\<And>pos. fs_read E f path pos = drop pos content"
  obtains at' where "stream_read E f path at n = (take n (file_rest content at), at')"
    "file_rest content at' = drop n (file_rest content at)"
  by (cases at) (auto simp: stream_read_def file_rest_def assms Let_def add.commute intro: that)

text \<open>
  The result of a download: how much goes out, what is reported, and that the server keeps
  everything but the progress counter.
\<close>

definition download_result ::
  "nat \<Rightarrow> bytes \<Rightarrow> u64 \<Rightarrow> connection \<Rightarrow> 'f FileTransferServer \<Rightarrow> connection \<Rightarrow> 'f FileTransferServer \<Rightarrow> bool" where
  "download_result r content t c sv c' sv' \<longleftrightarrow>
     (let s = session_at sv r; n = unat (expectedSize s - t);
          ok = (n \<le> length content \<and> length (file_stream n content) \<le> room c)
      in kept sv sv' \<and> disk sv' = disk sv \<and>
         sent c' = sent c @ take (room c) (file_stream n content) \<and>
         (\<exists>k. events sv' = events sv @
            progress_log (transferId s) (expectedSize s) t
              (take k (split_chunks kChunkPlaintextSize (take n content))) @
            [OnFinished (transferId s) ok (if ok then [] else msg_send_interrupted)]))"

lemma download_stops:
  assumes kept: "kept sv sv1" and same: "disk sv1 = disk sv" "events sv1 = events sv"
    and live: "\<not> cancelled (session_at sv r)"
    and n: "n = unat (expectedSize (session_at sv r) - t)"
    and ok: "ok \<longleftrightarrow> \<not> err \<and> t = expectedSize (session_at sv r)"
      "ok \<longleftrightarrow> n \<le> length content \<and> length (file_stream n content) \<le> room c"
    and out: "sent c1 = sent c @ take (room c) (file_stream n content)"
  shows "\<exists>sv'. run_thread S E (Sent r err t) c1 sv1 = Some (c1, sv') \<and> download_result r content t c sv c1 sv'"
proof -
  note fields = kept_fields [OF kept_static [OF kept, of r]]
  define sv' where "sv' = emit (OnFinished (transferId (session_at sv r)) ok
      (if ok then [] else msg_send_interrupted)) sv1"
  have "step_sent r err t sv1 = sv'"
    using live ok(1) by (auto simp: step_sent_def Let_def fields sv'_def)
  then have "run_thread S E (Sent r err t) c1 sv1 = Some (c1, sv')"
    by (simp add: run_thread_step)
  moreover have "download_result r content t c sv c1 sv'"
    unfolding download_result_def Let_def n [symmetric] ok(2) [symmetric]
    using kept same out by (auto simp: sv'_def kept_emit intro: exI [of _ 0])
  ultimately show ?thesis by blast
qed

text \<open>One turn that sends a chunk, seen from the bytes that are left.\<close>

lemma file_stream_step:
  fixes n :: nat
  assumes "0 < n" and "content \<noteq> []"
  defines "toRead \<equiv> min kChunkPlaintextSize n"
  shows "split_chunks kChunkPlaintextSize (take n content) = take toRead content #
      split_chunks kChunkPlaintextSize (take (n - length (take toRead content)) (drop toRead content))"
    and "file_stream n content = frame (take toRead content) @
      file_stream (n - length (take toRead content)) (drop toRead content)"
    and "length (take toRead content) \<le> n"
    and "n - length (take toRead content) \<le> length (drop toRead content) \<longleftrightarrow> n \<le> length content"
proof -
  have k: "0 < kChunkPlaintextSize" by (simp add: kChunkPlaintextSize_def)
  have "take kChunkPlaintextSize (take n content) = take toRead content"
    by (simp add: toRead_def min.commute)
  moreover have "drop kChunkPlaintextSize (take n content) =
      take (n - length (take toRead content)) (drop toRead content)"
    by (cases "toRead \<le> length content") (auto simp: toRead_def drop_take min_def not_le split: if_splits)
  ultimately show s: "split_chunks kChunkPlaintextSize (take n content) = take toRead content #
      split_chunks kChunkPlaintextSize (take (n - length (take toRead content)) (drop toRead content))"
    using assms(1,2) k by (simp add: split_chunks_step)
  then show "file_stream n content = frame (take toRead content) @
      file_stream (n - length (take toRead content)) (drop toRead content)"
    by (simp add: file_stream_def)
  show "length (take toRead content) \<le> n"
    by (simp add: toRead_def)
  show "n - length (take toRead content) \<le> length (drop toRead content) \<longleftrightarrow> n \<le> length content"
    by (auto simp: toRead_def min_def)
qed

lemma download_result_step:
  assumes n: "n = unat (expectedSize (session_at sv r) - t)" and pos: "t < expectedSize (session_at sv r)"
    and content: "content \<noteq> []"
    and chunk: "toRead = min kChunkPlaintextSize n" "chunk = take toRead content"
    and fits: "length (frame chunk) \<le> room c"
    and c1: "c1 = c\<lparr>sent := sent c @ frame chunk, room := room c - length (frame chunk)\<rparr>"
    and sv1: "sv1 = emit (OnProgress (transferId (session_at sv r)) (t + of_nat (length chunk))
       (expectedSize (session_at sv r)))
       (update_session r (\<lambda>s. s\<lparr>bytesTransferred := t + of_nat (length chunk)\<rparr>) sv)"
    and rest: "download_result r (drop toRead content) (t + of_nat (length chunk)) c1 sv1 c' sv'"
  shows "download_result r content t c sv c' sv'"
proof -
  have "0 < n" using pos n unat_sub [OF order_less_imp_le [OF pos]] by (simp add: word_less_nat_alt)
  note step = file_stream_step [OF this content, folded chunk]
  have kept1: "kept sv sv1" by (simp add: sv1 kept_emit kept_def)
  note fields = kept_fields [OF kept_static [OF kept1, of r]]
  have n1: "unat (expectedSize (session_at sv r) - (t + of_nat (length chunk))) = n - length chunk"
    using remaining_step(1) [OF pos, of "length chunk"] step(3) n by simp
  note rest1 = rest [unfolded download_result_def Let_def fields n1]
  have ok: "(n - length chunk \<le> length (drop toRead content) \<and>
        length (file_stream (n - length chunk) (drop toRead content)) \<le> room c1) \<longleftrightarrow>
      (n \<le> length content \<and> length (file_stream n content) \<le> room c)"
    unfolding step(2,4) using fits by (auto simp: c1)
  have out: "sent c @ take (room c) (file_stream n content) =
      sent c1 @ take (room c1) (file_stream (n - length chunk) (drop toRead content))"
    unfolding step(2) using fits by (simp add: c1)
  from rest1 obtain k where ev: "events sv' = events sv1 @
      progress_log (transferId (session_at sv r)) (expectedSize (session_at sv r)) (t + of_nat (length chunk))
        (take k (split_chunks kChunkPlaintextSize (take (n - length chunk) (drop toRead content)))) @
      [OnFinished (transferId (session_at sv r)) (n \<le> length content \<and> length (file_stream n content) \<le> room c)
        (if n \<le> length content \<and> length (file_stream n content) \<le> room c then [] else msg_send_interrupted)]"
    unfolding ok by blast
  have "events sv' = events sv @
      progress_log (transferId (session_at sv r)) (expectedSize (session_at sv r)) t
        (take (Suc k) (split_chunks kChunkPlaintextSize (take n content))) @
      [OnFinished (transferId (session_at sv r)) (n \<le> length content \<and> length (file_stream n content) \<le> room c)
        (if n \<le> length content \<and> length (file_stream n content) \<le> room c then [] else msg_send_interrupted)]"
    unfolding ev step(1) by (simp add: sv1)
  with rest1 kept1 out show ?thesis
    unfolding download_result_def Let_def n [symmetric] by (auto simp: sv1 intro: kept_trans)
qed

lemma run_thread_via:
  assumes "conn_step S E ph c sv = Some (ph', c1, sv1)" and "ph \<noteq> Closed"
    and "\<exists>c' sv'. run_thread S E ph' c1 sv1 = Some (c', sv') \<and> Q c' sv'"
  shows "\<exists>c' sv'. run_thread S E ph c sv = Some (c', sv') \<and> Q c' sv'"
  using assms(3) run_thread_step [OF assms(2,1)] by simp

text \<open>One turn of the loop: it ends without a write, or writes a frame and goes on if that went out.\<close>

lemma send_loop_ends:
  assumes "m_running sv" and live: "\<not> cancelled (session_at sv r)" and le: "t \<le> expectedSize (session_at sv r)"
    and read: "\<And>pos. fs_read E (disk sv) (targetFilePath (session_at sv r)) pos = drop pos content"
    and stop: "t = expectedSize (session_at sv r) \<or> file_rest content at = []"
  shows "\<exists>c' sv'. run_thread S E (Sending r at t) c sv = Some (c', sv') \<and>
    download_result r (file_rest content at) t c sv c' sv'"
proof -
  let ?s = "session_at sv r" and ?rest = "file_rest content at"
  define n where "n = unat (expectedSize ?s - t)"
  have zero: "n = 0 \<longleftrightarrow> t = expectedSize ?s"
    using unat_sub [OF le] le by (auto simp: n_def word_le_nat_alt intro: antisym)
  have idle: "file_stream n ?rest = []" "n \<le> length ?rest \<longleftrightarrow> t = expectedSize ?s"
    using stop zero by (auto simp: file_stream_def)
  have "\<exists>sv'. run_thread S E (Sent r False t) c sv = Some (c, sv') \<and> download_result r ?rest t c sv c sv'"
    by (rule download_stops [OF kept_refl refl refl live n_def, where ok = "t = expectedSize ?s"])
      (use idle in simp_all)
  moreover obtain at' where "stream_read E (disk sv) (targetFilePath ?s) at (min kChunkPlaintextSize n) =
      (take (min kChunkPlaintextSize n) ?rest, at')" using stream_read_rest [OF read] by metis
  then have "conn_step S E (Sending r at t) c sv = Some (Sent r False t, c, sv)"
    using stop by (auto simp: step_send_def Let_def n_def)
  ultimately show ?thesis using run_thread_via [of S E "Sending r at t"] by blast
qed

lemma send_chunk_step:
  assumes "m_running sv" and "\<not> cancelled (session_at sv r)" and "t < expectedSize (session_at sv r)"
    and read: "\<And>pos. fs_read E (disk sv) (targetFilePath (session_at sv r)) pos = drop pos content"
    and n: "n = unat (expectedSize (session_at sv r) - t)" and more: "file_rest content at \<noteq> []"
    and chunk: "toRead = min kChunkPlaintextSize n" "chunk = take toRead (file_rest content at)"
  obtains at' where "conn_step S E (Sending r at t) c sv = Some (Writing r chunk at' t, c, sv)" "chunk \<noteq> []"
    "file_rest content at' = drop toRead (file_rest content at)"
proof -
  have "0 < n" using assms(3) n unat_sub [OF order_less_imp_le [OF assms(3)]] by (simp add: word_less_nat_alt)
  then have ne: "chunk \<noteq> []" using more by (simp add: chunk kChunkPlaintextSize_def)
  obtain at' where "stream_read E (disk sv) (targetFilePath (session_at sv r)) at toRead = (chunk, at')"
    "file_rest content at' = drop toRead (file_rest content at)"
    using stream_read_rest [OF read] unfolding chunk(2) by metis
  with assms(1-3) ne show thesis
    by (intro that [of at']) (simp_all add: step_send_def Let_def n [symmetric] chunk(1) [symmetric])
qed

lemma send_loop:
  "m_running sv \<Longrightarrow> \<not> cancelled (session_at sv r) \<Longrightarrow> t \<le> expectedSize (session_at sv r) \<Longrightarrow>
   (\<And>pos. fs_read E (disk sv) (targetFilePath (session_at sv r)) pos = drop pos content) \<Longrightarrow>
   if silent c \<and> room c < length (file_stream (unat (expectedSize (session_at sv r) - t)) (file_rest content at))
   then run_thread S E (Sending r at t) c sv = None
   else \<exists>c' sv'. run_thread S E (Sending r at t) c sv = Some (c', sv') \<and>
     download_result r (file_rest content at) t c sv c' sv'"
proof (induction "length (file_rest content at)" arbitrary: at t c sv rule: less_induct)
  case less
  let ?s = "session_at sv r" and ?rest = "file_rest content at"
  define n where "n = unat (expectedSize ?s - t)"
  show ?case
  proof (cases "t = expectedSize ?s \<or> ?rest = []")
    case True
    then have "file_stream n ?rest = []" by (auto simp: file_stream_def n_def)
    with send_loop_ends [OF less.prems True] show ?thesis by (simp add: n_def)
  next
    case False
    then have more: "t < expectedSize ?s" "?rest \<noteq> []" using less.prems(3) by auto
    then have "0 < n"
      unfolding n_def using unat_sub [OF less.prems(3)] by (simp add: word_less_nat_alt)
    define toRead chunk where "toRead = min kChunkPlaintextSize n" and "chunk = take toRead ?rest"
    note stream = file_stream_step [OF \<open>0 < n\<close> more(2), folded toRead_def, folded chunk_def]
    obtain at' where step: "conn_step S E (Sending r at t) c sv = Some (Writing r chunk at' t, c, sv)" and chunk: "chunk \<noteq> []"
      and at': "file_rest content at' = drop toRead ?rest"
      by (rule send_chunk_step [OF less.prems(1,2) more(1) less.prems(4) n_def more(2) toRead_def chunk_def])
    note via = run_thread_step [OF _ step, simplified]
    show ?thesis
    proof (cases rule: step_write_cases [of chunk c S E r at' t sv, case_names full cut waits])
      case (cut d)
      have "\<exists>sv'. run_thread S E (Sent r True t) d sv = Some (d, sv') \<and> download_result r ?rest t c sv d sv'"
        by (rule download_stops [OF kept_refl refl refl less.prems(2) n_def, where ok = False])
          (use cut more(1) in \<open>simp_all add: stream(2)\<close>)
      with cut(2,3) show ?thesis unfolding via by (auto simp: run_thread_step)
    next
      case waits
      then have "run_thread S E (Writing r chunk at' t) c sv = None" by (subst run_thread.simps) simp
      with waits show ?thesis unfolding via by (simp add: stream(2) flip: n_def)
    next
      case full
      define c2 where "c2 = c\<lparr>sent := sent c @ frame chunk, room := room c - length (frame chunk)\<rparr>"
      define sv1 where "sv1 = emit (OnProgress (transferId ?s) (t + of_nat (length chunk)) (expectedSize ?s))
           (update_session r (\<lambda>s. s\<lparr>bytesTransferred := t + of_nat (length chunk)\<rparr>) sv)"
      let ?t = "t + of_nat (length chunk)"
      from full have eq: "run_thread S E (Sending r at t) c sv = run_thread S E (Sending r at' ?t) c2 sv1"
        unfolding via by (simp add: run_thread_step c2_def sv1_def)
      have kept1: "kept sv sv1" by (simp add: sv1_def kept_emit kept_def)
      note fields = kept_fields [OF kept_static [OF kept1, of r]]
      have left: "unat (expectedSize (session_at sv1 r) - ?t) = n - length chunk"
        using remaining_step(1) [OF more(1)] stream(3) n_def by (simp add: fields)
      have shorter: "length (file_rest content at') < length ?rest"
        using more(2) chunk unfolding at' by (auto simp: chunk_def)
      have le: "?t \<le> expectedSize (session_at sv1 r)"
        using remaining_step(2) [OF more(1)] stream(3) n_def by (simp add: fields)
      have live: "m_running sv1" "\<not> cancelled (session_at sv1 r)"
        using less.prems(1,2) kept_running [OF kept1] by (simp_all add: fields)
      have read: "fs_read E (disk sv1) (targetFilePath (session_at sv1 r)) pos = drop pos content" for pos
        using less.prems(4) by (simp add: fields) (simp add: sv1_def)
      have IH: "if silent c2 \<and> room c2 < length (file_stream (n - length chunk) (drop toRead ?rest))
        then run_thread S E (Sending r at' ?t) c2 sv1 = None
        else \<exists>c' sv'. run_thread S E (Sending r at' ?t) c2 sv1 = Some (c', sv') \<and>
          download_result r (drop toRead ?rest) ?t c2 sv1 c' sv'"
        by (rule less.hyps [OF shorter live le read, of c2, unfolded left at'])
      have "silent c2 = silent c" and "room c2 < length (file_stream (n - length chunk) (drop toRead ?rest)) \<longleftrightarrow>
          room c < length (file_stream n ?rest)"
        using full(1) by (auto simp: c2_def stream(2))
      with IH show ?thesis
        unfolding eq n_def [symmetric]
        using download_result_step [OF n_def more toRead_def chunk_def full(1) c2_def sv1_def]
        by (auto split: if_splits)
    qed
  qed
qed

lemma download_run:
  assumes fs: "fs_laws E V" and "length uid = 16" and "length tok = 32"
    and "avail (incoming c) = handshake uid tok 1 @ data"
    and "find_session sv (uuid_string uid) = Some r" and "token_ok (session_at sv r) tok"
    and "m_running sv" and "\<not> cancelled (session_at sv r)"
    and "fs_open_read E (disk sv) (targetFilePath (session_at sv r)) = Some content"
  shows "if silent c \<and> room c < length (file_stream (unat (expectedSize (session_at sv r))) content)
    then handleConnection S E c sv = None
    else \<exists>c' sv'. handleConnection S E c sv = Some (c', sv') \<and> download_result r content 0 c sv c' sv'"
proof -
  obtain rest where hs: "conn_step S E Handshaking c sv = Some (Sending r (Some 0) 0, c\<lparr>incoming := rest\<rparr>, sv)"
    using step_handshake_eq [OF assms(2-4), of S E sv] assms(5,6,9) by auto
  have "fs_read E (disk sv) (targetFilePath (session_at sv r)) pos = drop pos content" for pos
    using fs_lawsD(10) [OF fs fs_lawsD(9) [OF fs assms(9)]] .
  note loop = send_loop [OF assms(7,8) _ this, of 0 "c\<lparr>incoming := rest\<rparr>" "Some 0" S,
      unfolded file_rest_def option.case drop_0]
  have "download_result r content 0 (c\<lparr>incoming := rest\<rparr>) sv = download_result r content 0 c sv"
    by (simp add: download_result_def fun_eq_iff)
  with loop show ?thesis
    unfolding handleConnection_def run_thread_step [OF _ hs, simplified] by (auto split: if_splits)
qed

section \<open>Properties\<close>

text \<open>
  C18: what a download sends. The bytes put on the wire are the frames of the first
  \<open>expectedSize\<close> bytes of the file, cut into chunks of at most 256 KiB whose concatenation is
  the file, or the part of them the connection takes. Success is reported exactly when the
  file is as long as announced and everything was taken; one result is reported, and neither
  the disk nor the table of sessions changes. A phone that stays connected, silent, and does not take
  everything keeps the thread for ever.
\<close>

theorem download_outcome:
  assumes "fs_laws E V" and "length uid = 16" and "length tok = 32"
    and "avail (incoming c) = handshake uid tok 1 @ data"
    and "find_session sv (uuid_string uid) = Some r" and "s = session_at sv r" and "token_ok s tok"
    and "m_running sv" and "\<not> cancelled s"
    and "fs_open_read E (disk sv) (targetFilePath s) = Some content"
    and "n = unat (expectedSize s)"
  shows "\<exists>ps. concat ps = take n content \<and> list_all (\<lambda>p. 0 < length p \<and> length p \<le> kChunkPlaintextSize) ps \<and>
   (if silent c \<and> room c < length (stream_of ps) then handleConnection S E c sv = None
    else \<exists>c' sv' k ok. handleConnection S E c sv = Some (c', sv') \<and> kept sv sv' \<and> disk sv' = disk sv \<and>
      sent c' = sent c @ take (room c) (stream_of ps) \<and>
      (ok \<longleftrightarrow> n \<le> length content \<and> length (stream_of ps) \<le> room c) \<and>
      events sv' = events sv @ progress_log (transferId s) (expectedSize s) 0 (take k ps) @
        [OnFinished (transferId s) ok (if ok then [] else msg_send_interrupted)])"
proof (rule exI, intro conjI)
  let ?ps = "split_chunks kChunkPlaintextSize (take n content)"
  show "concat ?ps = take n content" by (rule concat_split_chunks) (simp add: kChunkPlaintextSize_def)
  show "list_all (\<lambda>p. 0 < length p \<and> length p \<le> kChunkPlaintextSize) ?ps" by (rule split_chunks_sizes)
  show "if silent c \<and> room c < length (stream_of ?ps) then handleConnection S E c sv = None
    else \<exists>c' sv' k ok. handleConnection S E c sv = Some (c', sv') \<and> kept sv sv' \<and> disk sv' = disk sv \<and>
      sent c' = sent c @ take (room c) (stream_of ?ps) \<and>
      (ok \<longleftrightarrow> n \<le> length content \<and> length (stream_of ?ps) \<le> room c) \<and>
      events sv' = events sv @ progress_log (transferId s) (expectedSize s) 0 (take k ?ps) @
        [OnFinished (transferId s) ok (if ok then [] else msg_send_interrupted)]"
  proof (cases "silent c \<and> room c < length (stream_of ?ps)")
    case False
    with download_run [OF assms(1-5), of content S] assms(6-11) obtain c' sv' where
      run: "handleConnection S E c sv = Some (c', sv')" and res: "download_result r content 0 c sv c' sv'"
      by (auto simp: file_stream_def)
    from res obtain k where "events sv' = events sv @ progress_log (transferId s) (expectedSize s) 0 (take k ?ps) @
      [OnFinished (transferId s) (n \<le> length content \<and> length (stream_of ?ps) \<le> room c)
        (if n \<le> length content \<and> length (stream_of ?ps) \<le> room c then [] else msg_send_interrupted)]"
      unfolding download_result_def Let_def file_stream_def by (auto simp: assms(6,11) [symmetric])
    with False run res show ?thesis
      unfolding if_not_P [OF False] download_result_def Let_def file_stream_def
      by (intro exI [of _ c'] exI [of _ sv'] exI [of _ k] exI conjI; simp add: assms(6,11))
  qed (use download_run [OF assms(1-5), of content S] assms(6-11) in \<open>simp add: file_stream_def\<close>)
qed

theorem download_outcome_witness:
  "\<exists>c' sv'. handleConnection sodium_model os_model (demo_conn 1 [])
      (demo_server DesktopDownloadToMobile) = Some (c', sv') \<and> disk sv' = [(''a.txt'', [9, 9, 9, 9, 9])]"
proof -
  have "\<exists>ps. concat ps = take 5 [9, 9, 9, 9, 9] \<and> list_all (\<lambda>p. 0 < length p \<and> length p \<le> kChunkPlaintextSize) ps \<and>
     (if silent (demo_conn 1 []) \<and> room (demo_conn 1 []) < length (stream_of ps)
      then handleConnection sodium_model os_model (demo_conn 1 []) (demo_server DesktopDownloadToMobile) = None
      else \<exists>c' sv' k ok. handleConnection sodium_model os_model (demo_conn 1 []) (demo_server DesktopDownloadToMobile) =
          Some (c', sv') \<and> kept (demo_server DesktopDownloadToMobile) sv' \<and>
        disk sv' = disk (demo_server DesktopDownloadToMobile) \<and>
        sent c' = sent (demo_conn 1 []) @ take (room (demo_conn 1 [])) (stream_of ps) \<and>
        (ok \<longleftrightarrow> 5 \<le> length [9, 9, 9, 9, 9 :: u8] \<and> length (stream_of ps) \<le> room (demo_conn 1 [])) \<and>
        events sv' = events (demo_server DesktopDownloadToMobile) @
          progress_log (transferId (session_at (demo_server DesktopDownloadToMobile) 0))
            (expectedSize (session_at (demo_server DesktopDownloadToMobile) 0)) 0 (take k ps) @
          [OnFinished (transferId (session_at (demo_server DesktopDownloadToMobile) 0)) ok
            (if ok then [] else msg_send_interrupted)])"
    by (rule download_outcome [OF os_model_fs_laws demo_lengths demo_avail demo_find refl demo_token_ok])
      (simp_all add: um_find_def)
  then show ?thesis by auto
qed

text \<open>
  C19: the sender and the receiver of the code agree. When one server sends a file in a download
  and the bytes it sent are what another receives in an upload announced with the same size and
  the hash of the file, the second ends with exactly that file (its temporary name is one that the
  stream and Qt read alike).
\<close>

theorem transfer_roundtrip:
  assumes "path_laws E" and "fs_laws E V" and "fs_reliable E V" and "sha256_laws S"
    and "length uid = 16" and "length tok = 32"
    and "avail (incoming c) = handshake uid tok 1 @ data"
    and "find_session sv (uuid_string uid) = Some r" and "s = session_at sv r" and "token_ok s tok"
    and "m_running sv" and "\<not> cancelled s"
    and "fs_open_read E (disk sv) (targetFilePath s) = Some content"
    and "length content = unat (expectedSize s)"
    and "length (file_stream (length content) content) \<le> room c"
    and "handleConnection S E c sv = Some (c', sv')"
    and "length uid2 = 16" and "length tok2 = 32"
    and "avail (incoming d) = handshake uid2 tok2 0 @ drop (length (sent c)) (sent c')"
    and "find_session sw (uuid_string uid2) = Some q" and "u = session_at sw q" and "token_ok u tok2"
    and "m_running sw" and "\<not> cancelled u"
    and "plain_target E (targetFilePath u)" and "no_directory_at E V (targetFilePath u)"
    and "stream_named E (tempFilePath u)" and "expectedSize u = expectedSize s" and "expectedSha256 u = hexString (sha256 S content)"
  shows "\<exists>d' sw' p. handleConnection S E d sw = Some (d', sw') \<and>
    last (events sw') = OnFinished (transferId u) True [] \<and>
    first_free E (V (disk sw)) (tempFilePath u) (targetFilePath u) p \<and>
    V (disk sw') = (V (disk sw))(tempFilePath u := None, p := Some content)"
proof -
  let ?cs = "split_chunks kChunkPlaintextSize content"
  have "\<exists>c' sv'. handleConnection S E c sv = Some (c', sv') \<and> download_result r content 0 c sv c' sv'"
    using download_run [OF assms(2,5-8), of content S] assms(9-15) by (simp split: if_splits)
  then have "download_result r content 0 c sv c' sv'" using assms(16) by auto
  then have "sent c' = sent c @ stream_of ?cs"
    using assms(9,14,15) by (simp add: download_result_def Let_def file_stream_def)
  then have d: "avail (incoming d) = handshake uid2 tok2 0 @ stream_of ?cs @ []"
    using assms(19) by simp
  have concat: "concat ?cs = content"
    by (rule concat_split_chunks) (simp add: kChunkPlaintextSize_def)
  have "\<exists>d' sw' p. handleConnection S E d sw = Some (d', sw') \<and> kept sw sw' \<and> sent d' = sent d \<and>
    events sw' = events sw @ progress_log (transferId u) (expectedSize u) 0 ?cs @
      [OnFinished (transferId u) True []] \<and>
    first_free E (V (disk sw)) (tempFilePath u) (targetFilePath u) p \<and>
    V (disk sw') = (V (disk sw))(tempFilePath u := None, p := Some (concat ?cs))"
    by (rule upload_stores [OF assms(1-4) assms(17,18) chunks_ok_split d assms(20-27)])
      (simp_all add: concat assms(14,28,29))
  then show ?thesis unfolding concat by fastforce
qed

definition demo_receiver :: "files FileTransferServer" where
  "demo_receiver = registerTransfer (uuid_string demo_uid) ''token'' demo_token ''b.txt'' 5
     (hexString (sha256 sodium_model [9, 9, 9, 9, 9])) MobileUploadToPc (empty_server [])"

lemma demo_receiver_find: "find_session demo_receiver (uuid_string demo_uid) = Some 0"
  by (rule find_session_exact)
    (simp add: demo_receiver_def registerTransfer_def empty_server_def um_find_def um_put_def)

lemma demo_receiver_session: "session_at demo_receiver 0 = \<lparr>transferId = uuid_string demo_uid,
   tokenBase64 = ''token'', tokenBytes = demo_token, targetFilePath = ''b.txt'',
   tempFilePath = ''b.txt.part'', expectedSize = 5,
   expectedSha256 = hexString (sha256 sodium_model [9, 9, 9, 9, 9]), direction = MobileUploadToPc,
   bytesTransferred = 0, cancelled = False\<rparr>" "m_running demo_receiver"
  by (simp_all add: demo_receiver_def registerTransfer_def empty_server_def session_at_def)

theorem transfer_roundtrip_witness:
  "\<exists>c' sv' d' sw' p. handleConnection sodium_model os_model (demo_conn 1 [])
       (demo_server DesktopDownloadToMobile) = Some (c', sv') \<and>
     handleConnection sodium_model os_model (demo_conn 0 (sent c')) demo_receiver = Some (d', sw') \<and>
     um_find (disk sw') p = Some [9, 9, 9, 9, 9]"
proof -
  let ?sv = "demo_server DesktopDownloadToMobile"
  have content: "fs_open_read os_model (disk ?sv) (targetFilePath (session_at ?sv 0)) = Some [9, 9, 9, 9, 9]"
    by (simp add: um_find_def)
  obtain c' sv' where run: "handleConnection sodium_model os_model (demo_conn 1 []) ?sv = Some (c', sv')"
    using download_run [OF os_model_fs_laws demo_lengths demo_avail demo_find demo_token_ok _ _ content] by fastforce
  have stream: "length (file_stream (length [9, 9, 9, 9, 9 :: u8]) [9, 9, 9, 9, 9]) \<le> room (demo_conn 1 [])"
    by (simp add: file_stream_def split_chunks.simps kChunkPlaintextSize_def demo_conn_def)
  have in2: "avail (incoming (demo_conn 0 (sent c'))) =
      handshake demo_uid demo_token 0 @ drop (length (sent (demo_conn 1 []))) (sent c')"
    by (simp add: demo_conn_def handshake_def demo_uid_def)
  have "token_ok (session_at demo_receiver 0) demo_token"
    by (simp add: token_ok_def demo_receiver_session protocol_consts)
  moreover have "plain_target os_model (targetFilePath (session_at demo_receiver 0))"
    by (simp add: demo_receiver_session plain_target_def plain_name_def before_last_dot_def after_last_dot_def last_part_def)
  ultimately have "\<exists>d' sw' p. handleConnection sodium_model os_model (demo_conn 0 (sent c')) demo_receiver = Some (d', sw') \<and>
      last (events sw') = OnFinished (transferId (session_at demo_receiver 0)) True [] \<and>
      first_free os_model (um_find (disk demo_receiver)) (tempFilePath (session_at demo_receiver 0))
        (targetFilePath (session_at demo_receiver 0)) p \<and>
      um_find (disk sw') = (um_find (disk demo_receiver))
        (tempFilePath (session_at demo_receiver 0) := None, p := Some [9, 9, 9, 9, 9])"
    by (intro transfer_roundtrip [OF os_model_path_laws os_model_fs_laws os_model_fs_reliable
          sodium_model_sha256_laws demo_lengths demo_avail demo_find refl demo_token_ok _ _ content _
          stream run demo_lengths in2 demo_receiver_find refl _ demo_receiver_session(2) _ _ os_model_no_directory])
      (simp_all add: demo_receiver_session)
  then obtain d' sw' p where "handleConnection sodium_model os_model (demo_conn 0 (sent c')) demo_receiver = Some (d', sw')"
    "um_find (disk sw') p = Some [9, 9, 9, 9, 9]" by (metis fun_upd_same)
  with run show ?thesis by blast
qed

end
