(* ===== verification/Pairing.thy ===== *)
theory Pairing
  imports Protocol
begin

unbundle bit_operations_syntax

text \<open>
  \<^verbatim>\<open>src/core/PairingCrypto.{h,cpp}\<close> and \<^verbatim>\<open>src/core/PairingManager.{h,cpp}\<close>: the key
  derivation and base64 conversions over libsodium, the PIN, the table of paired devices, and
  the handling of a pairing request. Randomness and the machine's address are arguments: the
  number drawn by \<^verbatim>\<open>uniform_int_distribution(0, 999999)\<close>, the key pair of
  \<^verbatim>\<open>crypto_kx_keypair\<close> and the result of the host name lookup.
\<close>

section \<open>PairingCrypto\<close>

record KeyPair =
  pub :: bytes
  priv :: bytes

text \<open>The constructor; \<open>rc\<close> is the result of \<^verbatim>\<open>sodium_init\<close>.\<close>

definition newPairingCrypto :: "int \<Rightarrow> exn + unit" where
  "newPairingCrypto rc = (if rc < 0 then Inl (RuntimeError ''libsodium init failed'') else Inr ())"

text \<open>\<^verbatim>\<open>deriveShared\<close>: the xor of the two session keys; a refused peer key throws.\<close>

definition deriveShared :: "'h sodium_api \<Rightarrow> KeyPair \<Rightarrow> bytes \<Rightarrow> exn + bytes" where
  "deriveShared S local peerPub =
     (case kx_server_session_keys S (pub local) (priv local) peerPub of
        None \<Rightarrow> Inl (RuntimeError ''ECDH key derivation failed'')
      | Some (rx, tx) \<Rightarrow> Inr (map (\<lambda>i. (rx ! i) XOR (tx ! i)) [0..<32]))"

text \<open>
  \<^verbatim>\<open>toBase64\<close>: libsodium fills the whole buffer, terminator included, and the code drops the
  terminator.
\<close>

definition toBase64 :: "'h sodium_api \<Rightarrow> bytes \<Rightarrow> string" where
  "toBase64 S data =
     (let b64Len = base64_encoded_len S (length data);
          text = bin2base64 S data;
          out = text @ replicate (b64Len - length text) (CHR 0x00)
      in if out \<noteq> [] \<and> last out = CHR 0x00 then butlast out else out)"

definition fromBase64 :: "'h sodium_api \<Rightarrow> string \<Rightarrow> exn + bytes" where
  "fromBase64 S b64 =
     (case base642bin S (length b64) b64 of
        None \<Rightarrow> Inl (RuntimeError ''base64 decode failed'')
      | Some bin \<Rightarrow> Inr bin)"

lemma toBase64_text:
  assumes "base64_laws S"
  shows "toBase64 S data = bin2base64 S data"
  using assms by (simp add: toBase64_def base64_laws_def)

lemma fromBase64_toBase64:
  assumes "base64_laws S"
  shows "fromBase64 S (toBase64 S data) = Inr data"
  using assms unfolding toBase64_text [OF assms]
  by (simp add: fromBase64_def base64_laws_def)

lemma length_deriveShared: "deriveShared S kp peer = Inr k \<Longrightarrow> length k = 32"
  by (auto simp: deriveShared_def split: option.splits)

section \<open>PairingManager\<close>

text \<open>
  \<open>None\<close> in the two key fields of a device is a \<^verbatim>\<open>std::array\<close> that was never written, as
  \<^verbatim>\<open>restoreDevice\<close> leaves it.
\<close>

record PairedDevice =
  pd_deviceId :: string
  pd_deviceName :: string
  pd_peerPubKey :: "bytes option"
  pd_sharedSecret :: "bytes option"

record PairingOffer =
  pcIp :: string
  wsPort :: u16
  pin :: string
  pubKeyB64 :: string
  localKeyPair :: "KeyPair option"

record PairingManager =
  pm_wsPort :: u16
  m_devices :: "(string, PairedDevice) umap"
  m_activePin :: string
  m_activeKeyPair :: KeyPair
  m_currentOffer :: PairingOffer

definition newPairingManager :: "'h sodium_api \<Rightarrow> u16 \<Rightarrow> KeyPair \<Rightarrow> u16 \<Rightarrow> PairingManager" where
  "newPairingManager S port kp garbage = \<lparr>
     pm_wsPort = port, m_devices = [], m_activePin = [], m_activeKeyPair = kp,
     m_currentOffer = \<lparr>pcIp = [], wsPort = garbage, pin = [], pubKeyB64 = toBase64 S (pub kp),
                       localKeyPair = None\<rparr>\<rparr>"

definition generatePin :: "nat \<Rightarrow> string" where
  "generatePin n = setw0 6 n"

text \<open>
  \<^verbatim>\<open>getLocalIp\<close>: \<open>res\<close> are the addresses that the resolver returns for the host name, empty
  when it fails. The first one is taken, whatever it is.
\<close>

definition pairing_getLocalIp :: "(bytes \<Rightarrow> string) \<Rightarrow> bytes list \<Rightarrow> string" where
  "pairing_getLocalIp inet_ntop res = (case res of [] \<Rightarrow> ''127.0.0.1'' | addr # _ \<Rightarrow> inet_ntop addr)"

lemma getLocalIp_may_be_loopback:
  "pairing_getLocalIp inet_ntop ([127, 0, 0, 1] # rest) = inet_ntop [127, 0, 0, 1]"
  by (simp add: pairing_getLocalIp_def)

text \<open>\<^verbatim>\<open>createOffer\<close>: \<open>ip\<close> is the result of \<^verbatim>\<open>getLocalIp\<close>, \<open>n\<close> the number drawn.\<close>

definition createOffer ::
  "'h sodium_api \<Rightarrow> string \<Rightarrow> nat \<Rightarrow> PairingManager \<Rightarrow> PairingOffer \<times> PairingManager" where
  "createOffer S ip n pm =
     (let p = generatePin n;
          offer = (m_currentOffer pm)\<lparr>pcIp := ip, wsPort := pm_wsPort pm, pin := p,
                    pubKeyB64 := toBase64 S (pub (m_activeKeyPair pm)),
                    localKeyPair := Some (m_activeKeyPair pm)\<rparr>
      in (offer, pm\<lparr>m_currentOffer := offer, m_activePin := p\<rparr>))"

text \<open>
  \<^verbatim>\<open>handlePairRequest\<close> returns whether the device was paired, the new state, and the device
  handed to the \<^verbatim>\<open>m_onPaired\<close> callback, if it was called.
\<close>

definition handlePairRequest ::
  "'h sodium_api \<Rightarrow> string \<Rightarrow> string \<Rightarrow> string \<Rightarrow> string \<Rightarrow> PairingManager \<Rightarrow>
   exn + (bool \<times> PairingManager \<times> PairedDevice option)" where
  "handlePairRequest S p peerPubKeyB64 deviceId deviceName pm =
     (if length p \<noteq> length (m_activePin pm) then Inr (False, pm, None)
      else if sodium_memcmp S p (m_activePin pm) \<noteq> 0 then Inr (False, pm, None)
      else bindE (fromBase64 S peerPubKeyB64) (\<lambda>peerPub.
        if length peerPub \<noteq> 32 then Inr (False, pm, None)
        else bindE (deriveShared S (m_activeKeyPair pm) peerPub) (\<lambda>secret.
          let device = \<lparr>pd_deviceId = deviceId, pd_deviceName = deviceName,
                        pd_peerPubKey = Some peerPub, pd_sharedSecret = Some secret\<rparr>
          in Inr (True,
                  pm\<lparr>m_devices := um_put deviceId device (m_devices pm), m_activePin := []\<rparr>,
                  Some device))))"

definition isPaired :: "string \<Rightarrow> PairingManager \<Rightarrow> bool" where
  "isPaired deviceId pm \<longleftrightarrow> um_find (m_devices pm) deviceId \<noteq> None"

definition getDevice :: "string \<Rightarrow> PairingManager \<Rightarrow> PairedDevice option" where
  "getDevice deviceId pm = um_find (m_devices pm) deviceId"

definition restoreDevice :: "string \<Rightarrow> string \<Rightarrow> PairingManager \<Rightarrow> PairingManager" where
  "restoreDevice deviceId deviceName pm =
     pm\<lparr>m_devices := um_put deviceId
          \<lparr>pd_deviceId = deviceId, pd_deviceName = deviceName,
           pd_peerPubKey = None, pd_sharedSecret = None\<rparr> (m_devices pm)\<rparr>"

definition buildQrPayload :: "'j json_api \<Rightarrow> PairingOffer \<Rightarrow> string" where
  "buildQrPayload J offer = json_dump J (json_object J [
     (''v'', json_uint J 1),
     (''ip'', json_string J (pcIp offer)),
     (''port'', json_uint J (ucast (wsPort offer))),
     (''pin'', json_string J (pin offer)),
     (''pk'', json_string J (pubKeyB64 offer))])"

text \<open>
  The steps of the manager: the tray creates offers, the WebSocket delivers pairing requests
  (whose exceptions leave the state as it was), the start-up restores a device.
\<close>

inductive pairing_step :: "'h sodium_api \<Rightarrow> PairingManager \<Rightarrow> PairingManager \<Rightarrow> bool" for S where
  offer: "n \<le> 999999 \<Longrightarrow> pairing_step S pm (snd (createOffer S ip n pm))"
| request: "handlePairRequest S p pk did dname pm = Inr (ok, pm', dev) \<Longrightarrow> pairing_step S pm pm'"
| restore: "pairing_step S pm (restoreDevice did dname pm)"

inductive pairing_reachable :: "'h sodium_api \<Rightarrow> PairingManager \<Rightarrow> bool" for S where
  start: "pairing_reachable S (newPairingManager S port kp g)"
| step: "pairing_reachable S pm \<Longrightarrow> pairing_step S pm pm' \<Longrightarrow> pairing_reachable S pm'"


section \<open>What a request does\<close>

lemma memcmp_iff:
  "memcmp_laws S \<Longrightarrow> length a = length b \<Longrightarrow> sodium_memcmp S a b = 0 \<longleftrightarrow> a = b"
  by (simp add: memcmp_laws_def)

lemma handlePairRequest_cases:
  assumes "memcmp_laws S"
  shows "handlePairRequest S p pk did dname pm =
    (if p \<noteq> m_activePin pm then Inr (False, pm, None)
     else case fromBase64 S pk of Inl e \<Rightarrow> Inl e
     | Inr key \<Rightarrow> if length key \<noteq> 32 then Inr (False, pm, None)
       else case deriveShared S (m_activeKeyPair pm) key of Inl e \<Rightarrow> Inl e
       | Inr secret \<Rightarrow>
           let device = \<lparr>pd_deviceId = did, pd_deviceName = dname,
                 pd_peerPubKey = Some key, pd_sharedSecret = Some secret\<rparr>
           in Inr (True, pm\<lparr>m_devices := um_put did device (m_devices pm), m_activePin := []\<rparr>, Some device))"
  using memcmp_iff [OF assms]
  by (auto simp: handlePairRequest_def bindE_def Let_def split: sum.splits)

text \<open>A refused request, whatever the reason, changes nothing and calls nothing.\<close>

lemma handlePairRequest_refused:
  "handlePairRequest S p pk did dname pm = Inr (False, pm', dev) \<Longrightarrow> pm' = pm \<and> dev = None"
  by (auto simp: handlePairRequest_def bindE_Inr_iff Let_def split: if_splits)

lemma handlePairRequest_accepted:
  assumes "handlePairRequest S p pk did dname pm = Inr (True, pm', dev)"
  obtains key secret where "fromBase64 S pk = Inr key" "length key = 32"
    "deriveShared S (m_activeKeyPair pm) key = Inr secret"
    "dev = Some \<lparr>pd_deviceId = did, pd_deviceName = dname, pd_peerPubKey = Some key, pd_sharedSecret = Some secret\<rparr>"
    "pm' = pm\<lparr>m_devices := um_put did (the dev) (m_devices pm), m_activePin := []\<rparr>"
  using assms
  by (auto simp: handlePairRequest_def bindE_Inr_iff Let_def split: if_splits)

section \<open>The state invariant\<close>

text \<open>
  Devices are filed under their own id, a device with a secret has a 32-byte secret and the
  32-byte key it came from, and the active PIN is either cleared or the six digits of the
  current offer.
\<close>

definition device_ok :: "string \<Rightarrow> PairedDevice \<Rightarrow> bool" where
  "device_ok did d \<longleftrightarrow> pd_deviceId d = did \<and>
     (pd_peerPubKey d = None \<longleftrightarrow> pd_sharedSecret d = None) \<and>
     (case pd_sharedSecret d of None \<Rightarrow> True | Some k \<Rightarrow> length k = 32) \<and>
     (case pd_peerPubKey d of None \<Rightarrow> True | Some k \<Rightarrow> length k = 32)"

definition pairing_inv :: "PairingManager \<Rightarrow> bool" where
  "pairing_inv pm \<longleftrightarrow> um_wf (m_devices pm) \<and>
     (\<forall>did d. um_find (m_devices pm) did = Some d \<longrightarrow> device_ok did d) \<and>
     (m_activePin pm = [] \<or>
      m_activePin pm = pin (m_currentOffer pm) \<and> length (m_activePin pm) = 6 \<and>
      list_all is_digit (m_activePin pm))"

lemma generatePin_digits:
  "n \<le> 999999 \<Longrightarrow> length (generatePin n) = 6"
  "list_all is_digit (generatePin n)"
  "dec_value (generatePin n) = n"
  unfolding generatePin_def
  by (simp_all add: length_setw0 setw0_digits) (simp add: setw0_def dec_value_leading_zeros)

lemma pairing_inv_put:
  assumes "pairing_inv pm" and "device_ok did d" and "pn = [] \<or> pn = m_activePin pm"
  shows "pairing_inv (pm\<lparr>m_devices := um_put did d (m_devices pm), m_activePin := pn\<rparr>)"
  using assms by (auto simp: pairing_inv_def)

lemma pairing_step_inv:
  assumes "pairing_step S pm pm'" and "pairing_inv pm"
  shows "pairing_inv pm'"
  using assms(1)
proof (cases rule: pairing_step.cases)
  case (offer n ip)
  then show ?thesis
    using assms(2) by (auto simp: pairing_inv_def createOffer_def Let_def generatePin_digits)
next
  case (request p pk did dname ok dev)
  show ?thesis
  proof (cases ok)
    case False
    with request assms(2) show ?thesis by (auto dest: handlePairRequest_refused)
  next
    case True
    with request have "handlePairRequest S p pk did dname pm = Inr (True, pm', dev)" by simp
    then show ?thesis
    proof (rule handlePairRequest_accepted)
      fix key secret
      assume *: "length key = 32" "deriveShared S (m_activeKeyPair pm) key = Inr secret"
        "dev = Some \<lparr>pd_deviceId = did, pd_deviceName = dname, pd_peerPubKey = Some key, pd_sharedSecret = Some secret\<rparr>"
        "pm' = pm\<lparr>m_devices := um_put did (the dev) (m_devices pm), m_activePin := []\<rparr>"
      then have "device_ok did (the dev)"
        by (simp add: device_ok_def length_deriveShared)
      with * show ?thesis by (simp add: pairing_inv_put [OF assms(2)])
    qed
  qed
next
  case (restore did dname)
  then show ?thesis
    using pairing_inv_put [OF assms(2), of did _ "m_activePin pm"]
    by (simp add: restoreDevice_def device_ok_def)
qed

section \<open>Properties\<close>

text \<open>
  C21: in every state the manager can reach, devices are filed under their own id, every stored
  secret and peer key is 32 bytes long, and the active PIN is either cleared or the six digits
  of the offer being shown.
\<close>

theorem pairing_reachable_inv: "pairing_reachable S pm \<Longrightarrow> pairing_inv pm"
proof (induction rule: pairing_reachable.induct)
  case (start port kp g)
  then show ?case by (simp add: pairing_inv_def newPairingManager_def)
next
  case (step pm pm')
  then show ?case by (blast intro: pairing_step_inv)
qed

theorem pairing_reachable_inv_witness:
  "pairing_inv (restoreDevice ''phone'' ''Pixel''
     (newPairingManager sodium_model 45678 \<lparr>pub = replicate 32 1, priv = replicate 32 2\<rparr> 0))"
  by (rule pairing_reachable_inv [of sodium_model])
    (rule pairing_reachable.step [OF pairing_reachable.start], rule pairing_step.restore)

text \<open>
  C20: a pairing request succeeds exactly when its PIN is the active PIN, its key decodes to 32
  bytes and libsodium derives a secret from it; then the device is stored with that key and
  secret, the PIN is cleared, and every other device is as before.
\<close>

theorem pair_request_succeeds_iff:
  assumes "memcmp_laws S"
  shows "handlePairRequest S p pk did dname pm = Inr (True, pm', dev) \<longleftrightarrow>
    p = m_activePin pm \<and>
    (\<exists>key secret. fromBase64 S pk = Inr key \<and> length key = 32 \<and>
       deriveShared S (m_activeKeyPair pm) key = Inr secret \<and>
       dev = Some \<lparr>pd_deviceId = did, pd_deviceName = dname,
                   pd_peerPubKey = Some key, pd_sharedSecret = Some secret\<rparr> \<and>
       pm' = pm\<lparr>m_devices := um_put did (the dev) (m_devices pm), m_activePin := []\<rparr>)"
  unfolding handlePairRequest_cases [OF assms]
  by (auto simp: Let_def split: sum.splits)

definition demo_keys :: KeyPair where
  "demo_keys = \<lparr>pub = replicate 32 1, priv = replicate 32 2\<rparr>"

definition demo_pm :: PairingManager where
  "demo_pm = snd (createOffer sodium_model ''192.168.0.2'' 42
     (newPairingManager sodium_model 45678 demo_keys 0))"

lemma demo_pm_sels:
  "m_activePin demo_pm = generatePin 42" "m_devices demo_pm = []" "m_activeKeyPair demo_pm = demo_keys"
  by (simp_all add: demo_pm_def createOffer_def newPairingManager_def Let_def)

lemma demo_deriveShared:
  "length peer = 32 \<Longrightarrow> deriveShared sodium_model kp peer = Inr (replicate 32 3)"
  by (simp add: deriveShared_def nth_replicate list_eq_iff_nth_eq)

lemma demo_request:
  assumes "p = m_activePin pm"
  shows "handlePairRequest sodium_model p (toBase64 sodium_model (replicate 32 7)) did dname pm =
    Inr (True, pm\<lparr>m_devices := um_put did
        \<lparr>pd_deviceId = did, pd_deviceName = dname, pd_peerPubKey = Some (replicate 32 7),
         pd_sharedSecret = Some (replicate 32 3)\<rparr> (m_devices pm), m_activePin := []\<rparr>,
      Some \<lparr>pd_deviceId = did, pd_deviceName = dname, pd_peerPubKey = Some (replicate 32 7),
         pd_sharedSecret = Some (replicate 32 3)\<rparr>)"
  using assms
  by (simp add: handlePairRequest_cases [OF sodium_model_memcmp_laws]
      fromBase64_toBase64 [OF sodium_model_base64_laws] demo_deriveShared Let_def)

theorem pair_request_succeeds_iff_witness:
  "generatePin 42 = m_activePin demo_pm \<and>
   (\<exists>key. fromBase64 sodium_model (toBase64 sodium_model (replicate 32 7)) = Inr key \<and> length key = 32)"
  using pair_request_succeeds_iff [OF sodium_model_memcmp_laws, THEN iffD1,
      OF demo_request [of "generatePin 42" demo_pm "''phone''" "''Pixel''"]]
  by (auto simp: demo_pm_sels)

text \<open>
  C11: the PIN is good for one pairing only: once a request with a non-empty PIN has succeeded,
  every request that presents the same PIN again is refused and changes nothing, until a new
  offer is created.
\<close>

theorem pin_single_use:
  assumes "memcmp_laws S" and "handlePairRequest S p pk did dname pm = Inr (True, pm', dev)" and "p \<noteq> []"
  shows "handlePairRequest S p pk' did' dname' pm' = Inr (False, pm', None)"
proof -
  from assms(2) have "m_activePin pm' = []"
    unfolding pair_request_succeeds_iff [OF assms(1)] by auto
  with assms(3) show ?thesis by (simp add: handlePairRequest_cases [OF assms(1)])
qed

theorem pin_single_use_witness:
  "\<exists>pm'. handlePairRequest sodium_model (generatePin 42) ''00'' ''other'' ''Other'' pm' = Inr (False, pm', None)
     \<and> isPaired ''phone'' pm'"
proof -
  have "generatePin 42 \<noteq> []"
    using generatePin_digits(1) [of 42] by auto
  from pin_single_use [OF sodium_model_memcmp_laws
      demo_request [of "generatePin 42" demo_pm "''phone''" "''Pixel''"] this, of "''00''" "''other''" "''Other''"]
  show ?thesis by (auto simp: demo_pm_sels isPaired_def)
qed

text \<open>
  C38: the cleared PIN is itself a PIN: in every state whose active PIN has been cleared (the
  state the constructor leaves, and the state every successful pairing leaves) a request with
  the empty PIN and any well-formed key is accepted, although no offer is open.
\<close>

theorem empty_pin_accepted:
  assumes "memcmp_laws S" and "base64_laws S"
    and "length key = 32" and "deriveShared S (m_activeKeyPair pm) key = Inr secret"
    and "m_activePin pm = [] \<or> handlePairRequest S p pk d n pm0 = Inr (True, pm, dev)"
  shows "\<exists>pm' dev'. handlePairRequest S [] (toBase64 S key) did dname pm = Inr (True, pm', Some dev')
     \<and> getDevice did pm' = Some dev'"
proof -
  from assms(5) have "m_activePin pm = []"
    unfolding pair_request_succeeds_iff [OF assms(1)] by auto
  then show ?thesis
    using assms(3,4)
    by (simp add: handlePairRequest_cases [OF assms(1)] fromBase64_toBase64 [OF assms(2)]
        Let_def getDevice_def)
qed

theorem empty_pin_accepted_witness:
  "\<exists>pm' dev'. handlePairRequest sodium_model [] (toBase64 sodium_model (replicate 32 9)) ''evil'' ''Evil''
      (newPairingManager sodium_model 45678 demo_keys 0) = Inr (True, pm', Some dev')
     \<and> getDevice ''evil'' pm' = Some dev'"
  by (rule empty_pin_accepted [OF sodium_model_memcmp_laws sodium_model_base64_laws _ demo_deriveShared])
    (simp_all add: newPairingManager_def)

text \<open>
  The phone can compute the same secret. With the documented symmetry of the key exchange,
  the phone's own session keys, xored byte by byte, give the secret the PC stores: the xor does
  not depend on which of the two keys is called rx and which tx.
\<close>

lemma shared_secret_agreement:
  assumes "kx_laws S kx_client keypair"
    and "keypair (pub local) (priv local)" and "keypair cpk csk"
    and "deriveShared S local cpk = Inr secret"
  shows "\<exists>rx tx. kx_client cpk csk (pub local) = Some (rx, tx) \<and>
    length secret = 32 \<and> secret = map2 (\<lambda>a b. a XOR b) rx tx"
proof -
  from assms(4) obtain rx tx where kx: "kx_server_session_keys S (pub local) (priv local) cpk = Some (rx, tx)"
    and secret: "secret = map (\<lambda>i. (rx ! i) XOR (tx ! i)) [0..<32]"
    by (auto simp: deriveShared_def split: option.splits)
  with assms(1-3) have "kx_client cpk csk (pub local) = Some (tx, rx)"
    and len: "length rx = 32" "length tx = 32"
    unfolding kx_laws_def by blast+
  moreover have "secret = map2 (\<lambda>a b. a XOR b) tx rx"
    unfolding secret using len by (intro nth_equalityI) (simp_all add: xor.commute)
  ultimately show ?thesis using secret by auto
qed

text \<open>
  The base64 text that travels in the QR code and on the WebSocket decodes back to the
  bytes it was made from: dropping the terminator loses nothing and the decoding buffer, as
  long as the text, is long enough.
\<close>

lemma base64_roundtrip:
  assumes "base64_laws S"
  shows "fromBase64 S (toBase64 S data) = Inr data \<and> CHR 0x00 \<notin> set (toBase64 S data)"
  using fromBase64_toBase64 [OF assms] toBase64_text [OF assms] assms
  by (simp add: base64_laws_def)

text \<open>
  The PIN of an offer is always six decimal digits, leading zeros included, and it
  determines the number drawn, so all 1,000,000 numbers give different PINs.
\<close>

lemma offer_pin_format:
  assumes "n \<le> 999999"
  shows "length (pin (fst (createOffer S ip n pm))) = 6 \<and>
    list_all is_digit (pin (fst (createOffer S ip n pm))) \<and>
    dec_value (pin (fst (createOffer S ip n pm))) = n \<and>
    m_activePin (snd (createOffer S ip n pm)) = pin (fst (createOffer S ip n pm))"
  using assms by (simp add: createOffer_def Let_def generatePin_digits)

end
