(* ===== verification/FileTransferManager.thy ===== *)
theory FileTransferManager
  imports TransferTable TransferDownload Pairing
begin

text \<open>
  \<^verbatim>\<open>src/core/FileTransferManager.{h,cpp}\<close>: the owner of the transfer server. It turns the
  WebSocket's file messages into entries of the server's table, answers them, and turns the
  server's callbacks into \<^verbatim>\<open>file_complete\<close> messages and Qt signals. What it hands to
  \<^verbatim>\<open>WsServer::sendTo\<close> is appended to \<open>outbox\<close>, what it emits to \<open>signals\<close>. The
  pairing manager it is given is stored and never used.
\<close>

section \<open>The platform\<close>

text \<open>
  \<^verbatim>\<open>QFileInfo::isDir\<close>, \<^verbatim>\<open>QFileInfo::size\<close>, the two \<^verbatim>\<open>QStandardPaths\<close> answers, and
  libsodium's random bytes as an infinite sequence of which \<open>m_rng\<close> have been used.
\<close>

record 'f platform_api =
  fi_isDir :: "'f \<Rightarrow> string \<Rightarrow> bool"
  fi_size :: "'f \<Rightarrow> string \<Rightarrow> u64"
  downloadLocation :: string
  homePath :: string
  randombytes :: "nat \<Rightarrow> u8"

section \<open>State\<close>

record TransferMeta =
  tm_sessionId :: u64
  tm_offer :: FileOffer
  tm_filePath :: string

datatype manager_signal =
    TransferProgress string u64 u64
  | TransferFinished string string bool string

record 'f FileTransferManager =
  m_server :: "'f FileTransferServer"
  m_activeOffers :: "(string, TransferMeta) umap"
  m_currentSessionId :: u64
  m_rng :: nat
  outbox :: "(u64 \<times> string) list"
  signals :: "manager_signal list"

definition newFileTransferManager :: "'f \<Rightarrow> 'f FileTransferManager" where
  "newFileTransferManager f = \<lparr>
     m_server = \<lparr>m_running = False, m_store = [], m_sessions = [], disk = f, events = []\<rparr>,
     m_activeOffers = [], m_currentSessionId = 0, m_rng = 0, outbox = [], signals = []\<rparr>"

definition sendTo :: "u64 \<Rightarrow> string \<Rightarrow> 'f FileTransferManager \<Rightarrow> 'f FileTransferManager" where
  "sendTo sid text m = m\<lparr>outbox := outbox m @ [(sid, text)]\<rparr>"

definition raise_signal :: "manager_signal \<Rightarrow> 'f FileTransferManager \<Rightarrow> 'f FileTransferManager" where
  "raise_signal sg m = m\<lparr>signals := signals m @ [sg]\<rparr>"

section \<open>The callbacks of the server\<close>

definition onProgress :: "string \<Rightarrow> u64 \<Rightarrow> u64 \<Rightarrow> 'f FileTransferManager \<Rightarrow> 'f FileTransferManager" where
  "onProgress tid n tot m = raise_signal (TransferProgress tid n tot) m"

definition onFinished ::
  "'j json_api \<Rightarrow> string \<Rightarrow> bool \<Rightarrow> string \<Rightarrow> 'f FileTransferManager \<Rightarrow> 'f FileTransferManager" where
  "onFinished J tid success err m =
     (let (sessionId, name) = (case um_find (m_activeOffers m) tid of
            Some meta \<Rightarrow> (tm_sessionId meta, fo_name (tm_offer meta)) | None \<Rightarrow> (0, []));
          reply = [(''type'', json_string J ''file_complete''), (''transferId'', json_string J tid),
                   (''ok'', json_bool J success)] @
                  (if \<not> success \<and> err \<noteq> [] then [(''error'', json_string J err)] else []);
          m1 = (if sessionId \<noteq> 0 then sendTo sessionId (json_dump J (json_object J reply)) m else m);
          m2 = raise_signal (TransferFinished tid name success err) m1
      in m2\<lparr>m_activeOffers := um_erase tid (m_activeOffers m2)\<rparr>)"

text \<open>The callbacks are called in the order in which the server reports.\<close>

fun on_event :: "'j json_api \<Rightarrow> server_event \<Rightarrow> 'f FileTransferManager \<Rightarrow> 'f FileTransferManager" where
  "on_event J (OnProgress tid n tot) m = onProgress tid n tot m"
| "on_event J (OnFinished tid ok err) m = onFinished J tid ok err m"

text \<open>
  A connection thread with its callbacks: the callbacks do not touch the server, so running
  them behind the thread, in the order of their calls, is running them where they are called.
\<close>

definition manager_connection ::
  "'j json_api \<Rightarrow> 'h sodium_api \<Rightarrow> 'f os_api \<Rightarrow> connection \<Rightarrow> 'f FileTransferManager \<Rightarrow>
   (connection \<times> 'f FileTransferManager) option" where
  "manager_connection J S E c m =
     (case handleConnection S E c (m_server m) of
        None \<Rightarrow> None
      | Some (c', sv') \<Rightarrow>
          Some (c', fold (on_event J) (drop (length (events (m_server m))) (events sv')) (m\<lparr>m_server := sv'\<rparr>)))"

text \<open>
  One step of a connection thread, with the callbacks it calls; \<open>manager_thread\<close> runs them to the
  end. That it is \<open>manager_connection\<close> is proved (\<open>callbacks_in_place\<close>).
\<close>

definition manager_turn ::
  "'j json_api \<Rightarrow> 'h sodium_api \<Rightarrow> 'f os_api \<Rightarrow> 'h phase \<Rightarrow> connection \<Rightarrow> 'f FileTransferManager \<Rightarrow>
   ('h phase \<times> connection \<times> 'f FileTransferManager) option" where
  "manager_turn J S E ph c m =
     (case conn_step S E ph c (m_server m) of
        None \<Rightarrow> None
      | Some (ph', c', sv') \<Rightarrow>
          Some (ph', c', fold (on_event J) (drop (length (events (m_server m))) (events sv')) (m\<lparr>m_server := sv'\<rparr>)))"

partial_function (option) manager_thread ::
  "'j json_api \<Rightarrow> 'h sodium_api \<Rightarrow> 'f os_api \<Rightarrow> 'h phase \<Rightarrow> connection \<Rightarrow> 'f FileTransferManager \<Rightarrow>
   (connection \<times> 'f FileTransferManager) option" where
  [code]: "manager_thread J S E ph c m =
     (if ph = Closed then Some (c, m)
      else Option.bind (manager_turn J S E ph c m) (\<lambda>(ph', c', m'). manager_thread J S E ph' c' m'))"

section \<open>Names, paths and tokens\<close>

definition manager_start :: "bool \<Rightarrow> 'f FileTransferManager \<Rightarrow> bool \<times> 'f FileTransferManager" where
  "manager_start bound m =
     (let (ok, sv) = server_start bound (m_server m) in (ok, m\<lparr>m_server := sv\<rparr>))"

definition manager_stop :: "'f os_api \<Rightarrow> 'f FileTransferManager \<Rightarrow> 'f FileTransferManager" where
  "manager_stop E m = m\<lparr>m_server := server_stop E (m_server m)\<rparr>"

definition setCurrentSession :: "u64 \<Rightarrow> 'f FileTransferManager \<Rightarrow> 'f FileTransferManager" where
  "setCurrentSession sid m = m\<lparr>m_currentSessionId := sid\<rparr>"

definition defaultDownloadDir :: "'f platform_api \<Rightarrow> string" where
  "defaultDownloadDir P =
     (let downloads = (if downloadLocation P = [] then homePath P @ ''/Downloads'' else downloadLocation P)
      in downloads @ ''/Iriseus'')"

text \<open>The characters of the regular expression \<^verbatim>\<open>[\\/:*?"<>|]\<close>.\<close>

definition reserved_chars :: "char list" where
  "reserved_chars = [CHR 0x5C, CHR ''/'', CHR '':'', CHR ''*'', CHR ''?'', CHR 0x22, CHR ''<'', CHR ''>'', CHR ''|'']"

definition sanitizeFileName :: "'f os_api \<Rightarrow> string \<Rightarrow> string" where
  "sanitizeFileName E name =
     (let clean = filter (\<lambda>ch. ch \<notin> set reserved_chars) (fileName E name)
      in if clean = [] then ''arquivo_recebido'' else clean)"

definition randombytes_buf ::
  "'f platform_api \<Rightarrow> nat \<Rightarrow> 'f FileTransferManager \<Rightarrow> bytes \<times> 'f FileTransferManager" where
  "randombytes_buf P n m = (map (\<lambda>i. randombytes P (m_rng m + i)) [0..<n], m\<lparr>m_rng := m_rng m + n\<rparr>)"

definition generateToken ::
  "'h sodium_api \<Rightarrow> 'f platform_api \<Rightarrow> 'f FileTransferManager \<Rightarrow> string \<times> bytes \<times> 'f FileTransferManager" where
  "generateToken S P m =
     (let (tokBytes, m1) = randombytes_buf P kTokenSize m in (toBase64 S tokBytes, tokBytes, m1))"

definition ready_message :: "'j json_api \<Rightarrow> string \<Rightarrow> string \<Rightarrow> string" where
  "ready_message J tid tokB64 = json_dump J (json_object J [
     (''type'', json_string J ''file_ready''), (''transferId'', json_string J tid),
     (''port'', json_uint J (ucast kFileTransferPort)), (''token'', json_string J tokB64)])"

definition accept_message :: "'j json_api \<Rightarrow> string \<Rightarrow> string" where
  "accept_message J tid = json_dump J (json_object J [
     (''type'', json_string J ''file_accept''), (''transferId'', json_string J tid)])"

definition on_server ::
  "('f FileTransferServer \<Rightarrow> 'f FileTransferServer) \<Rightarrow> 'f FileTransferManager \<Rightarrow> 'f FileTransferManager" where
  "on_server g m = m\<lparr>m_server := g (m_server m)\<rparr>"

section \<open>The message handlers\<close>

text \<open>
  \<^verbatim>\<open>handleFileOffer\<close>: the only handler with a \<^verbatim>\<open>catch\<close>. A payload with a field of the wrong
  type throws before anything has been done.
\<close>

definition handleFileOffer ::
  "'j json_api \<Rightarrow> 'h sodium_api \<Rightarrow> 'f os_api \<Rightarrow> 'f platform_api \<Rightarrow> u64 \<Rightarrow> 'j \<Rightarrow>
   'f FileTransferManager \<Rightarrow> 'f FileTransferManager" where
  "handleFileOffer J S E P sessionId payload m =
     (case from_json J payload of
        Inl e \<Rightarrow> m
      | Inr offer \<Rightarrow>
          let m1 = sendTo sessionId (accept_message J (fo_transferId offer)) m;
              (tokB64, tokBytes, m2) = generateToken S P m1;
              downloadFolder = defaultDownloadDir P;
              m3 = on_server (\<lambda>sv. sv\<lparr>disk := fs_mkpath E (disk sv) downloadFolder\<rparr>) m2;
              fullPath = downloadFolder @ ''/'' @ sanitizeFileName E (fo_name offer);
              m4 = m3\<lparr>m_activeOffers := um_put (fo_transferId offer)
                     \<lparr>tm_sessionId = sessionId, tm_offer = offer, tm_filePath = []\<rparr> (m_activeOffers m3)\<rparr>;
              m5 = on_server (registerTransfer (fo_transferId offer) tokB64 tokBytes fullPath
                     (fo_size offer) (fo_sha256 offer) MobileUploadToPc) m4
          in sendTo sessionId (ready_message J (fo_transferId offer) tokB64) m5)"

text \<open>The loop that hashes a file in pieces of 64 KiB.\<close>

function hash_loop :: "'h sodium_api \<Rightarrow> 'h \<Rightarrow> bytes \<Rightarrow> 'h" where
  "hash_loop S h content =
     (if content = [] then h
      else hash_loop S (sha256_update S h (take 65536 content)) (drop 65536 content))"
  by pat_completeness auto
termination by (relation "measure (\<lambda>(S, h, content). length content)") auto

declare hash_loop.simps [simp del]

definition send_one ::
  "'j json_api \<Rightarrow> 'h sodium_api \<Rightarrow> 'f os_api \<Rightarrow> 'f platform_api \<Rightarrow> u64 \<Rightarrow> string \<Rightarrow>
   'f FileTransferManager \<Rightarrow> 'f FileTransferManager" where
  "send_one J S E P sessionId path m =
     (let f = disk (m_server m) in
      if \<not> fs_exists E f path \<or> fi_isDir P f path then m
      else
        let (uuidBytes, m1) = randombytes_buf P 16 m;
            tid = uuid_string uuidBytes
        in (case fs_open_read E f path of
              None \<Rightarrow> m1
            | Some content \<Rightarrow>
                let sha256Hex = hexString (sha256_final S (hash_loop S (sha256_init S) content));
                    offer = \<lparr>fo_transferId = tid, fo_name = fileName E path, fo_size = fi_size P f path,
                             fo_mime = ''application/octet-stream'', fo_sha256 = sha256Hex\<rparr>;
                    m2 = m1\<lparr>m_activeOffers := um_put tid
                           \<lparr>tm_sessionId = sessionId, tm_offer = offer, tm_filePath = path\<rparr> (m_activeOffers m1)\<rparr>;
                    (tokB64, tokBytes, m3) = generateToken S P m2;
                    m4 = on_server (registerTransfer tid tokB64 tokBytes path (fo_size offer)
                           sha256Hex DesktopDownloadToMobile) m3
                in sendTo sessionId (json_dump J (to_json J offer)) m4))"

definition sendFiles ::
  "'j json_api \<Rightarrow> 'h sodium_api \<Rightarrow> 'f os_api \<Rightarrow> 'f platform_api \<Rightarrow> u64 \<Rightarrow> string list \<Rightarrow>
   'f FileTransferManager \<Rightarrow> 'f FileTransferManager" where
  "sendFiles J S E P sessionId paths m =
     (let sid = (if sessionId = 0 \<and> m_currentSessionId m \<noteq> 0 then m_currentSessionId m else sessionId)
      in if sid = 0 then m else fold (send_one J S E P sid) paths m)"

definition handleFileAccept ::
  "'j json_api \<Rightarrow> 'h sodium_api \<Rightarrow> 'f platform_api \<Rightarrow> u64 \<Rightarrow> 'j \<Rightarrow>
   'f FileTransferManager \<Rightarrow> exn + 'f FileTransferManager" where
  "handleFileAccept J S P sessionId payload m =
     bindE (value_string J payload ''transferId'' '''') (\<lambda>tid.
       Inr (if tid = [] then m
         else case um_find (m_activeOffers m) tid of
           None \<Rightarrow> m
         | Some meta \<Rightarrow>
             let (tokB64, tokBytes, m1) = generateToken S P m;
                 m2 = on_server (registerTransfer tid tokB64 tokBytes (tm_filePath meta)
                        (fo_size (tm_offer meta)) (fo_sha256 (tm_offer meta)) DesktopDownloadToMobile) m1
             in sendTo sessionId (ready_message J tid tokB64) m2))"

text \<open>The common body of \<^verbatim>\<open>handleFileReject\<close> and \<^verbatim>\<open>handleFileCancel\<close>.\<close>

definition forget_transfer :: "'f os_api \<Rightarrow> string \<Rightarrow> 'f FileTransferManager \<Rightarrow> 'f FileTransferManager" where
  "forget_transfer E tid m =
     (let m1 = on_server (cancelTransfer E tid) m
      in m1\<lparr>m_activeOffers := um_erase tid (m_activeOffers m1)\<rparr>)"

definition handleFileReject ::
  "'j json_api \<Rightarrow> 'f os_api \<Rightarrow> u64 \<Rightarrow> 'j \<Rightarrow> 'f FileTransferManager \<Rightarrow> exn + 'f FileTransferManager" where
  "handleFileReject J E sessionId payload m =
     bindE (value_string J payload ''transferId'' '''') (\<lambda>tid.
       Inr (if tid \<noteq> [] then forget_transfer E tid m else m))"

definition handleFileComplete ::
  "'j json_api \<Rightarrow> u64 \<Rightarrow> 'j \<Rightarrow> 'f FileTransferManager \<Rightarrow> exn + 'f FileTransferManager" where
  "handleFileComplete J sessionId payload m =
     bindE (value_string J payload ''transferId'' '''') (\<lambda>tid.
     bindE (value_bool J payload ''ok'' False) (\<lambda>ok.
     bindE (value_string J payload ''error'' '''') (\<lambda>err.
       Inr (case um_find (m_activeOffers m) tid of
              None \<Rightarrow> m
            | Some meta \<Rightarrow>
                let m1 = raise_signal (TransferFinished tid (fo_name (tm_offer meta)) ok err) m
                in m1\<lparr>m_activeOffers := um_erase tid (m_activeOffers m1)\<rparr>))))"

definition handleFileCancel ::
  "'j json_api \<Rightarrow> 'f os_api \<Rightarrow> u64 \<Rightarrow> 'j \<Rightarrow> 'f FileTransferManager \<Rightarrow> exn + 'f FileTransferManager" where
  "handleFileCancel J E sessionId payload m =
     bindE (value_string J payload ''transferId'' '''') (\<lambda>tid.
       Inr (if tid \<noteq> [] then forget_transfer E tid m else m))"

end
