(* ===== verification/ManagerSteps.thy ===== *)
theory ManagerSteps
  imports FileTransferManager
begin

text \<open>
  What the operations of the file transfer manager keep: its server stays well formed, every
  session it ever authorised has a token of 32 bytes, and the table of offers stays a map. The
  manager's lemmas over the server's table are proved from the contract \<open>transfer_table\<close>.
\<close>

section \<open>Projections\<close>

lemma manager_sels [simp]:
  "m_server (sendTo sid text m) = m_server m"
  "m_activeOffers (sendTo sid text m) = m_activeOffers m"
  "m_currentSessionId (sendTo sid text m) = m_currentSessionId m"
  "outbox (sendTo sid text m) = outbox m @ [(sid, text)]"
  "signals (sendTo sid text m) = signals m"
  "m_rng (sendTo sid text m) = m_rng m"
  "m_server (raise_signal sg m) = m_server m"
  "m_activeOffers (raise_signal sg m) = m_activeOffers m"
  "outbox (raise_signal sg m) = outbox m"
  "signals (raise_signal sg m) = signals m @ [sg]"
  "m_server (on_server g m) = g (m_server m)"
  "m_activeOffers (on_server g m) = m_activeOffers m"
  "outbox (on_server g m) = outbox m"
  "signals (on_server g m) = signals m"
  "m_rng (on_server g m) = m_rng m"
  by (simp_all add: sendTo_def raise_signal_def on_server_def)

lemma onProgress_sels [simp]:
  "m_server (onProgress tid n tot m) = m_server m"
  "m_activeOffers (onProgress tid n tot m) = m_activeOffers m"
  "outbox (onProgress tid n tot m) = outbox m"
  by (simp_all add: onProgress_def)

lemma onFinished_sels [simp]:
  "m_server (onFinished J tid ok err m) = m_server m"
  "m_activeOffers (onFinished J tid ok err m) = um_erase tid (m_activeOffers m)"
  by (simp_all add: onFinished_def Let_def split: prod.split)

lemma on_event_server [simp]: "m_server (on_event J ev m) = m_server m"
  by (cases ev) simp_all

lemma fold_on_event_server [simp]: "m_server (fold (on_event J) evs m) = m_server m"
  by (induction evs arbitrary: m) simp_all

lemma fold_on_event_offers: "um_wf (m_activeOffers m) \<Longrightarrow> um_wf (m_activeOffers (fold (on_event J) evs m))"
proof (induction evs arbitrary: m)
  case (Cons ev evs)
  then have "um_wf (m_activeOffers (on_event J ev m))" by (cases ev) auto
  then show ?case using Cons.IH by simp
qed simp

definition token_bytes :: "'f platform_api \<Rightarrow> nat \<Rightarrow> bytes" where
  "token_bytes P n = map (\<lambda>i. randombytes P (n + i)) [0..<kTokenSize]"

lemma length_token_bytes [simp]: "length (token_bytes P n) = kTokenSize"
  by (simp add: token_bytes_def)

lemma generateToken_eq:
  "generateToken S P m =
     (toBase64 S (token_bytes P (m_rng m)), token_bytes P (m_rng m), m\<lparr>m_rng := m_rng m + kTokenSize\<rparr>)"
  by (simp add: generateToken_def randombytes_buf_def token_bytes_def)

lemma forget_transfer_sels [simp]:
  "m_server (forget_transfer E tid m) = cancelTransfer E tid (m_server m)"
  "m_activeOffers (forget_transfer E tid m) = um_erase tid (m_activeOffers m)"
  "outbox (forget_transfer E tid m) = outbox m"
  "signals (forget_transfer E tid m) = signals m"
  by (simp_all add: forget_transfer_def Let_def)

lemma hash_loop_eq:
  assumes "sha256_laws S"
  shows "hash_loop S h content = sha256_update S h content"
  using assms
proof (induction S h content rule: hash_loop.induct)
  case (1 S h content)
  show ?case
  proof (cases "content = []")
    case True
    then show ?thesis by (simp add: hash_loop.simps sha256_lawsD(2) [OF "1.prems"])
  next
    case False
    then have "hash_loop S h content = hash_loop S (sha256_update S h (take 65536 content)) (drop 65536 content)"
      by (simp add: hash_loop.simps [of S h content])
    also have "\<dots> = sha256_update S h content"
      unfolding "1.IH" [OF False "1.prems"] sha256_lawsD(1) [OF "1.prems"] append_take_drop_id ..
    finally show ?thesis .
  qed
qed

section \<open>Well-formed servers\<close>

definition good_server :: "'f FileTransferServer \<Rightarrow> bool" where
  "good_server sv \<longleftrightarrow> server_inv sv \<and> list_all (\<lambda>s. length (tokenBytes s) = kTokenSize) (m_store sv)"

lemma good_map:
  "list_all (\<lambda>s. length (tokenBytes s) = kTokenSize) xs \<longleftrightarrow>
   list_all (\<lambda>b. length b = kTokenSize) (map tokenBytes xs)"
  by (induction xs) auto

lemma good_register:
  assumes "good_server sv" and "length tok = kTokenSize"
  shows "good_server (registerTransfer k b tok p n h d sv)"
  using assms tt.inv_register [of sv k b tok p n h d] by (simp add: good_server_def new_session_def)

lemma good_disk: "good_server sv \<Longrightarrow> good_server (sv\<lparr>disk := f\<rparr>)"
  by (simp add: good_server_def server_inv_def)

lemma good_same_tokens:
  "good_server sv \<Longrightarrow> server_inv sv' \<Longrightarrow> map tokenBytes (m_store sv') = map tokenBytes (m_store sv) \<Longrightarrow>
   good_server sv'"
  unfolding good_server_def good_map by simp

lemma good_inv: "good_server sv \<Longrightarrow> server_inv sv"
  by (simp add: good_server_def)

lemma fold_cancel_tokens:
  "map tokenBytes (m_store (fold (cancel_session E) rs sv)) = map tokenBytes (m_store sv)"
  by (induction rs arbitrary: sv) (simp_all add: cancel_session_paths)

lemma table_tokens:
  "map tokenBytes (m_store (cancelTransfer E k sv)) = map tokenBytes (m_store sv)"
  "map tokenBytes (m_store (server_stop E sv)) = map tokenBytes (m_store sv)"
  "map tokenBytes (m_store (snd (server_start bound sv))) = map tokenBytes (m_store sv)"
  by (simp_all add: cancelTransfer_def server_stop_def server_start_def Let_def cancel_session_paths
      fold_cancel_tokens split: option.split)

lemma good_cancel: "good_server sv \<Longrightarrow> good_server (cancelTransfer E k sv)"
  by (rule good_same_tokens [OF _ tt.inv_cancel [OF good_inv] table_tokens(1)])

lemma good_stop: "good_server sv \<Longrightarrow> good_server (server_stop E sv)"
  by (rule good_same_tokens [OF _ server_inv_stop [OF good_inv] table_tokens(2)])

lemma good_start: "good_server sv \<Longrightarrow> good_server (snd (server_start bound sv))"
  by (rule good_same_tokens [OF _ server_inv_start [OF good_inv] table_tokens(3)])

lemma good_kept:
  assumes "good_server sv" and "kept sv sv'"
  shows "good_server sv'"
proof (rule good_same_tokens [OF assms(1)])
  show "server_inv sv'" using kept_inv [OF assms(2)] assms(1) by (simp add: good_server_def)
  show "map tokenBytes (m_store sv') = map tokenBytes (m_store sv)"
    using assms(2) kept_fields(2) [OF kept_static [OF assms(2)]]
    by (intro nth_equalityI) (simp_all add: kept_def session_at_def)
qed

lemma handleConnection_kept:
  fixes S :: "'h sodium_api"
  assumes "handleConnection S E c sv = Some (c', sv')"
  shows "kept sv sv'"
proof -
  have step: "kept sv sv2"
    if "kept sv sv1" "conn_step S E ph c1 sv1 = Some (ph', c2, sv2)" for ph c1 sv1 ph' c2 sv2
    using kept_trans [OF that(1) conn_step_kept [OF that(2)]] .
  show ?thesis
    by (rule run_thread_rule [where P = "\<lambda>(ph :: 'h phase) (c1 :: connection) sv1. kept sv sv1",
          OF assms [unfolded handleConnection_def] kept_refl step])
qed

section \<open>Callbacks where they are called\<close>

lemma on_event_other_server: "on_event J ev (m\<lparr>m_server := sv\<rparr>) = (on_event J ev m)\<lparr>m_server := sv\<rparr>"
  by (cases ev) (simp_all add: onProgress_def onFinished_def raise_signal_def sendTo_def Let_def split: option.split)

lemma on_events_other_server:
  "fold (on_event J) evs (m\<lparr>m_server := sv\<rparr>) = (fold (on_event J) evs m)\<lparr>m_server := sv\<rparr>"
  by (induction evs arbitrary: m) (simp_all add: on_event_other_server)

text \<open>What a run of the thread makes of the manager when the callbacks run behind it.\<close>

definition behind :: "'j json_api \<Rightarrow> 'f FileTransferManager \<Rightarrow> 'f FileTransferServer \<Rightarrow> 'f FileTransferManager" where
  "behind J m sv = fold (on_event J) (drop (length (events (m_server m))) (events sv)) (m\<lparr>m_server := sv\<rparr>)"

lemma behind_server [simp]: "m_server (behind J m sv) = sv"
  by (simp add: behind_def)

lemma behind_self [simp]: "behind J m (m_server m) = m"
  by (simp add: behind_def)

lemma behind_behind:
  assumes "events sv1 = events (m_server m) @ evs1" and "events sv2 = events sv1 @ evs2"
  shows "behind J (behind J m sv1) sv2 = behind J m sv2"
  using assms by (simp add: behind_def on_events_other_server)

lemma manager_turn_eq:
  "manager_turn J S E ph c m =
     map_option (\<lambda>(ph', c', sv'). (ph', c', behind J m sv')) (conn_step S E ph c (m_server m))"
  by (auto simp: manager_turn_def behind_def split: option.split)

lemma manager_thread_Closed [simp]: "manager_thread J S E Closed c m = Some (c, m)"
  by (subst manager_thread.simps) simp

lemma run_thread_manager:
  assumes run: "run_thread S E ph c (m_server m) = Some (c', sv')"
  shows "manager_thread J S E ph c m = Some (c', behind J m sv')"
proof -
  let ?P = "\<lambda>S E ph c sv res. (\<exists>evs. events (snd res) = events sv @ evs) \<and>
    (\<forall>m. sv = m_server m \<longrightarrow> manager_thread J S E ph c m = Some (fst res, behind J m (snd res)))"
  have "?P S E ph c (m_server m) (c', sv')"
  proof (rule run_thread.raw_induct [where P = ?P, OF _ run], goal_cases)
    case (1 g S E ph c sv res)
    show ?case
    proof (cases "ph = Closed")
      case True
      with 1(2) show ?thesis by auto
    next
      case False
      with 1(2) obtain ph1 c1 sv1 where s: "conn_step S E ph c sv = Some (ph1, c1, sv1)"
        and r: "g S E ph1 c1 sv1 = Some res" by (auto simp: bind_eq_Some_conv)
      from conn_step_events [OF s] obtain evs1 where evs1: "events sv1 = events sv @ evs1" ..
      from 1(1) [OF r] obtain evs2 where evs2: "events (snd res) = events sv1 @ evs2"
        and later: "\<And>m. sv1 = m_server m \<Longrightarrow> manager_thread J S E ph1 c1 m = Some (fst res, behind J m (snd res))"
        by blast
      have "manager_thread J S E ph c m = Some (fst res, behind J m (snd res))" if "sv = m_server m" for m
      proof -
        have "manager_thread J S E ph c m = manager_thread J S E ph1 c1 (behind J m sv1)"
          using False s that by (subst manager_thread.simps) (simp add: manager_turn_eq)
        also have "\<dots> = Some (fst res, behind J (behind J m sv1) (snd res))" by (rule later) simp
        finally show ?thesis using behind_behind [of sv1 m evs1 "snd res" evs2] evs1 evs2 that by simp
      qed
      with evs1 evs2 show ?thesis by auto
    qed
  qed
  then show ?thesis by simp
qed

lemma manager_thread_run:
  assumes run: "manager_thread J S E ph c m = Some (c', m')"
  shows "run_thread S E ph c (m_server m) \<noteq> None"
proof -
  let ?P = "\<lambda>J S E ph c m res. run_thread S E ph c (m_server m) \<noteq> None"
  show ?thesis
  proof (rule manager_thread.raw_induct [where P = ?P, OF _ run], goal_cases)
    case (1 g J S E ph c m res)
    show ?case
    proof (cases "ph = Closed")
      case False
      with 1(2) obtain ph1 c1 sv1 where s: "conn_step S E ph c (m_server m) = Some (ph1, c1, sv1)"
        and r: "g J S E ph1 c1 (behind J m sv1) = Some res"
        by (auto simp: bind_eq_Some_conv manager_turn_eq)
      from 1(1) [OF r] run_thread_step [OF False s] show ?thesis by simp
    qed simp
  qed
qed


section \<open>What the handlers emit\<close>

lemma sendFiles_signals: "signals (sendFiles J S E P sid paths m) = signals m"
proof -
  have "signals (send_one J S E P sid' path m) = signals m" for sid' path m
    by (auto simp: send_one_def randombytes_buf_def generateToken_eq Let_def split: option.split)
  then have "signals (fold (send_one J S E P sid') paths m) = signals m" for sid'
    by (induction paths arbitrary: m) simp_all
  then show ?thesis by (simp add: sendFiles_def Let_def)
qed

lemma handler_signals:
  "signals (handleFileOffer J S E P sid payload m) = signals m"
  "handleFileAccept J S P sid payload m = Inr m' \<Longrightarrow> signals m' = signals m"
  "handleFileReject J E sid payload m = Inr m' \<Longrightarrow> signals m' = signals m"
  "handleFileCancel J E sid payload m = Inr m' \<Longrightarrow> signals m' = signals m"
  "handleFileComplete J sid payload m = Inr m' \<Longrightarrow> \<exists>sgs. signals m' = signals m @ sgs"
  by (auto simp: handleFileOffer_def handleFileAccept_def handleFileReject_def handleFileCancel_def handleFileComplete_def
      generateToken_eq bindE_Inr_iff Let_def split: sum.split option.splits if_splits)

section \<open>Reachable managers\<close>

definition manager_inv :: "'f FileTransferManager \<Rightarrow> bool" where
  "manager_inv m \<longleftrightarrow> good_server (m_server m) \<and> um_wf (m_activeOffers m)"

inductive manager_step ::
  "'j json_api \<Rightarrow> 'h sodium_api \<Rightarrow> 'f os_api \<Rightarrow> 'f platform_api \<Rightarrow>
   'f FileTransferManager \<Rightarrow> 'f FileTransferManager \<Rightarrow> bool" for J S E P where
  ms_start: "manager_step J S E P m (snd (manager_start bound m))"
| ms_stop: "manager_step J S E P m (manager_stop E m)"
| ms_session: "manager_step J S E P m (setCurrentSession sid m)"
| ms_offer: "manager_step J S E P m (handleFileOffer J S E P sid payload m)"
| ms_send: "manager_step J S E P m (sendFiles J S E P sid paths m)"
| ms_accept: "handleFileAccept J S P sid payload m = Inr m' \<Longrightarrow> manager_step J S E P m m'"
| ms_reject: "handleFileReject J E sid payload m = Inr m' \<Longrightarrow> manager_step J S E P m m'"
| ms_complete: "handleFileComplete J sid payload m = Inr m' \<Longrightarrow> manager_step J S E P m m'"
| ms_cancel: "handleFileCancel J E sid payload m = Inr m' \<Longrightarrow> manager_step J S E P m m'"
| ms_turn: "manager_turn J S E ph c m = Some (ph', c', m') \<Longrightarrow> manager_step J S E P m m'"
| ms_connection: "manager_connection J S E c m = Some (c', m') \<Longrightarrow> manager_step J S E P m m'"

inductive manager_reachable ::
  "'j json_api \<Rightarrow> 'h sodium_api \<Rightarrow> 'f os_api \<Rightarrow> 'f platform_api \<Rightarrow> 'f FileTransferManager \<Rightarrow> bool"
  for J S E P where
  mr_new: "manager_reachable J S E P (newFileTransferManager f)"
| mr_step: "manager_reachable J S E P m \<Longrightarrow> manager_step J S E P m m' \<Longrightarrow> manager_reachable J S E P m'"

inductive_cases manager_stepE: "manager_step J S E P m m'"

named_theorems manager_inv_intros \<open>operations that keep the manager's invariant\<close>

lemma inv_sendTo [manager_inv_intros]: "manager_inv m \<Longrightarrow> manager_inv (sendTo sid text m)"
  by (simp add: manager_inv_def)

lemma inv_offers [manager_inv_intros]:
  "manager_inv m \<Longrightarrow> um_wf offs \<Longrightarrow> manager_inv (m\<lparr>m_activeOffers := offs\<rparr>)"
  by (simp add: manager_inv_def)

lemma inv_offers_wf [simp]: "manager_inv m \<Longrightarrow> um_wf (m_activeOffers m)"
  by (simp add: manager_inv_def)

lemma inv_rng [manager_inv_intros]: "manager_inv m \<Longrightarrow> manager_inv (m\<lparr>m_rng := n\<rparr>)"
  by (simp add: manager_inv_def)

lemma inv_register [manager_inv_intros]:
  "manager_inv m \<Longrightarrow> length tok = kTokenSize \<Longrightarrow> manager_inv (on_server (registerTransfer k b tok p n h d) m)"
  by (simp add: manager_inv_def good_register)

lemma inv_mkpath [manager_inv_intros]:
  "manager_inv m \<Longrightarrow> manager_inv (on_server (\<lambda>sv. sv\<lparr>disk := fs_mkpath E (disk sv) d\<rparr>) m)"
  by (simp add: manager_inv_def good_disk)

lemma inv_forget [manager_inv_intros]: "manager_inv m \<Longrightarrow> manager_inv (forget_transfer E tid m)"
  by (auto simp: manager_inv_def good_cancel)

lemma inv_signal [manager_inv_intros]: "manager_inv m \<Longrightarrow> manager_inv (raise_signal sg m)"
  by (simp add: manager_inv_def)

lemma inv_handleFileOffer: "manager_inv m \<Longrightarrow> manager_inv (handleFileOffer J S E P sid payload m)"
  unfolding handleFileOffer_def Let_def generateToken_eq
  by (auto split: sum.split intro!: manager_inv_intros)

lemma inv_send_one: "manager_inv m \<Longrightarrow> manager_inv (send_one J S E P sid path m)"
  unfolding send_one_def Let_def generateToken_eq randombytes_buf_def
  by (auto split: option.split intro!: manager_inv_intros)

lemma inv_sendFiles: "manager_inv m \<Longrightarrow> manager_inv (sendFiles J S E P sid paths m)"
proof -
  have "manager_inv m \<Longrightarrow> manager_inv (fold (send_one J S E P sid') paths m)" for sid'
    by (induction paths arbitrary: m) (simp_all add: inv_send_one)
  then show "manager_inv m \<Longrightarrow> manager_inv (sendFiles J S E P sid paths m)"
    by (simp add: sendFiles_def Let_def)
qed

lemma inv_connection:
  assumes "manager_inv m" and "manager_connection J S E c m = Some (c', m')"
  shows "manager_inv m'"
proof -
  from assms(2) obtain sv' where run: "handleConnection S E c (m_server m) = Some (c', sv')"
    and m': "m' = fold (on_event J) (drop (length (events (m_server m))) (events sv')) (m\<lparr>m_server := sv'\<rparr>)"
    by (auto simp: manager_connection_def split: option.splits)
  from assms(1) have "good_server sv'"
    using good_kept [OF _ handleConnection_kept [OF run]] by (simp add: manager_inv_def)
  with assms(1) show ?thesis
    unfolding m' by (simp add: manager_inv_def fold_on_event_offers)
qed

lemma inv_turn:
  assumes "manager_inv m" and "manager_turn J S E ph c m = Some (ph', c', m')"
  shows "manager_inv m'"
proof -
  from assms(2) obtain sv' where step: "conn_step S E ph c (m_server m) = Some (ph', c', sv')"
    and m': "m' = fold (on_event J) (drop (length (events (m_server m))) (events sv')) (m\<lparr>m_server := sv'\<rparr>)"
    by (auto simp: manager_turn_def split: option.splits)
  from assms(1) have "good_server sv'"
    using good_kept [OF _ conn_step_kept [OF step]] by (simp add: manager_inv_def)
  with assms(1) show ?thesis
    unfolding m' by (simp add: manager_inv_def fold_on_event_offers)
qed

lemma manager_step_inv:
  assumes "manager_step J S E P m m'" and "manager_inv m"
  shows "manager_inv m'"
  using assms(1)
proof (cases rule: manager_step.cases)
  case (ms_start bound)
  have "good_server (snd (server_start bound (m_server m)))"
    using assms(2) by (simp add: manager_inv_def good_start)
  with ms_start assms(2) show ?thesis
    by (simp add: manager_start_def manager_inv_def case_prod_beta Let_def)
next
  case ms_stop
  with assms(2) show ?thesis by (simp add: manager_stop_def manager_inv_def good_stop)
next
  case (ms_session sid)
  with assms(2) show ?thesis by (simp add: setCurrentSession_def manager_inv_def)
next
  case (ms_offer sid payload)
  with assms(2) show ?thesis by (simp add: inv_handleFileOffer)
next
  case (ms_send sid paths)
  with assms(2) show ?thesis by (simp add: inv_sendFiles)
next
  case (ms_accept sid payload)
  with assms(2) show ?thesis
    by (auto simp: handleFileAccept_def bindE_Inr_iff generateToken_eq split: option.splits if_splits
        intro!: manager_inv_intros)
next
  case (ms_reject sid payload)
  with assms(2) show ?thesis
    by (auto simp: handleFileReject_def bindE_Inr_iff split: if_splits intro!: manager_inv_intros)
next
  case (ms_complete sid payload)
  with assms(2) show ?thesis
    by (auto simp: handleFileComplete_def bindE_Inr_iff Let_def manager_inv_def split: option.splits)
next
  case (ms_cancel sid payload)
  with assms(2) show ?thesis
    by (auto simp: handleFileCancel_def bindE_Inr_iff split: if_splits intro!: manager_inv_intros)
next
  case (ms_turn ph c ph' c')
  with assms(2) show ?thesis by (blast intro: inv_turn)
next
  case (ms_connection c c')
  with assms(2) show ?thesis by (blast intro: inv_connection)
qed

lemma manager_inv_new: "manager_inv (newFileTransferManager f)"
  by (simp add: manager_inv_def newFileTransferManager_def good_server_def server_inv_def)

lemma manager_reachable_good:
  "manager_reachable J S E P m \<Longrightarrow> manager_inv m"
  by (induction rule: manager_reachable.induct) (simp_all add: manager_inv_new manager_step_inv)

end
