(* ===== verification/ManagerProperties.thy ===== *)
theory ManagerProperties
  imports ManagerSteps
begin

text \<open>
  What the manager's handlers achieve: an offer becomes a session with the token that the
  answer carries, a cancelled transfer is refused, a message with a field of the wrong type
  escapes every handler but one, and an offered file that is then uploaded is stored in the
  download folder and acknowledged on the WebSocket session the offer came from.
\<close>

section \<open>Offers from the phone\<close>

definition upload_path :: "'f os_api \<Rightarrow> 'f platform_api \<Rightarrow> FileOffer \<Rightarrow> string" where
  "upload_path E P offer = defaultDownloadDir P @ ''/'' @ sanitizeFileName E (fo_name offer)"

lemma handleFileOffer_sels:
  assumes "from_json J payload = Inr offer"
  shows "m_server (handleFileOffer J S E P sid payload m) =
      registerTransfer (fo_transferId offer) (toBase64 S (token_bytes P (m_rng m))) (token_bytes P (m_rng m)) (upload_path E P offer)
        (fo_size offer) (fo_sha256 offer) MobileUploadToPc
        ((m_server m)\<lparr>disk := fs_mkpath E (disk (m_server m)) (defaultDownloadDir P)\<rparr>)"
    and "m_activeOffers (handleFileOffer J S E P sid payload m) =
      um_put (fo_transferId offer) \<lparr>tm_sessionId = sid, tm_offer = offer, tm_filePath = []\<rparr> (m_activeOffers m)"
    and "outbox (handleFileOffer J S E P sid payload m) = outbox m @
      [(sid, accept_message J (fo_transferId offer)), (sid, ready_message J (fo_transferId offer) (toBase64 S (token_bytes P (m_rng m))))]"
    and "signals (handleFileOffer J S E P sid payload m) = signals m"
  using assms by (simp_all add: handleFileOffer_def Let_def generateToken_eq upload_path_def)

lemma inv_good: "manager_inv m \<Longrightarrow> server_inv (m_server m)"
  by (simp add: manager_inv_def good_inv)

lemma table_lookup_disk [simp]: "table_lookup (sv\<lparr>disk := f\<rparr>) k = table_lookup sv k"
  by (cases "um_find (m_sessions sv) k") (simp_all add: table_lookup_def)

lemma sanitize_clean:
  "sanitizeFileName E name \<noteq> [] \<and> set (sanitizeFileName E name) \<inter> set reserved_chars = {}"
  by (auto simp: sanitizeFileName_def Let_def reserved_chars_def)

text \<open>The ready message can be read back, token included.\<close>

lemma ready_message_parses:
  assumes "json_value_laws J" and "json_text_laws J" and "base64_laws S"
  shows "\<exists>payload. parseMessage J (ready_message J tid (toBase64 S tok)) =
      \<lparr>cm_type = FileReady, cm_payload = Some payload\<rparr> \<and>
    value_string J payload ''transferId'' d = Inr tid \<and>
    value_uint J payload ''port'' 0 = Inr 45680 \<and>
    bindE (value_string J payload ''token'' d) (fromBase64 S) = Inr tok"
proof -
  define kvs where "kvs = [(''type'', json_string J ''file_ready''), (''transferId'', json_string J tid),
     (''port'', json_uint J (ucast kFileTransferPort)), (''token'', json_string J (toBase64 S tok))]"
  have kvs: "distinct (map fst kvs)" "list_all (\<lambda>(k, v). json_scalar J v) kvs"
    by (simp_all add: kvs_def json_scalar_def)
  have "json_parse J (ready_message J tid (toBase64 S tok)) = Some (json_object J kvs)"
    using assms(2) kvs unfolding json_text_laws_def ready_message_def kvs_def by blast
  moreover have "value_string J (json_object J kvs) ''type'' [] = Inr ''file_ready''"
    "value_string J (json_object J kvs) ''transferId'' d = Inr tid"
    "value_string J (json_object J kvs) ''token'' d = Inr (toBase64 S tok)"
    by (rule json_value_string(1) [OF assms(1) kvs(1)], simp add: kvs_def)+
  moreover have "value_uint J (json_object J kvs) ''port'' 0 = Inr 45680"
    by (rule json_value_uint(1) [OF assms(1) kvs(1)]) (simp add: kvs_def kFileTransferPort_def)
  ultimately show ?thesis
    by (simp add: parseMessage_def msgTypeFromString_def fromBase64_toBase64 [OF assms(3)])
qed

section \<open>The callbacks of a run\<close>

lemma fold_progress:
  "list_all is_progress evs \<Longrightarrow>
   outbox (fold (on_event J) evs m) = outbox m \<and> m_activeOffers (fold (on_event J) evs m) = m_activeOffers m"
proof (induction evs arbitrary: m)
  case (Cons ev evs)
  then show ?case by (cases ev) simp_all
qed simp

fun is_progress_signal :: "manager_signal \<Rightarrow> bool" where
  "is_progress_signal (TransferProgress tid n tot) = True"
| "is_progress_signal (TransferFinished tid name ok err) = False"

lemma fold_progress_signals:
  "list_all is_progress evs \<Longrightarrow>
   \<exists>sgs. signals (fold (on_event J) evs m) = signals m @ sgs \<and> list_all is_progress_signal sgs"
proof (induction evs arbitrary: m)
  case (Cons ev evs)
  from Cons.prems obtain tid n tot where ev: "ev = OnProgress tid n tot" by (cases ev) simp_all
  from Cons.IH [of "on_event J ev m"] Cons.prems ev show ?case
    by (force simp: onProgress_def raise_signal_def)
qed simp

lemma progress_log_progress: "list_all is_progress (progress_log tid tot t ps)"
  by (induction ps arbitrary: t) simp_all

lemma onFinished_known:
  assumes "um_find (m_activeOffers m) tid = Some meta" and "tm_sessionId meta \<noteq> 0"
  shows "outbox (onFinished J tid True [] m) = outbox m @ [(tm_sessionId meta, json_dump J (json_object J
      [(''type'', json_string J ''file_complete''), (''transferId'', json_string J tid), (''ok'', json_bool J True)]))]"
    and "signals (onFinished J tid True [] m) =
      signals m @ [TransferFinished tid (fo_name (tm_offer meta)) True []]"
  using assms by (simp_all add: onFinished_def Let_def)

lemma unknown_id_refused:
  assumes "length uid = 16" and "length tok = 32"
    and "avail (incoming c) = handshake uid tok dir @ data" and "find_session sv (uuid_string uid) = None"
  shows "\<exists>rest. handleConnection S E c sv = Some (c\<lparr>incoming := rest\<rparr>, sv)"
proof -
  obtain rest where "step_handshake S E c sv = Some (Closed, c\<lparr>incoming := rest\<rparr>, sv)"
    using step_handshake_eq [OF assms(1-3), of S E sv] assms(4) by auto
  then have "handleConnection S E c sv = Some (c\<lparr>incoming := rest\<rparr>, sv)"
    unfolding handleConnection_def by (simp add: run_thread_step)
  then show ?thesis by blast
qed

section \<open>Files sent to the phone\<close>

text \<open>The offer that \<^verbatim>\<open>sendFiles\<close> makes of a readable file.\<close>

definition drawn_uuid :: "'f platform_api \<Rightarrow> nat \<Rightarrow> bytes" where
  "drawn_uuid P n = map (\<lambda>i. randombytes P (n + i)) [0..<16]"

lemma length_drawn_uuid [simp]: "length (drawn_uuid P n) = 16"
  by (simp add: drawn_uuid_def)

definition file_offer ::
  "'h sodium_api \<Rightarrow> 'f os_api \<Rightarrow> 'f platform_api \<Rightarrow> 'f \<Rightarrow> string \<Rightarrow> bytes \<Rightarrow> string \<Rightarrow> FileOffer" where
  "file_offer S E P f path content tid = \<lparr>fo_transferId = tid, fo_name = fileName E path,
     fo_size = fi_size P f path, fo_mime = ''application/octet-stream'',
     fo_sha256 = hexString (sha256 S content)\<rparr>"

lemma send_one_sels:
  assumes "sha256_laws S" and "f = disk (m_server m)" and "fs_exists E f path" and "\<not> fi_isDir P f path"
    and "fs_open_read E f path = Some content"
    and "tid = uuid_string (drawn_uuid P (m_rng m))" and "tok = token_bytes P (m_rng m + 16)"
  shows "m_server (send_one J S E P sid path m) = registerTransfer tid (toBase64 S tok) tok path
      (fi_size P f path) (hexString (sha256 S content)) DesktopDownloadToMobile (m_server m)"
    and "m_activeOffers (send_one J S E P sid path m) = um_put tid
      \<lparr>tm_sessionId = sid, tm_offer = file_offer S E P f path content tid, tm_filePath = path\<rparr> (m_activeOffers m)"
    and "outbox (send_one J S E P sid path m) =
      outbox m @ [(sid, json_dump J (to_json J (file_offer S E P f path content tid)))]"
  using assms(3-5) hash_loop_eq [OF assms(1), of "sha256_init S" content]
  unfolding assms(2,6,7)
  by (simp_all add: send_one_def Let_def randombytes_buf_def generateToken_eq file_offer_def
      sha256_def drawn_uuid_def)

text \<open>The answer to a \<^verbatim>\<open>file_accept\<close> for an active offer.\<close>

lemma handleFileAccept_known:
  assumes "value_string J payload ''transferId'' [] = Inr tid" and "tid \<noteq> []"
    and "um_find (m_activeOffers m) tid = Some meta" and "tok = token_bytes P (m_rng m)"
  shows "\<exists>m'. handleFileAccept J S P sid payload m = Inr m' \<and>
    m_server m' = registerTransfer tid (toBase64 S tok) tok (tm_filePath meta) (fo_size (tm_offer meta))
      (fo_sha256 (tm_offer meta)) DesktopDownloadToMobile (m_server m) \<and>
    m_activeOffers m' = m_activeOffers m \<and>
    outbox m' = outbox m @ [(sid, ready_message J tid (toBase64 S tok))]"
  using assms by (simp add: handleFileAccept_def generateToken_eq)

lemma uuid_string_not_Nil [simp]: "uuid_string b \<noteq> []"
  by (simp add: uuid_string_def)

section \<open>A manager for the witnesses\<close>

definition demo_platform :: "files platform_api" where
  "demo_platform = \<lparr>fi_isDir = (\<lambda>f p. False),
     fi_size = (\<lambda>f p. case um_find f p of None \<Rightarrow> 0 | Some c \<Rightarrow> of_nat (length c)),
     downloadLocation = ''D'', homePath = ''H'', randombytes = of_nat\<rparr>"

definition demo_manager :: "files FileTransferManager" where
  "demo_manager = snd (manager_start True (newFileTransferManager [(''a.txt'', [9, 9, 9, 9, 9])]))"

definition demo_offer :: FileOffer where
  "demo_offer = \<lparr>fo_transferId = uuid_string demo_uid, fo_name = ''x/b.txt'', fo_size = 5, fo_mime = [],
     fo_sha256 = hexString (sha256 sodium_model [1, 2, 3, 4, 5])\<rparr>"

lemma demo_offer_sels [simp]:
  "fo_transferId demo_offer = uuid_string demo_uid" "fo_name demo_offer = ''x/b.txt''"
  "fo_size demo_offer = 5" "fo_sha256 demo_offer = hexString (sha256 sodium_model [1, 2, 3, 4, 5])"
  by (simp_all add: demo_offer_def)

lemma demo_offer_json: "from_json json_model (to_json json_model demo_offer) = Inr demo_offer"
  by (rule from_json_to_json [OF json_model_value_laws])

lemma demo_manager_sels [simp]:
  "m_running (m_server demo_manager)" "disk (m_server demo_manager) = [(''a.txt'', [9, 9, 9, 9, 9])]"
  "m_activeOffers demo_manager = []" "m_rng demo_manager = 0" "outbox demo_manager = []"
  "m_sessions (m_server demo_manager) = []" "events (m_server demo_manager) = []"
  "signals demo_manager = []"
  by (simp_all add: demo_manager_def newFileTransferManager_def manager_start_def server_start_def)

lemma demo_manager_reachable: "manager_reachable J S E P demo_manager"
  unfolding demo_manager_def by (rule mr_step [OF mr_new ms_start])

lemma demo_manager_inv: "manager_inv demo_manager"
  by (rule manager_reachable_good [OF demo_manager_reachable])

section \<open>Properties\<close>

text \<open>
  C26: an offer is answered with the key to its session. For a well-formed offer the phone gets
  \<^verbatim>\<open>file_accept\<close> and then \<^verbatim>\<open>file_ready\<close>; read back, the second names the transfer, port
  45680 and a token that decodes to the 32 bytes under which the session was registered, for an
  upload of the announced size and hash, and no other session of the table changed.
\<close>

theorem offer_registers:
  assumes "json_value_laws J" and "json_text_laws J" and "base64_laws S" and "manager_inv m"
    and "from_json J payload = Inr offer"
    and "m' = handleFileOffer J S E P sid payload m"
  shows "\<exists>tok ready p. length tok = 32 \<and>
    outbox m' = outbox m @ [(sid, accept_message J (fo_transferId offer)), (sid, ready)] \<and>
    parseMessage J ready = \<lparr>cm_type = FileReady, cm_payload = Some p\<rparr> \<and>
    value_string J p ''transferId'' [] = Inr (fo_transferId offer) \<and>
    value_uint J p ''port'' 0 = Inr 45680 \<and>
    bindE (value_string J p ''token'' []) (fromBase64 S) = Inr tok \<and>
    (\<forall>k. table_lookup (m_server m') k =
      (if k = fo_transferId offer
       then Some (new_session k (toBase64 S tok) tok (upload_path E P offer)
              (fo_size offer) (fo_sha256 offer) MobileUploadToPc)
       else table_lookup (m_server m) k))"
proof -
  let ?tok = "token_bytes P (m_rng m)"
  obtain p where "parseMessage J (ready_message J (fo_transferId offer) (toBase64 S ?tok)) =
      \<lparr>cm_type = FileReady, cm_payload = Some p\<rparr>"
    "value_string J p ''transferId'' [] = Inr (fo_transferId offer)" "value_uint J p ''port'' 0 = Inr 45680"
    "bindE (value_string J p ''token'' []) (fromBase64 S) = Inr ?tok"
    using ready_message_parses [OF assms(1-3)] by blast
  moreover have "server_inv ((m_server m)\<lparr>disk := f\<rparr>)" for f
    using assms(4) by (simp add: manager_inv_def good_inv good_disk)
  ultimately show ?thesis
    unfolding assms(6) handleFileOffer_sels [OF assms(5)]
    by (intro exI [of _ ?tok] exI [of _ "ready_message J (fo_transferId offer) (toBase64 S ?tok)"] exI [of _ p])
      (simp add: tt.lookup_register kTokenSize_def)
qed

theorem offer_registers_witness:
  "\<exists>(tok :: bytes) ready p. length tok = 32 \<and>
    parseMessage json_model ready = \<lparr>cm_type = FileReady, cm_payload = Some p\<rparr> \<and>
    bindE (value_string json_model p ''token'' []) (fromBase64 sodium_model) = Inr tok \<and>
    outbox (handleFileOffer json_model sodium_model os_model demo_platform 7
      (to_json json_model demo_offer) demo_manager) =
      [(7, accept_message json_model (uuid_string demo_uid)), (7, ready)]"
  using offer_registers [OF json_model_value_laws json_model_text_laws sodium_model_base64_laws
      demo_manager_inv demo_offer_json refl, of os_model demo_platform 7]
  by (simp del: json_model_sels) blast

text \<open>
  C25: an upload cannot leave the download folder by its name. Whatever name a phone announces,
  the path registered for the upload is the download folder, a slash, and a non-empty name
  without any of the characters that Windows reserves, so without slash, backslash and colon.
\<close>

theorem upload_path_confined:
  assumes "manager_inv m" and "from_json J payload = Inr offer"
  shows "\<exists>s nm. table_lookup (m_server (handleFileOffer J S E P sid payload m)) (fo_transferId offer) = Some s \<and>
    targetFilePath s = defaultDownloadDir P @ ''/'' @ nm \<and> nm \<noteq> [] \<and> set nm \<inter> set reserved_chars = {} \<and>
    tempFilePath s = targetFilePath s @ ''.part''"
proof -
  have "server_inv ((m_server m)\<lparr>disk := f\<rparr>)" for f
    using assms(1) by (simp add: manager_inv_def good_inv good_disk)
  then show ?thesis
    unfolding handleFileOffer_sels [OF assms(2)]
    using sanitize_clean [of E "fo_name offer"]
    by (simp add: tt.lookup_register new_session_def upload_path_def)
qed

theorem upload_path_confined_witness:
  "\<exists>s nm. table_lookup (m_server (handleFileOffer json_model sodium_model os_model demo_platform 7
       (to_json json_model demo_offer) demo_manager)) (uuid_string demo_uid) = Some s \<and>
     targetFilePath s = ''D/Iriseus/'' @ nm \<and> nm \<noteq> []"
  using upload_path_confined [OF demo_manager_inv demo_offer_json, of sodium_model os_model demo_platform 7]
  by (simp add: demo_platform_def defaultDownloadDir_def) blast

text \<open>
  C24: a cancelled or rejected transfer is gone. After either message for a transfer the table
  and the active offers no longer know it, every other session is as before, and a connection
  that presents its id is closed without effect, whatever token it carries, unless another live
  transfer has an id that differs from it only in its dashes; then, and only then, the handshake finds
  a session, and it is one of these others.
\<close>

theorem cancelled_transfer_refused:
  assumes "manager_inv m" and "length uid = 16"
    and "value_string J payload ''transferId'' [] = Inr (uuid_string uid)"
    and "length tok = 32" and "avail (incoming c) = handshake uid tok dir @ data"
  shows "\<exists>m'. handleFileCancel J E sid payload m = Inr m' \<and> handleFileReject J E sid payload m = Inr m' \<and>
    um_find (m_activeOffers m') (uuid_string uid) = None \<and>
    (\<forall>k. table_lookup (m_server m') k = (if k = uuid_string uid then None else table_lookup (m_server m) k)) \<and>
    (if \<exists>k. k \<noteq> uuid_string uid \<and> table_lookup (m_server m) k \<noteq> None \<and> noDash k = hexString uid
     then \<exists>k r. k \<noteq> uuid_string uid \<and> noDash k = hexString uid \<and>
       find_session (m_server m') (uuid_string uid) = Some r \<and>
       table_lookup (m_server m) k = Some (session_at (m_server m') r)
     else \<exists>rest. handleConnection S E c (m_server m') = Some (c\<lparr>incoming := rest\<rparr>, m_server m'))"
proof -
  let ?sv = "cancelTransfer E (uuid_string uid) (m_server m)"
  have inv: "server_inv (m_server m)" using assms(1) by (simp add: manager_inv_def good_inv)
  have none: "table_lookup ?sv k = (if k = uuid_string uid then None else table_lookup (m_server m) k)" for k
    by (rule tt.lookup_cancel [OF inv])
  let ?other = "\<lambda>k. k \<noteq> uuid_string uid \<and> noDash k = hexString uid"
  have wf: "um_wf (m_sessions ?sv)"
    using tt.inv_cancel [OF inv, of E "uuid_string uid"] by (simp add: server_inv_def)
  have found: "\<exists>k. ?other k \<and> table_lookup (m_server m) k = Some (session_at ?sv r)"
    if "find_session ?sv (uuid_string uid) = Some r" for r
  proof -
    from find_session_Some [OF wf that] obtain k where
      k: "um_find (m_sessions ?sv) k = Some r" "noDash k = hexString uid"
      using noDash_uuid_string [OF assms(2)] by auto
    then have "table_lookup ?sv k = Some (session_at ?sv r)" by (simp add: table_lookup_def)
    with none [of k] k(2) show ?thesis by (auto split: if_splits)
  qed
  have some: "find_session ?sv (uuid_string uid) \<noteq> None"
    if "?other k" "table_lookup (m_server m) k \<noteq> None" for k
  proof -
    from that none [of k] obtain r where "um_find (m_sessions ?sv) k = Some r" by (auto simp: table_lookup_def)
    from um_find_in_set [OF this] that(1) noDash_uuid_string [OF assms(2)] show ?thesis
      by (cases "um_find (m_sessions ?sv) (uuid_string uid)") (auto simp: find_session_def find_None_iff)
  qed
  have final: "if \<exists>k. k \<noteq> uuid_string uid \<and> table_lookup (m_server m) k \<noteq> None \<and> noDash k = hexString uid
    then \<exists>k r. k \<noteq> uuid_string uid \<and> noDash k = hexString uid \<and>
      find_session ?sv (uuid_string uid) = Some r \<and> table_lookup (m_server m) k = Some (session_at ?sv r)
    else \<exists>rest. handleConnection S E c ?sv = Some (c\<lparr>incoming := rest\<rparr>, ?sv)"
  proof (cases "find_session ?sv (uuid_string uid)")
    case None
    with some unknown_id_refused [OF assms(2,4,5) None] show ?thesis by auto
  next
    case (Some r)
    from found [OF Some] Some show ?thesis by auto
  qed
  show ?thesis
    by (rule exI [of _ "forget_transfer E (uuid_string uid) m"], intro conjI, unfold forget_transfer_sels, rule_tac [5] final)
      (use none assms(1,3) in \<open>simp_all add: handleFileCancel_def handleFileReject_def uuid_string_def\<close>)
qed

theorem cancelled_transfer_refused_witness:
  "\<exists>m m' rest. table_lookup (m_server m) (uuid_string demo_uid) \<noteq> None \<and>
     handleFileCancel json_model os_model 7 (JObj [(''transferId'', JStr (uuid_string demo_uid))]) m = Inr m' \<and>
     handleConnection sodium_model os_model (demo_conn 0 []) (m_server m') =
       Some ((demo_conn 0 [])\<lparr>incoming := rest\<rparr>, m_server m')"
proof -
  let ?m = "handleFileOffer json_model sodium_model os_model demo_platform 7 (to_json json_model demo_offer) demo_manager"
  have sv: "server_inv ((m_server demo_manager)\<lparr>disk := f\<rparr>)" for f
    using demo_manager_inv by (simp add: manager_inv_def good_inv good_disk)
  have at: "table_lookup (m_server ?m) k = (if k = uuid_string demo_uid
      then Some (new_session k (toBase64 sodium_model (token_bytes demo_platform 0)) (token_bytes demo_platform 0)
        (upload_path os_model demo_platform demo_offer) 5 (fo_sha256 demo_offer) MobileUploadToPc) else None)" for k
    by (simp add: handleFileOffer_sels [OF demo_offer_json] tt.lookup_register [OF sv])
      (simp add: table_lookup_def)
  have alone: "\<not> (\<exists>k. k \<noteq> uuid_string demo_uid \<and> table_lookup (m_server ?m) k \<noteq> None \<and> noDash k = hexString demo_uid)"
    by (simp add: at)
  have "value_string json_model (JObj [(''transferId'', JStr (uuid_string demo_uid))]) ''transferId'' [] =
      Inr (uuid_string demo_uid)" by simp
  from cancelled_transfer_refused [where m = ?m and E = os_model and S = sodium_model and sid = 7,
      OF inv_handleFileOffer [OF demo_manager_inv] demo_lengths(1) this demo_lengths(2) demo_avail,
      unfolded if_not_P [OF alone]]
  obtain m' rest where "handleFileCancel json_model os_model 7 (JObj [(''transferId'', JStr (uuid_string demo_uid))]) ?m = Inr m'"
    "handleConnection sodium_model os_model (demo_conn 0 []) (m_server m') =
       Some ((demo_conn 0 [])\<lparr>incoming := rest\<rparr>, m_server m')" by blast
  moreover have "table_lookup (m_server ?m) (uuid_string demo_uid) \<noteq> None" by (simp add: at)
  ultimately show ?thesis by blast
qed

text \<open>
  C39: a message with a field of the wrong type. A number where the transfer id should be is
  absorbed by \<^verbatim>\<open>handleFileOffer\<close>, which catches, and leaves the state alone; the other four
  handlers let the exception out to the WebSocket thread that called them.
\<close>

theorem type_error_escapes:
  assumes "json_value_laws J" and "distinct (map fst kvs)" and "map_of kvs ''transferId'' = Some (json_uint J n)"
  shows "handleFileOffer J S E P sid (json_object J kvs) m = m \<and>
    handleFileAccept J S P sid (json_object J kvs) m = Inl JsonTypeError \<and>
    handleFileReject J E sid (json_object J kvs) m = Inl JsonTypeError \<and>
    handleFileComplete J sid (json_object J kvs) m = Inl JsonTypeError \<and>
    handleFileCancel J E sid (json_object J kvs) m = Inl JsonTypeError"
  using json_value_string(4) [OF assms]
  by (simp add: handleFileOffer_def from_json_def handleFileAccept_def handleFileReject_def
      handleFileComplete_def handleFileCancel_def)

theorem type_error_escapes_witness:
  "handleFileCancel json_model os_model 7
     (json_object json_model [(''type'', JStr ''file_cancel''), (''transferId'', json_uint json_model 5)])
     demo_manager = Inl JsonTypeError"
proof -
  let ?p = "json_object json_model [(''type'', JStr ''file_cancel''), (''transferId'', json_uint json_model 5)]"
  have "handleFileOffer json_model sodium_model os_model demo_platform 7 ?p demo_manager = demo_manager \<and>
    handleFileAccept json_model sodium_model demo_platform 7 ?p demo_manager = Inl JsonTypeError \<and>
    handleFileReject json_model os_model 7 ?p demo_manager = Inl JsonTypeError \<and>
    handleFileComplete json_model 7 ?p demo_manager = Inl JsonTypeError \<and>
    handleFileCancel json_model os_model 7 ?p demo_manager = Inl JsonTypeError"
    by (rule type_error_escapes [OF json_model_value_laws, where n = 5]) simp_all
  then show ?thesis by blast
qed

lemma offered_file_stored:
  assumes "path_laws E" and "fs_laws E V" and "fs_reliable E V" and "sha256_laws S"
    and "manager_inv m" and "m_running (m_server m)" and "from_json J payload = Inr offer"
    and "fo_transferId offer = uuid_string uid" and "length uid = 16" and "sid \<noteq> 0"
    and "chunks_ok cs" and "length (concat cs) = unat (fo_size offer)"
    and "fo_sha256 offer = [] \<or> hexString (sha256 S (concat cs)) = fo_sha256 offer"
    and "target = upload_path E P offer" and "plain_target E target" and "no_directory_at E V target"
    and "stream_named E (target @ ''.part'')"
    and "m1 = handleFileOffer J S E P sid payload m"
    and "avail (incoming c) = handshake uid (token_bytes P (m_rng m)) 0 @ stream_of cs @ tail"
  shows "\<exists>c' m2 p. manager_connection J S E c m1 = Some (c', m2) \<and>
    first_free E (V (disk (m_server m))) (target @ ''.part'') target p \<and>
    V (disk (m_server m2)) = (V (disk (m_server m)))(target @ ''.part'' := None, p := Some (concat cs)) \<and>
    outbox m2 = outbox m1 @ [(sid, json_dump J (json_object J [(''type'', json_string J ''file_complete''),
      (''transferId'', json_string J (uuid_string uid)), (''ok'', json_bool J True)]))] \<and>
    (\<exists>sgs. list_all is_progress_signal sgs \<and>
       signals m2 = signals m1 @ sgs @ [TransferFinished (uuid_string uid) (fo_name offer) True []]) \<and>
    um_find (m_activeOffers m2) (uuid_string uid) = None"
proof -
  let ?tok = "token_bytes P (m_rng m)" and ?tid = "uuid_string uid"
  note off = handleFileOffer_sels [OF assms(7), of S E P sid m, folded assms(14,18)]
  define r s where "r = length (m_store (m_server m))"
    and "s = new_session ?tid (toBase64 S ?tok) ?tok target (fo_size offer) (fo_sha256 offer) MobileUploadToPc"
  have find: "find_session (m_server m1) ?tid = Some r"
    by (rule find_session_exact) (simp add: off assms(8) r_def)
  have s: "s = session_at (m_server m1) r"
    by (simp add: off assms(8) r_def s_def session_at_def)
  have tok: "token_ok s ?tok" "length ?tok = 32"
    by (simp_all add: s_def new_session_def token_ok_def kTokenSize_def)
  have disk1: "V (disk (m_server m1)) = V (disk (m_server m))"
    using fs_lawsD(5) [OF assms(2)] by (simp add: off)
  have fields: "transferId s = ?tid" "expectedSize s = fo_size offer" "expectedSha256 s = fo_sha256 offer"
    "targetFilePath s = target" "tempFilePath s = target @ ''.part''" "\<not> cancelled s"
    by (simp_all add: s_def new_session_def)
  have "m_running (m_server m1)" using assms(6) by (simp add: off)
  note stores = upload_stores [OF assms(1-4) assms(9) tok(2) assms(11) assms(19) find s tok(1) this,
      unfolded fields disk1, OF fields(6) assms(15,16,17,12,13)]
  then obtain c' sv' p where run: "handleConnection S E c (m_server m1) = Some (c', sv')"
    and ev: "events sv' = events (m_server m1) @ progress_log ?tid (fo_size offer) 0 cs @ [OnFinished ?tid True []]"
    and p: "first_free E (V (disk (m_server m))) (target @ ''.part'') target p"
    and f: "V (disk sv') = (V (disk (m_server m)))(target @ ''.part'' := None, p := Some (concat cs))"
    by auto
  define m' where "m' = fold (on_event J) (progress_log ?tid (fo_size offer) 0 cs) (m1\<lparr>m_server := sv'\<rparr>)"
  have m': "outbox m' = outbox m1" "m_activeOffers m' = m_activeOffers m1" "m_server m' = sv'"
    by (simp_all add: m'_def fold_progress [OF progress_log_progress])
  have "manager_connection J S E c m1 = Some (c', onFinished J ?tid True [] m')"
    by (simp add: manager_connection_def run ev m'_def)
  moreover obtain sgs where sgs: "signals m' = signals m1 @ sgs" "list_all is_progress_signal sgs"
    using fold_progress_signals [OF progress_log_progress, of J ?tid "fo_size offer" 0 cs "m1\<lparr>m_server := sv'\<rparr>"]
    unfolding m'_def by auto
  moreover have meta: "um_find (m_activeOffers m') ?tid = Some \<lparr>tm_sessionId = sid, tm_offer = offer, tm_filePath = []\<rparr>"
    by (simp add: m' off assms(8))
  moreover have "um_wf (m_activeOffers m')"
    unfolding m' assms(18) by (rule inv_offers_wf [OF inv_handleFileOffer [OF assms(5)]])
  moreover note onFinished_known [OF meta, of J]
  ultimately show ?thesis
    using assms(10) p f m'
    by (intro exI [of _ c'] exI [of _ "onFinished J ?tid True [] m'"] exI [of _ p]) auto
qed

text \<open>
  C2: an offered file arrives. A phone that offers a file, reads the token out of the text of the
  second answer, which is a \<^verbatim>\<open>file_ready\<close> for its transfer, and
  uploads frames of at most 1 MiB with the announced length and hash gets
  \<^verbatim>\<open>file_complete\<close> with \<^verbatim>\<open>ok: true\<close> on the WebSocket session of the offer; the content is
  stored under the cleaned name in the download folder, or under its first free numbered
  variant, the user interface is told, and the offer is forgotten. The name is one that the
  stream and Qt read alike.
\<close>

theorem offered_file_arrives:
  assumes "json_value_laws J" and "json_text_laws J" and "base64_laws S"
    and "path_laws E" and "fs_laws E V" and "fs_reliable E V" and "sha256_laws S"
    and "manager_inv m" and "m_running (m_server m)" and "from_json J payload = Inr offer"
    and "fo_transferId offer = uuid_string uid" and "length uid = 16" and "sid \<noteq> 0"
    and "chunks_ok cs" and "length (concat cs) = unat (fo_size offer)"
    and "fo_sha256 offer = [] \<or> hexString (sha256 S (concat cs)) = fo_sha256 offer"
    and "target = upload_path E P offer" and "plain_target E target" and "no_directory_at E V target"
    and "stream_named E (target @ ''.part'')"
    and "m1 = handleFileOffer J S E P sid payload m"
    and "outbox m1 = outbox m @ [(sid, answer), (sid, ready)]"
    and "parseMessage J ready = \<lparr>cm_type = kind, cm_payload = Some body\<rparr>"
    and "bindE (value_string J body ''token'' []) (fromBase64 S) = Inr tok"
    and "avail (incoming c) = handshake uid tok 0 @ stream_of cs @ tail"
  shows "kind = FileReady \<and> value_string J body ''transferId'' [] = Inr (uuid_string uid) \<and>
   (\<exists>c' m2 p. manager_connection J S E c m1 = Some (c', m2) \<and>
    first_free E (V (disk (m_server m))) (target @ ''.part'') target p \<and>
    V (disk (m_server m2)) = (V (disk (m_server m)))(target @ ''.part'' := None, p := Some (concat cs)) \<and>
    outbox m2 = outbox m1 @ [(sid, json_dump J (json_object J [(''type'', json_string J ''file_complete''),
      (''transferId'', json_string J (uuid_string uid)), (''ok'', json_bool J True)]))] \<and>
    last (signals m2) = TransferFinished (uuid_string uid) (fo_name offer) True [] \<and>
    um_find (m_activeOffers m2) (uuid_string uid) = None)"
proof -
  let ?tok = "token_bytes P (m_rng m)"
  have "ready = ready_message J (uuid_string uid) (toBase64 S ?tok)"
    using assms(22) handleFileOffer_sels(3) [OF assms(10), of S E P sid m] by (simp add: assms(11,21))
  with ready_message_parses [OF assms(1-3), of "uuid_string uid" ?tok "[]"] assms(23,24)
  have read: "kind = FileReady" "value_string J body ''transferId'' [] = Inr (uuid_string uid)" "tok = ?tok" by auto
  from offered_file_stored [OF assms(4-21), of c tail] assms(25) read(3) obtain c' m2 p sgs where
    "manager_connection J S E c m1 = Some (c', m2)"
    "first_free E (V (disk (m_server m))) (target @ ''.part'') target p"
    "V (disk (m_server m2)) = (V (disk (m_server m)))(target @ ''.part'' := None, p := Some (concat cs))"
    "outbox m2 = outbox m1 @ [(sid, json_dump J (json_object J [(''type'', json_string J ''file_complete''),
      (''transferId'', json_string J (uuid_string uid)), (''ok'', json_bool J True)]))]"
    "signals m2 = signals m1 @ sgs @ [TransferFinished (uuid_string uid) (fo_name offer) True []]"
    "um_find (m_activeOffers m2) (uuid_string uid) = None" by blast
  then show ?thesis
    by (intro conjI read exI [of _ c'] exI [of _ m2] exI [of _ p]) simp_all
qed


lemma demo_upload_path: "upload_path os_model demo_platform demo_offer = ''D/Iriseus/b.txt''"
  by (simp add: upload_path_def defaultDownloadDir_def demo_platform_def sanitizeFileName_def
      last_part_def reserved_chars_def)

theorem offered_file_arrives_witness:
  "\<exists>c' m2 p. manager_connection json_model sodium_model os_model
       \<lparr>incoming = [handshake demo_uid (token_bytes demo_platform 0) 0 @ stream_of demo_chunks], silent = True, sent = [], room = 0\<rparr>
       (handleFileOffer json_model sodium_model os_model demo_platform 7 (to_json json_model demo_offer) demo_manager)
       = Some (c', m2) \<and>
     um_find (disk (m_server m2)) p = Some [1, 2, 3, 4, 5] \<and>
     last (signals m2) = TransferFinished (uuid_string demo_uid) ''x/b.txt'' True []"
proof -
  let ?tok = "token_bytes demo_platform 0"
  let ?c = "\<lparr>incoming = [handshake demo_uid ?tok 0 @ stream_of demo_chunks], silent = True, sent = [], room = 0\<rparr>"
  let ?m1 = "handleFileOffer json_model sodium_model os_model demo_platform 7 (to_json json_model demo_offer) demo_manager"
  let ?ready = "ready_message json_model (uuid_string demo_uid) (toBase64 sodium_model ?tok)"
  obtain body where ready: "parseMessage json_model ?ready = \<lparr>cm_type = FileReady, cm_payload = Some body\<rparr>"
    "bindE (value_string json_model body ''token'' []) (fromBase64 sodium_model) = Inr ?tok"
    using ready_message_parses [OF json_model_value_laws json_model_text_laws sodium_model_base64_laws] by blast
  have out: "outbox ?m1 = outbox demo_manager @ [(7, accept_message json_model (uuid_string demo_uid)), (7, ?ready)]"
    by (simp add: handleFileOffer_sels(3) [OF demo_offer_json])
  have c: "avail (incoming ?c) = handshake demo_uid ?tok 0 @ stream_of demo_chunks @ []"
    by (simp add: handshake_def demo_uid_def)
  have plain: "plain_target os_model ''D/Iriseus/b.txt''"
    by (simp add: plain_target_def plain_name_def before_last_dot_def after_last_dot_def last_part_def)
  from offered_file_arrives [OF json_model_value_laws json_model_text_laws sodium_model_base64_laws
      os_model_path_laws os_model_fs_laws os_model_fs_reliable
      sodium_model_sha256_laws demo_manager_inv _ demo_offer_json _ demo_lengths(1) _ demo_chunks_ok(1)
      _ _ demo_upload_path [symmetric] plain os_model_no_directory os_model_stream_named refl out ready c]
  obtain c' m2 p where r: "manager_connection json_model sodium_model os_model ?c ?m1 = Some (c', m2)"
    "last (signals m2) = TransferFinished (uuid_string demo_uid) (fo_name demo_offer) True []"
    and f: "um_find (disk (m_server m2)) = (um_find (disk (m_server demo_manager)))
      (''D/Iriseus/b.txt'' @ ''.part'' := None, p := Some (concat demo_chunks))"
    by (auto simp: demo_chunks_ok(2))
  from f have "um_find (disk (m_server m2)) p = Some [1, 2, 3, 4, 5]" by (simp add: demo_chunks_ok(2))
  with r show ?thesis by auto
qed

text \<open>
  C22: in every state the manager can reach, by any messages, callbacks, connections and calls of
  its owner, the server's table files every live session under its own id, its temporary file
  is the target with \<^verbatim>\<open>.part\<close>, and every session, live or replaced, has a token of 32 bytes,
  so the token check of the handshake is never skipped.
\<close>

theorem manager_sessions_guarded:
  assumes "manager_reachable J S E P m" and "find_session (m_server m) tid = Some r"
  shows "noDash (transferId (session_at (m_server m) r)) = noDash tid \<and>
    \<not> cancelled (session_at (m_server m) r) \<and>
    tempFilePath (session_at (m_server m) r) = targetFilePath (session_at (m_server m) r) @ ''.part'' \<and>
    (\<forall>tok. token_ok (session_at (m_server m) r) tok \<longleftrightarrow>
      take kTokenSize tok = tokenBytes (session_at (m_server m) r))"
proof -
  have good: "good_server (m_server m)"
    using manager_reachable_good [OF assms(1)] by (simp add: manager_inv_def)
  note inv = good_inv [OF good]
  note valid = find_session_valid [OF inv assms(2)]
  have mem: "session_at (m_server m) r \<in> set (m_store (m_server m))"
    using valid(1) by (simp add: session_at_def)
  have "um_wf (m_sessions (m_server m))" using inv by (simp add: server_inv_def)
  from find_session_Some [OF this assms(2)] have "\<not> cancelled (session_at (m_server m) r)"
    using server_inv_lookup(3) [OF inv] by blast
  with valid(2) mem good show ?thesis
    by (simp add: good_server_def server_inv_def list_all_iff token_ok_def)
qed

theorem manager_sessions_guarded_witness:
  "\<not> cancelled (session_at (m_server (handleFileOffer json_model sodium_model os_model demo_platform 7
      (to_json json_model demo_offer) demo_manager)) (length (m_store (m_server demo_manager))))"
proof -
  let ?m = "handleFileOffer json_model sodium_model os_model demo_platform 7 (to_json json_model demo_offer) demo_manager"
  have "find_session (m_server ?m) (uuid_string demo_uid) = Some (length (m_store (m_server demo_manager)))"
    by (rule find_session_exact) (simp add: handleFileOffer_sels [OF demo_offer_json])
  from manager_sessions_guarded [OF mr_step [OF demo_manager_reachable ms_offer] this] show ?thesis by blast
qed

text \<open>
  A file that is sent is offered with its true hash and then served. For a readable file,
  \<^verbatim>\<open>sendFiles\<close> puts one offer on the WebSocket, with the file's name, size and SHA-256 (read
  in pieces of 64 KiB); the phone's \<^verbatim>\<open>file_accept\<close> is answered with a token; and a
  connection with that token gets the frames of exactly that file, after which the session the
  offer went to is told \<^verbatim>\<open>file_complete\<close>.
\<close>

lemma sent_file_accepted:
  assumes "json_value_laws J" and "sha256_laws S" and "m_running (m_server m)"
    and "sid \<noteq> 0" and "f = disk (m_server m)" and "fs_exists E f path" and "\<not> fi_isDir P f path"
    and "fs_open_read E f path = Some content"
    and "tid = uuid_string (drawn_uuid P (m_rng m))" and "m1 = sendFiles J S E P sid [path] m"
    and "value_string J payload ''transferId'' [] = Inr tid" and "tok = token_bytes P (m_rng m1)"
    and "meta = \<lparr>tm_sessionId = sid, tm_offer = file_offer S E P f path content tid, tm_filePath = path\<rparr>"
    and "s = new_session tid (toBase64 S tok) tok path (fi_size P f path) (hexString (sha256 S content)) DesktopDownloadToMobile"
  shows "\<exists>m2 r. handleFileAccept J S P sid payload m1 = Inr m2 \<and>
    outbox m1 = outbox m @ [(sid, json_dump J (to_json J (tm_offer meta)))] \<and> signals m2 = signals m \<and>
    outbox m2 = outbox m1 @ [(sid, ready_message J tid (toBase64 S tok))] \<and>
    um_find (m_activeOffers m2) tid = Some meta \<and> find_session (m_server m2) tid = Some r \<and>
    session_at (m_server m2) r = s \<and> disk (m_server m2) = f \<and> m_running (m_server m2)"
proof -
  have "m1 = send_one J S E P sid path m"
    using assms(4,10) by (simp add: sendFiles_def)
  note one = send_one_sels [OF assms(2,5-9) refl, of J sid, folded this]
  have "um_find (m_activeOffers m1) tid = Some meta" by (simp add: one assms(13))
  moreover have "tid \<noteq> []" by (simp add: assms(9))
  ultimately obtain m2 where acc: "handleFileAccept J S P sid payload m1 = Inr m2"
    and sv2: "m_server m2 = registerTransfer tid (toBase64 S tok) tok path (fi_size P f path)
      (hexString (sha256 S content)) DesktopDownloadToMobile (m_server m1)"
    and off2: "m_activeOffers m2 = m_activeOffers m1"
    and out2: "outbox m2 = outbox m1 @ [(sid, ready_message J tid (toBase64 S tok))]"
    using handleFileAccept_known [of J payload tid m1 meta tok P S sid] assms(11,12)
    by (auto simp: file_offer_def assms(13))
  have "find_session (m_server m2) tid = Some (length (m_store (m_server m1)))"
    unfolding assms(9) by (rule find_session_exact) (simp add: sv2 assms(9))
  moreover have "session_at (m_server m2) (length (m_store (m_server m1))) = s"
    by (simp add: sv2 session_at_def assms(14))
  moreover have "signals m2 = signals m" using handler_signals(2) [OF acc] by (simp add: assms(10) sendFiles_signals)
  ultimately show ?thesis
    using acc off2 out2 one assms(3,5) by (auto simp: sv2 assms(13))
qed

lemma sent_file_served:
  assumes fs: "fs_laws E V" and "m_running (m_server m2)" and "find_session (m_server m2) (uuid_string uid) = Some r"
    and "session_at (m_server m2) r =
      new_session (uuid_string uid) b64 tok path n (hexString (sha256 S content)) DesktopDownloadToMobile"
    and "length uid = 16" and "length tok = 32"
    and "um_find (m_activeOffers m2) (uuid_string uid) = Some meta" and "tm_sessionId meta \<noteq> 0"
    and "fs_open_read E (disk (m_server m2)) path = Some content" and "unat n = length content"
    and "avail (incoming c) = handshake uid tok 1 @ data"
    and "length (file_stream (length content) content) \<le> room c"
  shows "\<exists>c' m3 sgs. manager_connection J S E c m2 = Some (c', m3) \<and>
    sent c' = sent c @ file_stream (length content) content \<and> disk (m_server m3) = disk (m_server m2) \<and>
    outbox m3 = outbox m2 @ [(tm_sessionId meta, json_dump J (json_object J [(''type'', json_string J ''file_complete''),
      (''transferId'', json_string J (uuid_string uid)), (''ok'', json_bool J True)]))] \<and>
    list_all is_progress_signal sgs \<and>
    signals m3 = signals m2 @ sgs @ [TransferFinished (uuid_string uid) (fo_name (tm_offer meta)) True []]"
proof -
  let ?tid = "uuid_string uid" and ?chunks = "\<lambda>k. take k (split_chunks kChunkPlaintextSize content)"
  have live: "token_ok (session_at (m_server m2) r) tok" "\<not> cancelled (session_at (m_server m2) r)"
    "fs_open_read E (disk (m_server m2)) (targetFilePath (session_at (m_server m2) r)) = Some content"
    unfolding assms(4) using assms(6,9) by (simp_all add: new_session_def token_ok_def kTokenSize_def)
  obtain c' sv' where run: "handleConnection S E c (m_server m2) = Some (c', sv')"
    and res: "download_result r content 0 c (m_server m2) c' sv'"
    using download_run [OF fs assms(5,6,11,3) live(1) assms(2) live(2,3), of S] assms(10,12)
    by (auto simp: assms(4) new_session_def split: if_splits)
  from res assms(10,12) obtain k where sent: "sent c' = sent c @ file_stream (length content) content"
    and ev: "events sv' = events (m_server m2) @ progress_log ?tid n 0 (?chunks k) @ [OnFinished ?tid True []]"
    and disk: "disk sv' = disk (m_server m2)"
    by (auto simp: download_result_def Let_def assms(4) new_session_def)
  define m' where "m' = fold (on_event J) (progress_log ?tid n 0 (?chunks k)) (m2\<lparr>m_server := sv'\<rparr>)"
  have m': "outbox m' = outbox m2" "um_find (m_activeOffers m') ?tid = Some meta" "m_server m' = sv'"
    by (simp_all add: m'_def fold_progress [OF progress_log_progress] assms(7))
  obtain sgs where sgs: "signals m' = signals m2 @ sgs" "list_all is_progress_signal sgs"
    using fold_progress_signals [OF progress_log_progress, of J ?tid n 0 "?chunks k" "m2\<lparr>m_server := sv'\<rparr>"]
    unfolding m'_def by auto
  have "manager_connection J S E c m2 = Some (c', onFinished J ?tid True [] m')"
    by (simp add: manager_connection_def run ev m'_def)
  with onFinished_known [OF m'(2) assms(8), of J] sgs sent disk m' show ?thesis
    by (intro exI [of _ c'] exI [of _ "onFinished J ?tid True [] m'"] exI [of _ sgs]) simp
qed

text \<open>
  C37: \<^verbatim>\<open>file_accept\<close> is not tied to a direction or a sender. If, after a phone's upload offer
  was registered, any WebSocket session sends \<^verbatim>\<open>file_accept\<close> for its id, the upload's session is
  replaced by a download session for the empty path, with a new token that is sent to that
  session.
\<close>

theorem accept_replaces_upload:
  assumes "json_value_laws J" and "manager_inv m" and "from_json J payload = Inr offer"
    and "fo_transferId offer \<noteq> []" and "m1 = handleFileOffer J S E P sid payload m"
    and "accept = json_object J [(''transferId'', json_string J (fo_transferId offer))]"
  shows "\<exists>m2 tok. handleFileAccept J S P sid2 accept m1 = Inr m2 \<and>
    last (outbox m2) = (sid2, ready_message J (fo_transferId offer) (toBase64 S tok)) \<and>
    table_lookup (m_server m2) (fo_transferId offer) =
      Some (new_session (fo_transferId offer) (toBase64 S tok) tok [] (fo_size offer) (fo_sha256 offer)
        DesktopDownloadToMobile)"
proof -
  let ?meta = "\<lparr>tm_sessionId = sid, tm_offer = offer, tm_filePath = []\<rparr>"
  have "value_string J accept ''transferId'' [] = Inr (fo_transferId offer)"
    unfolding assms(6) by (rule json_value_string(1) [OF assms(1)]) simp_all
  moreover have "um_find (m_activeOffers m1) (fo_transferId offer) = Some ?meta"
    unfolding assms(5) handleFileOffer_sels [OF assms(3)] by simp
  ultimately obtain m2 where m2: "handleFileAccept J S P sid2 accept m1 = Inr m2"
    "m_server m2 = registerTransfer (fo_transferId offer) (toBase64 S (token_bytes P (m_rng m1)))
       (token_bytes P (m_rng m1)) [] (fo_size offer) (fo_sha256 offer) DesktopDownloadToMobile (m_server m1)"
    "outbox m2 = outbox m1 @ [(sid2, ready_message J (fo_transferId offer) (toBase64 S (token_bytes P (m_rng m1))))]"
    using handleFileAccept_known [of J accept "fo_transferId offer" m1 ?meta] assms(4) by fastforce
  moreover have "server_inv (m_server m1)"
    unfolding assms(5) by (rule inv_good [OF inv_handleFileOffer [OF assms(2)]])
  ultimately show ?thesis
    by (intro exI [of _ m2] exI [of _ "token_bytes P (m_rng m1)"]) (simp add: tt.lookup_register)
qed

theorem accept_replaces_upload_witness:
  "\<exists>m2 tok. table_lookup (m_server m2) (uuid_string demo_uid) =
      Some (new_session (uuid_string demo_uid) (toBase64 sodium_model tok) tok [] 5
        (hexString (sha256 sodium_model [1, 2, 3, 4, 5])) DesktopDownloadToMobile) \<and>
     handleFileAccept json_model sodium_model demo_platform 8
       (json_object json_model [(''transferId'', json_string json_model (uuid_string demo_uid))])
       (handleFileOffer json_model sodium_model os_model demo_platform 7 (to_json json_model demo_offer) demo_manager)
       = Inr m2"
  using accept_replaces_upload [OF json_model_value_laws demo_manager_inv demo_offer_json _ refl refl,
      of sodium_model demo_platform 8 os_model 7]
  by (simp del: json_model_sels) blast

end
