(* ===== verification/StreamReceiver.thy ===== *)
theory StreamReceiver
  imports Queues Framing
begin

text \<open>
  \<^verbatim>\<open>src/core/StreamReceiver.{h,cpp}\<close>: the network thread cuts the video stream on port 45679
  into units and puts them into a queue of at most 120, which it empties when it is full; the
  decoder thread takes them out. \<open>receiveLoop\<close> is the network thread's loop over one
  connection; \<open>stream_step\<close> interleaves it with the decoder thread, the flip setting and the
  stop. What is handed to \<^verbatim>\<open>VideoDecoder::pushNalu\<close> is the list \<open>decoded\<close>.
\<close>

section \<open>State and operations\<close>

definition kMaxQueueDepth :: nat where "kMaxQueueDepth = 120"
definition kMaxNalu :: u32 where "kMaxNalu = 4 * 1024 * 1024"

text \<open>
  \<open>decoder_flip\<close> is the decoder's own flag, \<open>None\<close> before there is a decoder;
  \<open>statuses\<close> are the calls of \<^verbatim>\<open>m_onStatus\<close>.
\<close>

record StreamReceiver =
  sr_running :: bool
  sr_flip :: bool
  decoder_flip :: "bool option"
  s_naluQueue :: "bytes list"
  decoded :: "bytes list"
  statuses :: "bool list"

definition newStreamReceiver :: "bytes list \<Rightarrow> StreamReceiver" where
  "newStreamReceiver queue = \<lparr>sr_running = False, sr_flip = True, decoder_flip = None,
     s_naluQueue = queue, decoded = [], statuses = []\<rparr>"

text \<open>
  \<^verbatim>\<open>start\<close>: a new decoder flips by default; it is given the setting only if its \<^verbatim>\<open>init\<close>
  succeeds. \<open>bound\<close> tells whether the port could be bound.
\<close>

definition stream_start :: "bool \<Rightarrow> bool \<Rightarrow> StreamReceiver \<Rightarrow> bool \<times> StreamReceiver" where
  "stream_start init_ok bound s =
     (let s1 = s\<lparr>decoder_flip := Some True\<rparr> in
      if \<not> init_ok then (False, s1)
      else let s2 = s1\<lparr>decoder_flip := Some (sr_flip s1)\<rparr> in
        if \<not> bound then (False, s2) else (True, s2\<lparr>sr_running := True\<rparr>))"

definition stream_stop :: "StreamReceiver \<Rightarrow> StreamReceiver" where
  "stream_stop s = (if \<not> sr_running s then s else s\<lparr>sr_running := False, s_naluQueue := []\<rparr>)"

definition setFlipHorizontal :: "bool \<Rightarrow> StreamReceiver \<Rightarrow> StreamReceiver" where
  "setFlipHorizontal flip s =
     (let s1 = s\<lparr>sr_flip := flip\<rparr> in
      case decoder_flip s1 of None \<Rightarrow> s1 | Some d \<Rightarrow> s1\<lparr>decoder_flip := Some flip\<rparr>)"

definition flipHorizontal :: "StreamReceiver \<Rightarrow> bool" where
  "flipHorizontal s = (case decoder_flip s of None \<Rightarrow> sr_flip s | Some d \<Rightarrow> d)"

text \<open>The critical section of the network thread, and that of the decoder thread.\<close>

definition enqueue_nalu :: "bytes \<Rightarrow> StreamReceiver \<Rightarrow> StreamReceiver" where
  "enqueue_nalu nalu s =
     (let q = (if kMaxQueueDepth \<le> length (s_naluQueue s) then [] else s_naluQueue s)
      in s\<lparr>s_naluQueue := q @ [nalu]\<rparr>)"

definition dequeue_nalu :: "StreamReceiver \<Rightarrow> (bytes \<times> StreamReceiver) option" where
  "dequeue_nalu s =
     (case s_naluQueue s of [] \<Rightarrow> None | nalu # rest \<Rightarrow> Some (nalu, s\<lparr>s_naluQueue := rest\<rparr>))"

text \<open>
  One turn of \<^verbatim>\<open>decodeLoop\<close>, from its test: it waits while the queue is empty and the receiver runs,
  and after a stop the loop is left, whatever waits.
\<close>

definition decode_turn :: "StreamReceiver \<Rightarrow> StreamReceiver option" where
  "decode_turn s =
     (if \<not> sr_running s then None
      else case dequeue_nalu s of None \<Rightarrow> None | Some (nalu, s1) \<Rightarrow> Some (s1\<lparr>decoded := decoded s1 @ [nalu]\<rparr>))"

text \<open>
  One turn of \<^verbatim>\<open>receiveLoop\<close>: the rest of the stream, or \<open>None\<close> when the loop is left. It does not
  return when a \<open>silent\<close> client leaves it waiting in the middle of a unit.
\<close>

definition receive_turn ::
  "bool \<Rightarrow> segments \<Rightarrow> StreamReceiver \<Rightarrow> (segments option \<times> StreamReceiver) option" where
  "receive_turn silent ss s =
     (if \<not> sr_running s then Some (None, s)
      else case read_frame (readExact silent) kMaxNalu ss of
        None \<Rightarrow> None
      | Some (Frame nalu, rest) \<Rightarrow> Some (Some rest, enqueue_nalu nalu s)
      | Some (_, rest) \<Rightarrow> Some (None, s))"

lemma receive_turn_frame:
  assumes "receive_turn silent ss s = Some (Some ss', s')"
  obtains nalu where "avail ss = frame nalu @ avail ss'" "s' = enqueue_nalu nalu s"
    "0 < length nalu" "length nalu \<le> unat kMaxNalu" "sr_running s" "stalls silent ss' = stalls silent ss"
proof -
  from assms obtain nalu where run: "sr_running s"
    and f: "read_frame (readExact silent) kMaxNalu ss = Some (Frame nalu, ss')" and s': "s' = enqueue_nalu nalu s"
    by (auto simp: receive_turn_def split: if_splits option.splits prod.splits frame_result.splits)
  from sock.read_frame_Some [OF f] have "frame_at kMaxNalu (avail ss) = Frame nalu" by simp
  from frame_at_Frame_size(1,2) [OF this] run s' sock.read_frame_view [OF f] that show thesis by blast
qed

lemma receive_turn_shrinks:
  "receive_turn silent ss s = Some (Some ss', s') \<Longrightarrow> length (avail ss') < length (avail ss)"
  by (erule receive_turn_frame) simp

function receiveLoop :: "bool \<Rightarrow> segments \<Rightarrow> StreamReceiver \<Rightarrow> StreamReceiver option" where
  "receiveLoop silent ss s =
     (case receive_turn silent ss s of
        None \<Rightarrow> None
      | Some (None, s') \<Rightarrow> Some s'
      | Some (Some ss', s') \<Rightarrow> receiveLoop silent ss' s')"
  by pat_completeness auto
termination
  by (relation "measure (\<lambda>(silent, ss, s). length (avail ss))") (auto dest: receive_turn_shrinks)

declare receiveLoop.simps [simp del]

text \<open>One client of \<^verbatim>\<open>acceptLoop\<close>: the status goes on, the stream is received, it goes off.\<close>

definition serve_client :: "bool \<Rightarrow> segments \<Rightarrow> StreamReceiver \<Rightarrow> StreamReceiver option" where
  "serve_client silent ss s =
     map_option (\<lambda>s1. s1\<lparr>statuses := statuses s1 @ [False]\<rparr>)
       (receiveLoop silent ss (s\<lparr>statuses := statuses s @ [True]\<rparr>))"

text \<open>One client after the other: whoever keeps the loop waiting keeps all later ones out.\<close>

fun stream_acceptLoop :: "(bool \<times> segments) list \<Rightarrow> StreamReceiver \<Rightarrow> StreamReceiver option" where
  "stream_acceptLoop [] s = Some s"
| "stream_acceptLoop ((silent, ss) # clients) s =
     (if \<not> sr_running s then Some s
      else Option.bind (serve_client silent ss s) (stream_acceptLoop clients))"

section \<open>The queue between the threads\<close>

interpretation nq: lossy_queue s_naluQueue enqueue_nalu dequeue_nalu
    "\<lambda>s. kMaxQueueDepth \<le> length (s_naluQueue s)" "\<lambda>s. length (s_naluQueue s) \<le> kMaxQueueDepth"
  by unfold_locales
    (auto simp: enqueue_nalu_def dequeue_nalu_def kMaxQueueDepth_def Let_def split: list.splits)

inductive stream_step :: "segments \<times> StreamReceiver \<Rightarrow> segments \<times> StreamReceiver \<Rightarrow> bool" where
  ss_net: "receive_turn silent ss s = Some (Some ss', s') \<Longrightarrow> stream_step (ss, s) (ss', s')"
| ss_decode: "decode_turn s = Some s' \<Longrightarrow> stream_step (ss, s) (ss, s')"
| ss_flip: "stream_step (ss, s) (ss, setFlipHorizontal flip s)"

inductive stream_run :: "segments \<times> StreamReceiver \<Rightarrow> segments \<times> StreamReceiver \<Rightarrow> bool" where
  sr_refl: "stream_run p p"
| sr_step: "stream_run p q \<Longrightarrow> stream_step q r \<Longrightarrow> stream_run p r"

lemma enqueue_sels [simp]:
  "sr_running (enqueue_nalu nalu s) = sr_running s" "decoded (enqueue_nalu nalu s) = decoded s"
  "statuses (enqueue_nalu nalu s) = statuses s"
  by (simp_all add: enqueue_nalu_def Let_def)

lemma setFlip_sels [simp]:
  "s_naluQueue (setFlipHorizontal flip s) = s_naluQueue s" "decoded (setFlipHorizontal flip s) = decoded s"
  "sr_running (setFlipHorizontal flip s) = sr_running s"
  by (simp_all add: setFlipHorizontal_def Let_def split: option.split)

text \<open>
  What holds along a run from an empty queue: the units \<open>ns\<close> cut off so far are the stream's,
  and what was decoded and what waits is a subsequence of them. Without a full queue it is all
  of them.
\<close>

definition stream_inv :: "bytes \<Rightarrow> segments \<times> StreamReceiver \<Rightarrow> bool" where
  "stream_inv data p \<longleftrightarrow> length (s_naluQueue (snd p)) \<le> kMaxQueueDepth \<and>
     (\<exists>ns. data = stream_of ns @ avail (fst p) \<and>
        list_all (\<lambda>n. 0 < length n \<and> length n \<le> unat kMaxNalu) ns \<and>
        subseq (decoded (snd p) @ s_naluQueue (snd p)) ns \<and>
        (length ns \<le> kMaxQueueDepth \<longrightarrow> decoded (snd p) @ s_naluQueue (snd p) = ns))"

lemma stream_step_inv:
  assumes "stream_step p q" and "stream_inv data p"
  shows "stream_inv data q"
  using assms(1)
proof (cases rule: stream_step.cases)
  case (ss_net silent ss s ss' s')
  from receive_turn_frame [OF ss_net(3)] obtain nalu where f: "avail ss = frame nalu @ avail ss'"
    "s' = enqueue_nalu nalu s" "0 < length nalu" "length nalu \<le> unat kMaxNalu" by metis
  from assms(2) ss_net(1) obtain ns where ns: "data = stream_of ns @ avail ss"
    "list_all (\<lambda>n. 0 < length n \<and> length n \<le> unat kMaxNalu) ns"
    "subseq (decoded s @ s_naluQueue s) ns"
    "length ns \<le> kMaxQueueDepth \<longrightarrow> decoded s @ s_naluQueue s = ns"
    and q: "length (s_naluQueue s) \<le> kMaxQueueDepth"
    by (auto simp: stream_inv_def)
  have "subseq (decoded s @ s_naluQueue s') (ns @ [nalu])"
    using nq.run_subseq [OF q ns(3), of "[Put nalu]"] f(2) by simp
  moreover have "decoded s @ s_naluQueue s' = ns @ [nalu]" if "length (ns @ [nalu]) \<le> kMaxQueueDepth"
  proof -
    have "decoded s @ s_naluQueue s = ns" using ns(4) that by simp
    moreover then have "length (s_naluQueue s) < kMaxQueueDepth" using that by auto
    ultimately show ?thesis using nq.put_contents [OF q] f(2) by (auto simp: not_le)
  qed
  moreover have "length (s_naluQueue s') \<le> kMaxQueueDepth" using nq.inv_put [OF q] f(2) by simp
  ultimately show ?thesis
    using f ns(1,2) unfolding stream_inv_def ss_net(2) by (auto intro!: exI [of _ "ns @ [nalu]"])
next
  case (ss_decode s s' ss)
  then have "decoded s' @ s_naluQueue s' = decoded s @ s_naluQueue s"
    "length (s_naluQueue s') \<le> length (s_naluQueue s)"
    by (auto simp: decode_turn_def dequeue_nalu_def split: list.splits if_splits)
  with assms(2) ss_decode(1,2) show ?thesis by (auto simp: stream_inv_def)
next
  case (ss_flip ss s flip)
  with assms(2) show ?thesis by (simp add: stream_inv_def)
qed

lemma stream_run_inv: "stream_run p q \<Longrightarrow> stream_inv data p \<Longrightarrow> stream_inv data q"
  by (induction rule: stream_run.induct) (auto intro: stream_step_inv)

lemma stream_step_running: "stream_step p q \<Longrightarrow> sr_running (snd q) = sr_running (snd p)"
  by (cases rule: stream_step.cases)
    (auto elim: receive_turn_frame simp: decode_turn_def dequeue_nalu_def split: if_splits list.splits)

lemma stream_run_running: "stream_run p q \<Longrightarrow> sr_running (snd q) = sr_running (snd p)"
  by (induction rule: stream_run.induct) (auto dest: stream_step_running)

text \<open>
  The loop over a connection that does not keep it waiting, and over one that stops for good in the
  middle of a unit.
\<close>

lemma receiveLoop_eq:
  "sr_running s \<Longrightarrow> \<not> stalls silent ss \<Longrightarrow>
   receiveLoop silent ss s = Some (fold enqueue_nalu (frames_of kMaxNalu (avail ss)) s)"
proof (induction silent ss s rule: receiveLoop.induct)
  case (1 silent ss s)
  from sock.read_frame_returns [where silent = silent, OF 1(3)] obtain rest where
    r: "read_frame (readExact silent) kMaxNalu ss = Some (frame_at kMaxNalu (avail ss), rest)" by blast
  show ?case
  proof (cases "frame_at kMaxNalu (avail ss)")
    case (Frame nalu)
    with r 1(2) have turn: "receive_turn silent ss s = Some (Some rest, enqueue_nalu nalu s)"
      by (simp add: receive_turn_def)
    note view = sock.read_frame_view [OF r [unfolded Frame]]
    have "drop (4 + length nalu) (avail ss) = avail rest" using view(1) by (simp add: frame_def)
    then have "frames_of kMaxNalu (avail ss) = nalu # frames_of kMaxNalu (avail rest)"
      using Frame by (subst frames_of.simps) simp
    moreover have "receiveLoop silent rest (enqueue_nalu nalu s) =
        Some (fold enqueue_nalu (frames_of kMaxNalu (avail rest)) (enqueue_nalu nalu s))"
      using "1.IH" [OF turn refl refl] 1(2,3) view(2) by simp
    ultimately show ?thesis using turn by (subst receiveLoop.simps) simp
  qed (use r 1(2) in \<open>simp_all add: receiveLoop.simps [of silent ss s] receive_turn_def frames_of.simps [of kMaxNalu "avail ss"]\<close>)
qed

lemma receiveLoop_waits:
  assumes "frame_at kMaxNalu rest = ShortRead"
  shows "avail ss = stream_of ns @ rest \<Longrightarrow> list_all (\<lambda>n. 0 < length n \<and> length n \<le> unat kMaxNalu) ns \<Longrightarrow>
    sr_running s \<Longrightarrow> stalls silent ss \<Longrightarrow> receiveLoop silent ss s = None"
proof (induction ns arbitrary: ss s)
  case Nil
  then have "read_frame (readExact silent) kMaxNalu ss = None"
    by (intro sock.read_frame_waits) (simp_all add: assms)
  with Nil show ?case by (subst receiveLoop.simps) (simp add: receive_turn_def)
next
  case (Cons n ns)
  then obtain ss' where r: "read_frame (readExact silent) kMaxNalu ss = Some (Frame n, ss')"
    and ss': "avail ss' = stream_of ns @ rest"
    using sock.read_frame_step [of ss n "stream_of ns @ rest" kMaxNalu silent] by auto
  then have "receive_turn silent ss s = Some (Some ss', enqueue_nalu n s)"
    using Cons.prems(3) by (simp add: receive_turn_def)
  moreover have "receiveLoop silent ss' (enqueue_nalu n s) = None"
    using Cons.IH [OF ss'] Cons.prems sock.read_frame_view(2) [OF r] by simp
  ultimately show ?case by (subst receiveLoop.simps) simp
qed

text \<open>Draining: the decoder thread takes everything that waits.\<close>

lemma decode_all:
  "sr_running s \<Longrightarrow> \<exists>s'. ((\<lambda>s. Option.bind s decode_turn) ^^ length (s_naluQueue s)) (Some s) = Some s' \<and>
     s_naluQueue s' = [] \<and> decoded s' = decoded s @ s_naluQueue s"
proof (induction "s_naluQueue s" arbitrary: s)
  case (Cons nalu rest)
  from Cons.hyps(2) [symmetric] obtain s1 where
    "decode_turn s = Some s1" "s_naluQueue s1 = rest" "decoded s1 = decoded s @ [nalu]" "sr_running s1"
    using Cons.prems by (simp add: decode_turn_def dequeue_nalu_def)
  with Cons.hyps(1) [of s1] Cons.hyps(2) [symmetric] show ?case
    by (simp add: funpow_Suc_right del: funpow.simps)
qed simp

section \<open>Properties\<close>

text \<open>
  C29: the decoder gets units of the stream, whole, in order and at most once each. While the
  receiver runs, however the two threads and the flip setting interleave on one connection, the queue never holds more
  than 120 units, what has been decoded followed by what waits is a subsequence of the units
  that the received bytes are made of, and it is all of them while there have been at most 120,
  so before the queue can have been emptied. The decoder thread's turns then empty the queue.
\<close>

theorem video_units_in_order:
  assumes "stream_run (ss, s) (ss', s')" and "s_naluQueue s = []" and "decoded s = []" and "sr_running s"
  shows "\<exists>ns. avail ss = stream_of ns @ avail ss' \<and>
    list_all (\<lambda>n. 0 < length n \<and> length n \<le> 4194304) ns \<and>
    length (s_naluQueue s') \<le> 120 \<and> subseq (decoded s' @ s_naluQueue s') ns \<and>
    (length ns \<le> 120 \<longrightarrow> decoded s' @ s_naluQueue s' = ns) \<and>
    (\<exists>s''. ((\<lambda>s. Option.bind s decode_turn) ^^ length (s_naluQueue s')) (Some s') = Some s'' \<and>
      s_naluQueue s'' = [] \<and> decoded s'' = decoded s' @ s_naluQueue s')"
proof -
  have "stream_inv (avail ss) (ss, s)"
    using assms(2,3) by (auto simp: stream_inv_def intro: exI [of _ "[]"])
  from stream_run_inv [OF assms(1) this] decode_all [of s'] stream_run_running [OF assms(1)] assms(4) show ?thesis
    by (simp add: stream_inv_def kMaxQueueDepth_def kMaxNalu_def)
qed

definition demo_stream :: segments where
  "demo_stream = [[0, 0], [0, 1, 7, 0, 0, 0, 2, 8], [9]]"

lemma demo_stream_run:
  "\<exists>ss' s'. stream_run (demo_stream, (newStreamReceiver [])\<lparr>sr_running := True\<rparr>) (ss', s') \<and>
     decoded s' = [[7]] \<and> s_naluQueue s' = []"
proof -
  let ?s = "(newStreamReceiver [])\<lparr>sr_running := True\<rparr>"
  have "avail demo_stream = frame [7] @ [0, 0, 0, 2, 8, 9]"
    by (simp add: demo_stream_def frame_def be32_bytes_def)
  from sock.read_frame_step [OF this, of kMaxNalu] obtain rest where
    "read_frame (readExact True) kMaxNalu demo_stream = Some (Frame [7], rest)" by (auto simp: kMaxNalu_def)
  then have "receive_turn True demo_stream ?s = Some (Some rest, enqueue_nalu [7] ?s)"
    by (simp add: receive_turn_def)
  from sr_step [OF sr_refl ss_net [OF this]]
  have "stream_run (demo_stream, ?s) (rest, enqueue_nalu [7] ?s)" .
  moreover obtain s' where s': "decode_turn (enqueue_nalu [7] ?s) = Some s'" "decoded s' = [[7]]" "s_naluQueue s' = []"
    by (simp add: decode_turn_def dequeue_nalu_def enqueue_nalu_def newStreamReceiver_def kMaxQueueDepth_def)
  ultimately show ?thesis using sr_step [OF _ ss_decode [OF s'(1)]] by blast
qed

theorem video_units_in_order_witness:
  "\<exists>ns ss'. avail demo_stream = stream_of ns @ avail ss' \<and> ([7] :: bytes) \<in> set ns"
proof -
  obtain ss' s' where r: "stream_run (demo_stream, (newStreamReceiver [])\<lparr>sr_running := True\<rparr>) (ss', s')"
    and d: "decoded s' = [[7]]" "s_naluQueue s' = []" using demo_stream_run by blast
  from video_units_in_order [OF r] obtain ns where "avail demo_stream = stream_of ns @ avail ss'"
    "subseq (decoded s' @ s_naluQueue s') ns" by (auto simp: newStreamReceiver_def)
  with d show ?thesis by (auto dest: subseq_singleton_left [THEN iffD1])
qed

text \<open>
  C36: the receive loop is a parser. On a running receiver it terminates for every connection that
  ends and leaves in the queue what enqueuing the units of the received bytes leaves, up to the
  first length that is zero or above 4 MiB or the end of the bytes, however they were cut into
  segments; a client that sends well-formed units has each of them recognised; and a client is
  bracketed by one status on and one status off. A client that stops in the middle of a unit and
  stays connected keeps the loop for ever.
\<close>

theorem receive_loop_parses:
  assumes "sr_running s" and "list_all (\<lambda>n. 0 < length n \<and> length n \<le> 4194304) ns"
    and "avail ss = stream_of ns @ rest"
  shows "(\<not> stalls silent ss \<longrightarrow> serve_client silent ss s = Some ((fold enqueue_nalu (ns @ frames_of kMaxNalu rest) s)
      \<lparr>statuses := statuses s @ [True, False]\<rparr>)) \<and>
    (stalls silent ss \<and> frame_at kMaxNalu rest = ShortRead \<longrightarrow> serve_client silent ss s = None)"
proof -
  have frames: "frames_of kMaxNalu (avail ss) = ns @ frames_of kMaxNalu rest"
    unfolding assms(3) by (rule frames_of_stream) (use assms(2) in \<open>simp add: kMaxNalu_def\<close>)
  have "enqueue_nalu n (t\<lparr>statuses := b\<rparr>) = (enqueue_nalu n t)\<lparr>statuses := b\<rparr>" for n t b
    by (cases t) (simp add: enqueue_nalu_def)
  then have status: "fold enqueue_nalu xs (t\<lparr>statuses := b\<rparr>) = (fold enqueue_nalu xs t)\<lparr>statuses := b\<rparr>" for xs t b
    by (induction xs arbitrary: t) simp_all
  have "receiveLoop silent ss (s\<lparr>statuses := b\<rparr>) = None"
    if "stalls silent ss" "frame_at kMaxNalu rest = ShortRead" for b
    by (rule receiveLoop_waits [OF that(2) assms(3) _ _ that(1)]) (use assms(1,2) in \<open>simp_all add: kMaxNalu_def\<close>)
  then show ?thesis
    using assms(1) by (simp add: serve_client_def receiveLoop_eq frames status del: fold_append)
qed

theorem receive_loop_parses_witness:
  "serve_client False demo_stream ((newStreamReceiver [])\<lparr>sr_running := True\<rparr>) =
     Some ((fold enqueue_nalu ([[7], [8, 9]] @ frames_of kMaxNalu []) ((newStreamReceiver [])\<lparr>sr_running := True\<rparr>))
       \<lparr>statuses := [True, False]\<rparr>) \<and>
   serve_client True demo_stream ((newStreamReceiver [])\<lparr>sr_running := True\<rparr>) = None"
proof -
  have "avail demo_stream = stream_of [[7], [8, 9]] @ []"
    by (simp add: demo_stream_def frame_def be32_bytes_def)
  note t = receive_loop_parses [OF _ _ this, of "(newStreamReceiver [])\<lparr>sr_running := True\<rparr>"]
  from t [of False] t [of True] show ?thesis by (simp add: newStreamReceiver_def stalls_def demo_stream_def frame_at_def del: fold_append)
qed

end
