(* ===== verification/VideoDecoder.thy ===== *)
theory VideoDecoder
  imports Prelude Complex_Main
begin

text \<open>
  \<^verbatim>\<open>src/core/VideoDecoder.{h,cpp}\<close>: how a decoded picture is fitted into the fixed canvas of
  the virtual camera, and how the canvas is filled and mirrored. FFmpeg is a parameter: the
  picture that \<^verbatim>\<open>sws_scale\<close> writes, and whether the contexts could be made. C++ leaves the
  rounding of \<^verbatim>\<open>double\<close> to the implementation, so \<open>rnd\<close> is a parameter that rounds a
  rational, with the laws of IEEE 754 doubles (\<open>double_laws\<close>).
\<close>

section \<open>Doubles and integer operators\<close>

definition double_laws :: "(rat \<Rightarrow> rat) \<Rightarrow> bool" where
  "double_laws rnd \<longleftrightarrow>
     (\<forall>x y. x \<le> y \<longrightarrow> rnd x \<le> rnd y) \<and>
     (\<forall>x. rnd (rnd x) = rnd x) \<and>
     (\<forall>n. \<bar>n\<bar> \<le> 2 ^ 53 \<longrightarrow> rnd (of_int n) = of_int n) \<and>
     (\<forall>x. 1 / 2 ^ 100 \<le> x \<longrightarrow> x \<le> 2 ^ 100 \<longrightarrow> rnd x \<le> x * (1 + 1 / 2 ^ 53) \<and> x * (1 - 1 / 2 ^ 53) \<le> rnd x)"

text \<open>\<^verbatim>\<open>static_cast<int>\<close>, division by 2, and \<^verbatim>\<open>& ~1\<close> on two's complement.\<close>

definition trunc_int :: "rat \<Rightarrow> int" where
  "trunc_int x = (if 0 \<le> x then \<lfloor>x\<rfloor> else \<lceil>x\<rceil>)"

definition half :: "int \<Rightarrow> int" where
  "half n = (if 0 \<le> n then n div 2 else - ((- n) div 2))"

definition even_down :: "int \<Rightarrow> int" where
  "even_down n = 2 * (n div 2)"

section \<open>State\<close>

type_synonym pixel = "u8 \<times> u8 \<times> u8"

text \<open>
  \<open>m_sws\<close> tells whether there is a scaling context, \<open>m_onFrame\<close> whether a callback is set; \<open>m_rgbBuffer\<close> is the canvas in pixels,
  three bytes each; \<open>frames\<close> are the calls of \<^verbatim>\<open>m_onFrame\<close>.
\<close>

record VideoDecoder =
  m_targetWidth :: int
  m_targetHeight :: int
  m_srcWidth :: int
  m_srcHeight :: int
  m_scaledWidth :: int
  m_scaledHeight :: int
  m_offsetX :: int
  m_offsetY :: int
  m_lastFormat :: int
  m_sws :: bool
  m_flipHorizontal :: bool
  m_rgbBuffer :: "pixel list"
  m_onFrame :: bool
  frames :: "(pixel list \<times> int \<times> int) list"

definition newVideoDecoder :: VideoDecoder where
  "newVideoDecoder = \<lparr>m_targetWidth = 1920, m_targetHeight = 1080, m_srcWidth = 0, m_srcHeight = 0,
     m_scaledWidth = 0, m_scaledHeight = 0, m_offsetX = 0, m_offsetY = 0, m_lastFormat = -1,
     m_sws = False, m_flipHorizontal = True, m_rgbBuffer = [], m_onFrame = False, frames = []\<rparr>"

definition black :: pixel where "black = (0, 0, 0)"

text \<open>\<^verbatim>\<open>init\<close>: \<open>codec_ok\<close> tells whether FFmpeg had the codec and the contexts.\<close>

definition decoder_init :: "bool \<Rightarrow> int \<Rightarrow> int \<Rightarrow> VideoDecoder \<Rightarrow> bool \<times> VideoDecoder" where
  "decoder_init codec_ok targetWidth targetHeight d =
     (let d1 = d\<lparr>m_targetWidth := (if targetWidth > 0 then targetWidth else 1920),
                 m_targetHeight := (if targetHeight > 0 then targetHeight else 1080)\<rparr>
      in if \<not> codec_ok then (False, d1)
         else (True, d1\<lparr>m_rgbBuffer := replicate (nat (m_targetWidth d1 * m_targetHeight d1)) black\<rparr>))"

section \<open>Fitting a picture into the canvas\<close>

record picture =
  pic_width :: int
  pic_height :: int
  pic_format :: int
  pic_id :: nat

definition fit_width :: "(rat \<Rightarrow> rat) \<Rightarrow> VideoDecoder \<Rightarrow> VideoDecoder" where
  "fit_width rnd d =
     (let srcAspect = rnd (of_int (m_srcWidth d) / of_int (m_srcHeight d));
          h0 = even_down (trunc_int (rnd (of_int (m_targetWidth d) / srcAspect)));
          h = (if h0 < 2 then 2 else h0)
      in d\<lparr>m_scaledWidth := m_targetWidth d, m_scaledHeight := h, m_offsetX := 0,
           m_offsetY := even_down (half (m_targetHeight d - h))\<rparr>)"

definition fit_height :: "(rat \<Rightarrow> rat) \<Rightarrow> VideoDecoder \<Rightarrow> VideoDecoder" where
  "fit_height rnd d =
     (let srcAspect = rnd (of_int (m_srcWidth d) / of_int (m_srcHeight d));
          w0 = even_down (trunc_int (rnd (of_int (m_targetHeight d) * srcAspect)));
          w = (if w0 < 2 then 2 else w0)
      in d\<lparr>m_scaledHeight := m_targetHeight d, m_scaledWidth := w,
           m_offsetX := even_down (half (m_targetWidth d - w)), m_offsetY := 0\<rparr>)"

definition fit_picture :: "(rat \<Rightarrow> rat) \<Rightarrow> VideoDecoder \<Rightarrow> VideoDecoder" where
  "fit_picture rnd d =
     (let srcAspect = rnd (of_int (m_srcWidth d) / of_int (m_srcHeight d));
          targetAspect = rnd (of_int (m_targetWidth d) / of_int (m_targetHeight d))
      in if srcAspect > targetAspect then fit_width rnd d else fit_height rnd d)"

text \<open>The body of the loop of \<^verbatim>\<open>decode\<close> before \<^verbatim>\<open>convertToRgb\<close>.\<close>

definition new_geometry :: "(rat \<Rightarrow> rat) \<Rightarrow> (VideoDecoder \<Rightarrow> bool) \<Rightarrow> picture \<Rightarrow> VideoDecoder \<Rightarrow> VideoDecoder" where
  "new_geometry rnd getContext f d =
     (if pic_width f \<noteq> m_srcWidth d \<or> pic_height f \<noteq> m_srcHeight d \<or> pic_format f \<noteq> m_lastFormat d
      then
        let d1 = d\<lparr>m_srcWidth := pic_width f, m_srcHeight := pic_height f, m_lastFormat := pic_format f\<rparr>
        in if m_srcWidth d1 > 0 \<and> m_srcHeight d1 > 0
           then let d2 = fit_picture rnd d1
                in d2\<lparr>m_sws := getContext d2, m_rgbBuffer := replicate (length (m_rgbBuffer d2)) black\<rparr>
           else d1
      else d)"

section \<open>Filling the canvas\<close>

definition write_row :: "nat \<Rightarrow> pixel list \<Rightarrow> pixel list \<Rightarrow> pixel list" where
  "write_row pos row buf = take pos buf @ row @ drop (pos + length row) buf"

definition row_start :: "VideoDecoder \<Rightarrow> nat \<Rightarrow> nat" where
  "row_start d row = nat ((m_offsetY d + int row) * m_targetWidth d + m_offsetX d)"

definition swap_pixels :: "nat \<Rightarrow> nat \<Rightarrow> pixel list \<Rightarrow> pixel list" where
  "swap_pixels i j buf = buf[i := buf ! j, j := buf ! i]"

definition flip_row :: "nat \<Rightarrow> nat \<Rightarrow> pixel list \<Rightarrow> pixel list" where
  "flip_row pos w buf = fold (\<lambda>x. swap_pixels (pos + x) (pos + (w - 1 - x))) [0..<w div 2] buf"

text \<open>
  \<open>scale f w h\<close> are the rows that \<^verbatim>\<open>sws_scale\<close> writes for the picture \<open>f\<close>, one under the
  other, each at the distance of a canvas row.
\<close>

definition convertToRgb ::
  "(picture \<Rightarrow> int \<Rightarrow> int \<Rightarrow> pixel list list) \<Rightarrow> picture \<Rightarrow> VideoDecoder \<Rightarrow> VideoDecoder" where
  "convertToRgb scale f d =
     (if \<not> m_sws d \<or> \<not> m_onFrame d \<or> m_srcWidth d \<le> 0 \<or> m_srcHeight d \<le> 0 then d
      else
        let buf0 = (if m_scaledWidth d < m_targetWidth d \<or> m_scaledHeight d < m_targetHeight d
                    then replicate (length (m_rgbBuffer d)) black else m_rgbBuffer d);
            rows = scale f (m_scaledWidth d) (m_scaledHeight d);
            buf1 = fold (\<lambda>(row, line). write_row (row_start d row) line) (enumerate 0 rows) buf0;
            buf2 = (if m_flipHorizontal d
                    then fold (\<lambda>row. flip_row (row_start d row) (nat (m_scaledWidth d)))
                           [0..<nat (m_scaledHeight d)] buf1
                    else buf1)
        in d\<lparr>m_rgbBuffer := buf2, frames := frames d @ [(buf2, m_targetWidth d, m_targetHeight d)]\<rparr>)"

text \<open>The pictures that FFmpeg hands out for one packet, one after the other.\<close>

definition decode_pictures ::
  "(rat \<Rightarrow> rat) \<Rightarrow> (VideoDecoder \<Rightarrow> bool) \<Rightarrow> (picture \<Rightarrow> int \<Rightarrow> int \<Rightarrow> pixel list list) \<Rightarrow> picture list \<Rightarrow>
   VideoDecoder \<Rightarrow> VideoDecoder" where
  "decode_pictures rnd getContext scale fs d =
     fold (\<lambda>f d. convertToRgb scale f (new_geometry rnd getContext f d)) fs d"

section \<open>The geometry stays inside the canvas\<close>

definition fits :: "VideoDecoder \<Rightarrow> bool" where
  "fits d \<longleftrightarrow> 2 \<le> m_scaledWidth d \<and> 2 \<le> m_scaledHeight d \<and> 0 \<le> m_offsetX d \<and> 0 \<le> m_offsetY d \<and>
     m_offsetX d + m_scaledWidth d \<le> m_targetWidth d \<and> m_offsetY d + m_scaledHeight d \<le> m_targetHeight d"

lemma even_down_le: "even_down n \<le> n"
  by (simp add: even_down_def)

lemma centred:
  assumes "h \<le> t"
  shows "0 \<le> even_down (half (t - h))" "even_down (half (t - h)) + h \<le> t"
  using assms by (simp_all add: even_down_def half_def)

lemma double_lawsD:
  assumes "double_laws rnd"
  shows "x \<le> y \<Longrightarrow> rnd x \<le> rnd y"
    and "rnd (rnd x) = rnd x"
    and "\<bar>n\<bar> \<le> 2 ^ 53 \<Longrightarrow> rnd (of_int n) = of_int n"
    and "1 / 2 ^ 100 \<le> x \<Longrightarrow> x \<le> 2 ^ 100 \<Longrightarrow> rnd x \<le> x * (1 + 1 / 2 ^ 53)"
    and "1 / 2 ^ 100 \<le> x \<Longrightarrow> x \<le> 2 ^ 100 \<Longrightarrow> x * (1 - 1 / 2 ^ 53) \<le> rnd x"
  using assms unfolding double_laws_def by (simp | blast)+

text \<open>Wider than the canvas: the height that keeps the aspect is at most the canvas height.\<close>

lemma fit_width_height:
  fixes W H :: int
  assumes "double_laws rnd" and "0 < W" and "0 < H" and "H \<le> 2 ^ 53"
    and "a = rnd b" and "rnd (of_int W / of_int H) < a"
  shows "trunc_int (rnd (of_int W / a)) \<le> H"
proof -
  have "of_int W / of_int H < a"
  proof (rule ccontr)
    assume "\<not> ?thesis"
    then have "rnd a \<le> rnd (of_int W / of_int H)" by (intro double_lawsD(1) [OF assms(1)]) simp
    with assms(5,6) double_lawsD(2) [OF assms(1)] show False by simp
  qed
  moreover have pos: "(0 :: rat) < of_int W / of_int H" using assms(2,3) by simp
  ultimately have "0 < a" by linarith
  with \<open>of_int W / of_int H < a\<close> have "of_int W / a \<le> of_int H"
    using assms(3) by (simp add: field_simps)
  then have "rnd (of_int W / a) \<le> of_int H"
    using double_lawsD(1) [OF assms(1)] double_lawsD(3) [OF assms(1), of H] assms(3,4) by fastforce
  moreover have "0 \<le> rnd (of_int W / a)"
    using double_lawsD(1) [OF assms(1), of 0 "of_int W / a"] double_lawsD(3) [OF assms(1), of 0]
      \<open>0 < a\<close> assms(2) by simp
  ultimately show ?thesis by (simp add: trunc_int_def floor_le_iff)
qed

text \<open>Not wider: the width that keeps the aspect is at most the canvas width.\<close>

lemma fit_height_width:
  fixes W H :: int
  assumes "double_laws rnd" and "2 \<le> W" and "W \<le> 16384" and "2 \<le> H" and "H \<le> 16384"
    and "0 \<le> a" and "a \<le> rnd (of_int W / of_int H)"
  shows "trunc_int (rnd (of_int H * a)) \<le> W"
proof -
  let ?q = "of_int W / of_int H :: rat" and ?u = "1 / 2 ^ 53 :: rat"
  have W: "2 \<le> (of_int W :: rat)" "(of_int W :: rat) \<le> 16384" using assms(2,3) by simp_all
  have H: "2 \<le> (of_int H :: rat)" "(of_int H :: rat) \<le> 16384" using assms(4,5) by simp_all
  have q: "1 / 8192 \<le> ?q" "?q \<le> 8192" using W H by (simp_all add: field_simps)
  have wide: "1 / 2 ^ 100 \<le> ?q" "?q \<le> 2 ^ 100"
    by (rule order_trans [OF _ q(1)], simp, rule order_trans [OF q(2)], simp)
  have "rnd ?q \<le> ?q * (1 + ?u)" by (rule double_lawsD(4) [OF assms(1) wide])
  then have "of_int H * rnd ?q \<le> of_int H * (?q * (1 + ?u))"
    using H by (intro mult_left_mono) simp_all
  also have "\<dots> = of_int W * (1 + ?u)" using H by simp
  finally have up: "of_int H * rnd ?q \<le> of_int W * (1 + ?u)" .
  have "1 / 16384 \<le> ?q * (1 - ?u)" using q by simp
  also have "\<dots> \<le> rnd ?q" by (rule double_lawsD(5) [OF assms(1) wide])
  finally have low: "1 / 16384 \<le> rnd ?q" .
  have "2 * (1 / 16384) \<le> of_int H * rnd ?q"
    by (rule mult_mono) (use H low in simp_all)
  then have lo: "1 / 2 ^ 100 \<le> of_int H * rnd ?q" by (rule order_trans [rotated]) simp
  have "of_int W * (1 + ?u) \<le> 16384 * 2" by (rule mult_mono) (use W in simp_all)
  with up have hi: "of_int H * rnd ?q \<le> 2 ^ 100" by (intro order_trans [OF up]) simp
  have "rnd (of_int H * rnd ?q) \<le> (of_int H * rnd ?q) * (1 + ?u)"
    by (rule double_lawsD(4) [OF assms(1) lo hi])
  also have "\<dots> \<le> of_int W * (1 + ?u) * (1 + ?u)"
    by (rule mult_right_mono [OF up]) simp
  also have "\<dots> < of_int W + 1" using W by (simp add: field_simps)
  finally have "rnd (of_int H * rnd ?q) < of_int W + 1" .
  moreover have "rnd (of_int H * a) \<le> rnd (of_int H * rnd ?q)"
    using assms(7) H by (intro double_lawsD(1) [OF assms(1)] mult_left_mono) simp_all
  moreover have "0 \<le> rnd (of_int H * a)"
    using double_lawsD(1) [OF assms(1), of 0 "of_int H * a"] double_lawsD(3) [OF assms(1), of 0] assms(6) H by simp
  ultimately show ?thesis by (simp add: trunc_int_def floor_le_iff)
qed

lemma aspect_nonneg: "double_laws rnd \<Longrightarrow> 0 \<le> n \<Longrightarrow> 0 \<le> m \<Longrightarrow> 0 \<le> rnd (of_int n / of_int m)"
  using double_lawsD(1) [of rnd 0 "of_int n / of_int m"] double_lawsD(3) [of rnd 0] by simp

lemma fit_picture_fits:
  assumes "double_laws rnd" and "2 \<le> m_targetWidth d" and "m_targetWidth d \<le> 16384"
    and "2 \<le> m_targetHeight d" and "m_targetHeight d \<le> 16384"
    and "0 < m_srcWidth d" and "0 < m_srcHeight d"
  shows "fits (fit_picture rnd d)"
proof (cases "rnd (of_int (m_srcWidth d) / of_int (m_srcHeight d)) >
    rnd (of_int (m_targetWidth d) / of_int (m_targetHeight d))")
  case True
  let ?a = "rnd (of_int (m_srcWidth d) / of_int (m_srcHeight d))"
  let ?h0 = "even_down (trunc_int (rnd (of_int (m_targetWidth d) / ?a)))"
  have "trunc_int (rnd (of_int (m_targetWidth d) / ?a)) \<le> m_targetHeight d"
    by (rule fit_width_height [OF assms(1) _ _ _ refl True]) (use assms in simp_all)
  then have "(if ?h0 < 2 then 2 else ?h0) \<le> m_targetHeight d"
    using even_down_le [of "trunc_int (rnd (of_int (m_targetWidth d) / ?a))"] assms(4) by simp
  from centred [OF this] assms(2) True show ?thesis
    by (simp add: fit_picture_def fit_width_def Let_def fits_def split del: if_split)
      (simp split: if_split)
next
  case False
  let ?a = "rnd (of_int (m_srcWidth d) / of_int (m_srcHeight d))"
  let ?w0 = "even_down (trunc_int (rnd (of_int (m_targetHeight d) * ?a)))"
  have "trunc_int (rnd (of_int (m_targetHeight d) * ?a)) \<le> m_targetWidth d"
    by (rule fit_height_width [OF assms(1-5)]) (use False assms(6,7) aspect_nonneg [OF assms(1)] in simp_all)
  then have "(if ?w0 < 2 then 2 else ?w0) \<le> m_targetWidth d"
    using even_down_le [of "trunc_int (rnd (of_int (m_targetHeight d) * ?a))"] assms(2) by simp
  from centred [OF this] assms(4) False show ?thesis
    by (simp add: fit_picture_def fit_height_def Let_def fits_def split del: if_split)
      (simp split: if_split)
qed

section \<open>The canvas in coordinates\<close>

lemma length_write_row [simp]: "pos + length line \<le> length buf \<Longrightarrow> length (write_row pos line buf) = length buf"
  by (simp add: write_row_def)

lemma write_row_nth:
  assumes "pos + length line \<le> length buf" and "k < length buf"
  shows "write_row pos line buf ! k =
    (if pos \<le> k \<and> k < pos + length line then line ! (k - pos) else buf ! k)"
  using assms by (auto simp: write_row_def nth_append not_less min_def)

lemma length_swap_pixels [simp]: "length (swap_pixels i j buf) = length buf"
  by (simp add: swap_pixels_def)

lemma swap_pixels_nth:
  assumes "i < length buf" and "j < length buf"
  shows "swap_pixels i j buf ! k = (if k = i then buf ! j else if k = j then buf ! i else buf ! k)"
  using assms by (auto simp: swap_pixels_def nth_list_update)

lemma flip_partial:
  assumes "pos + w \<le> length buf" and "n \<le> w div 2"
  shows "length (fold (\<lambda>x. swap_pixels (pos + x) (pos + (w - 1 - x))) [0..<n] buf) = length buf \<and>
    (\<forall>k. fold (\<lambda>x. swap_pixels (pos + x) (pos + (w - 1 - x))) [0..<n] buf ! k =
      (if pos \<le> k \<and> k < pos + w \<and> (k - pos < n \<or> w - 1 - (k - pos) < n)
       then buf ! (pos + (w - 1 - (k - pos))) else buf ! k))"
  using assms(2)
proof (induction n)
  case (Suc n)
  let ?b = "fold (\<lambda>x. swap_pixels (pos + x) (pos + (w - 1 - x))) [0..<n] buf"
  from Suc have IH: "length ?b = length buf"
    "\<And>k. ?b ! k = (if pos \<le> k \<and> k < pos + w \<and> (k - pos < n \<or> w - 1 - (k - pos) < n)
       then buf ! (pos + (w - 1 - (k - pos))) else buf ! k)" by simp_all
  have n: "2 * n + 1 < w" using Suc.prems by simp
  have bounds: "pos + n < length ?b" "pos + (w - 1 - n) < length ?b"
    unfolding IH(1) using n assms(1) by linarith+
  show ?case
  proof (intro conjI allI)
    show "length (fold (\<lambda>x. swap_pixels (pos + x) (pos + (w - 1 - x))) [0..<Suc n] buf) = length buf"
      using IH(1) by simp
    fix k
    have ends: "?b ! (pos + n) = buf ! (pos + n)" "?b ! (pos + (w - 1 - n)) = buf ! (pos + (w - 1 - n))"
      using n unfolding IH(2) by auto
    have last: "fold (\<lambda>x. swap_pixels (pos + x) (pos + (w - 1 - x))) [0..<Suc n] buf =
        swap_pixels (pos + n) (pos + (w - 1 - n)) ?b" by simp
    show "fold (\<lambda>x. swap_pixels (pos + x) (pos + (w - 1 - x))) [0..<Suc n] buf ! k =
      (if pos \<le> k \<and> k < pos + w \<and> (k - pos < Suc n \<or> w - 1 - (k - pos) < Suc n)
       then buf ! (pos + (w - 1 - (k - pos))) else buf ! k)"
    proof (cases "k = pos + n \<or> k = pos + (w - 1 - n)")
      case True
      have cond: "pos \<le> k \<and> k < pos + w \<and> (k - pos < Suc n \<or> w - 1 - (k - pos) < Suc n)"
        using True n by auto
      have mirror: "k = pos + n \<Longrightarrow> pos + (w - 1 - (k - pos)) = pos + (w - 1 - n)"
        "k = pos + (w - 1 - n) \<Longrightarrow> pos + (w - 1 - (k - pos)) = pos + n"
        "pos + n \<noteq> pos + (w - 1 - n)"
        using n by linarith+
      show ?thesis
        unfolding last swap_pixels_nth [OF bounds] ends if_P [OF cond] using True mirror by metis
    next
      case False
      then have eq: "(pos \<le> k \<and> k < pos + w \<and> (k - pos < Suc n \<or> w - 1 - (k - pos) < Suc n)) \<longleftrightarrow>
          (pos \<le> k \<and> k < pos + w \<and> (k - pos < n \<or> w - 1 - (k - pos) < n))"
        by auto
      from False show ?thesis unfolding last swap_pixels_nth [OF bounds] IH(2) eq by simp
    qed
  qed
qed simp

lemma flip_row_nth:
  assumes "pos + w \<le> length buf"
  shows "length (flip_row pos w buf) = length buf"
    and "flip_row pos w buf ! k =
      (if pos \<le> k \<and> k < pos + w then buf ! (pos + (w - 1 - (k - pos))) else buf ! k)"
proof -
  note f = flip_partial [OF assms order_refl, folded flip_row_def]
  show "length (flip_row pos w buf) = length buf" using f by blast
  show "flip_row pos w buf ! k =
      (if pos \<le> k \<and> k < pos + w then buf ! (pos + (w - 1 - (k - pos))) else buf ! k)"
  proof (cases "pos \<le> k \<and> k < pos + w \<and> \<not> (k - pos < w div 2 \<or> w - 1 - (k - pos) < w div 2)")
    case True
    then have "w - 1 - (k - pos) = k - pos" by linarith
    with True f show ?thesis by simp
  qed (use f in auto)
qed

text \<open>A point of the canvas is in the stretch of a row iff it is in that row and those columns.\<close>

lemma in_row_iff:
  fixes W :: nat
  assumes "x < W" and "ox + w \<le> W"
  shows "(y' * W + ox \<le> y * W + x \<and> y * W + x < y' * W + ox + w) \<longleftrightarrow> (y' = y \<and> ox \<le> x \<and> x < ox + w)"
proof -
  have "y' = y" if "y' * W + ox \<le> y * W + x" "y * W + x < y' * W + ox + w"
  proof -
    have "y * W + x < (y' + 1) * W" using that(2) assms(2) by (simp add: algebra_simps)
    then have "y * W < (y' + 1) * W" by linarith
    moreover have "y' * W < (y + 1) * W" using that(1) assms(1) by (simp add: algebra_simps)
    ultimately show ?thesis using mult_less_cancel2 [THEN iffD1] by (metis Suc_eq_plus1 le_antisym less_Suc_eq_le)
  qed
  then show ?thesis by auto
qed

lemma row_inside:
  fixes W :: nat
  assumes "y < H" and "ox + w \<le> W"
  shows "y * W + ox + w \<le> W * H"
proof -
  have "y * W + W \<le> W * H" using assms(1) mult_le_mono1 [of "Suc y" H W] by (simp add: mult.commute add.commute)
  with assms(2) show ?thesis by linarith
qed

lemma write_rows_nth:
  fixes W :: nat
  assumes "ox + w \<le> W" and "\<forall>line \<in> set rows. length line = w"
  shows "length buf = W * H \<Longrightarrow> oy + i + length rows \<le> H \<Longrightarrow>
    length (fold (\<lambda>(r, line). write_row ((oy + r) * W + ox) line) (enumerate i rows) buf) = W * H \<and>
    (\<forall>y x. y < H \<longrightarrow> x < W \<longrightarrow> fold (\<lambda>(r, line). write_row ((oy + r) * W + ox) line) (enumerate i rows) buf ! (y * W + x) =
      (if oy + i \<le> y \<and> y < oy + i + length rows \<and> ox \<le> x \<and> x < ox + w
       then rows ! (y - oy - i) ! (x - ox) else buf ! (y * W + x)))"
  using assms(2)
proof (induction rows arbitrary: i buf)
  case (Cons line rows)
  let ?b = "write_row ((oy + i) * W + ox) line buf"
  have line: "length line = w" using Cons.prems(3) by simp
  have fit: "(oy + i) * W + ox + length line \<le> length buf"
    unfolding Cons.prems(1) line by (rule row_inside) (use Cons.prems(2) assms(1) in simp_all)
  have len: "length ?b = W * H" using Cons.prems(1) length_write_row [OF fit] by simp
  have b: "?b ! (y * W + x) = (if y = oy + i \<and> ox \<le> x \<and> x < ox + w then line ! (x - ox) else buf ! (y * W + x))"
    if "y < H" "x < W" for x y
  proof -
    have "y * W + x < length buf"
      using row_inside [OF that(1), of x 1 W] that(2) by (simp add: Cons.prems(1))
    from write_row_nth [OF fit this] in_row_iff [OF that(2) assms(1), of "oy + i" y]
    show ?thesis by (auto simp: line)
  qed
  have prem: "oy + Suc i + length rows \<le> H" "\<forall>line \<in> set rows. length line = w"
    using Cons.prems(2,3) by simp_all
  from Cons.IH [OF len prem] b show ?case
    by (auto simp: nth_Cons' le_Suc_eq)
qed auto

lemma flip_rows_nth:
  fixes W :: nat
  assumes "ox + w \<le> W" and "length buf = W * H"
  shows "oy + n \<le> H \<Longrightarrow>
    length (fold (\<lambda>r. flip_row ((oy + r) * W + ox) w) [0..<n] buf) = W * H \<and>
    (\<forall>y x. x < W \<longrightarrow> fold (\<lambda>r. flip_row ((oy + r) * W + ox) w) [0..<n] buf ! (y * W + x) =
      (if oy \<le> y \<and> y < oy + n \<and> ox \<le> x \<and> x < ox + w
       then buf ! (y * W + (ox + (w - 1 - (x - ox)))) else buf ! (y * W + x)))"
proof (induction n)
  case (Suc n)
  let ?b = "fold (\<lambda>r. flip_row ((oy + r) * W + ox) w) [0..<n] buf"
  from Suc have len: "length ?b = W * H"
    and b: "\<And>y x. x < W \<Longrightarrow> ?b ! (y * W + x) = (if oy \<le> y \<and> y < oy + n \<and> ox \<le> x \<and> x < ox + w
       then buf ! (y * W + (ox + (w - 1 - (x - ox)))) else buf ! (y * W + x))" by simp_all
  have fit: "(oy + n) * W + ox + w \<le> length ?b"
    unfolding len by (rule row_inside) (use Suc.prems assms(1) in simp_all)
  note f = flip_row_nth [OF fit]
  have "flip_row ((oy + n) * W + ox) w ?b ! (y * W + x) =
      (if oy \<le> y \<and> y < oy + Suc n \<and> ox \<le> x \<and> x < ox + w
       then buf ! (y * W + (ox + (w - 1 - (x - ox)))) else buf ! (y * W + x))" if x: "x < W" for x y
  proof (cases "y = oy + n \<and> ox \<le> x \<and> x < ox + w")
    case True
    then have "(oy + n) * W + ox + (w - 1 - (y * W + x - ((oy + n) * W + ox))) = y * W + (ox + (w - 1 - (x - ox)))"
      by simp
    moreover have "w - 1 - (x - ox) < w" using True by linarith
    then have "ox + (w - 1 - (x - ox)) < W" using assms(1) by linarith
    ultimately show ?thesis
      using True in_row_iff [OF x assms(1), of "oy + n" y] b [of "ox + (w - 1 - (x - ox))" y]
      by (simp add: f(2))
  next
    case False
    then show ?thesis
      using in_row_iff [OF x assms(1), of "oy + n" y] b [OF x, of y] by (auto simp: f(2))
  qed
  then show ?case using f(1) len by simp
qed (use assms(2) in auto)

section \<open>Properties\<close>

text \<open>
  C32: the picture fits the canvas. For every source up to any size and every canvas from 2 to
  16384 pixels a side, the scaled picture is at least 2 by 2 and lies inside the canvas, however
  the doubles of the aspect computation are rounded within the laws of IEEE doubles; so the last
  byte that is written is inside the buffer, and the offset fits a 32-bit integer.
\<close>

theorem picture_fits_canvas:
  assumes "double_laws rnd" and "2 \<le> m_targetWidth d" and "m_targetWidth d \<le> 16384"
    and "2 \<le> m_targetHeight d" and "m_targetHeight d \<le> 16384"
    and "0 < m_srcWidth d" and "0 < m_srcHeight d" and "d' = fit_picture rnd d"
  shows "2 \<le> m_scaledWidth d' \<and> m_offsetX d' + m_scaledWidth d' \<le> m_targetWidth d \<and> 0 \<le> m_offsetX d' \<and>
    2 \<le> m_scaledHeight d' \<and> m_offsetY d' + m_scaledHeight d' \<le> m_targetHeight d \<and> 0 \<le> m_offsetY d' \<and>
    ((m_offsetY d' + m_scaledHeight d' - 1) * m_targetWidth d + m_offsetX d' + m_scaledWidth d') * 3
      \<le> m_targetWidth d * m_targetHeight d * 3 \<and>
    m_targetWidth d * m_targetHeight d * 3 < 2 ^ 31"
proof -
  have fit: "fits d'" using fit_picture_fits [OF assms(1-7)] assms(8) by simp
  have same: "m_targetWidth d' = m_targetWidth d" "m_targetHeight d' = m_targetHeight d"
    by (simp_all add: assms(8) fit_picture_def fit_width_def fit_height_def Let_def)
  have "(m_offsetY d' + m_scaledHeight d' - 1) * m_targetWidth d \<le> (m_targetHeight d - 1) * m_targetWidth d"
    using fit same assms(2) by (intro mult_right_mono) (simp_all add: fits_def)
  then have "(m_offsetY d' + m_scaledHeight d' - 1) * m_targetWidth d + m_offsetX d' + m_scaledWidth d'
      \<le> m_targetWidth d * m_targetHeight d"
    using fit same by (simp add: fits_def algebra_simps)
  moreover have "m_targetWidth d * m_targetHeight d \<le> 16384 * 16384"
    using assms(2-5) by (intro mult_mono) simp_all
  ultimately show ?thesis using fit same by (simp add: fits_def)
qed

lemma exact_double_laws: "double_laws (\<lambda>x. x)"
  unfolding double_laws_def
proof (intro conjI allI impI)
  fix x :: rat
  assume "1 / 2 ^ 100 \<le> x"
  then have "0 \<le> x" by (rule order_trans [rotated]) simp
  then show "x \<le> x * (1 + 1 / 2 ^ 53)" "x * (1 - 1 / 2 ^ 53) \<le> x"
    by (simp_all add: algebra_simps)
qed simp_all

definition phone_decoder :: VideoDecoder where
  "phone_decoder = newVideoDecoder\<lparr>m_srcWidth := 1080, m_srcHeight := 2340\<rparr>"

theorem picture_fits_canvas_witness:
  "2 \<le> m_scaledWidth (fit_picture (\<lambda>x. x) phone_decoder) \<and>
   m_offsetX (fit_picture (\<lambda>x. x) phone_decoder) + m_scaledWidth (fit_picture (\<lambda>x. x) phone_decoder) \<le> 1920"
  using picture_fits_canvas [OF exact_double_laws, of phone_decoder]
  by (simp add: phone_decoder_def newVideoDecoder_def)

text \<open>Where no picture will be drawn the canvas has been cleared.\<close>

lemma cleared_outside:
  assumes "fits d" and "length (m_rgbBuffer d) = nat (m_targetWidth d) * nat (m_targetHeight d)"
    and "y < nat (m_targetHeight d)" and "x < nat (m_targetWidth d)"
    and outside: "\<not> (nat (m_offsetY d) \<le> y \<and> y < nat (m_offsetY d) + nat (m_scaledHeight d) \<and>
      nat (m_offsetX d) \<le> x \<and> x < nat (m_offsetX d) + nat (m_scaledWidth d))"
  shows "(if m_scaledWidth d < m_targetWidth d \<or> m_scaledHeight d < m_targetHeight d
    then replicate (length (m_rgbBuffer d)) black else m_rgbBuffer d) ! (y * nat (m_targetWidth d) + x) = black"
proof -
  have "m_scaledWidth d < m_targetWidth d \<or> m_scaledHeight d < m_targetHeight d"
  proof (rule ccontr)
    assume "\<not> ?thesis"
    then have "m_offsetX d = 0" "m_offsetY d = 0" "m_scaledWidth d = m_targetWidth d" "m_scaledHeight d = m_targetHeight d"
      using assms(1) by (auto simp: fits_def)
    with outside assms(3,4) show False by simp
  qed
  moreover have "y * nat (m_targetWidth d) + x < nat (m_targetWidth d) * nat (m_targetHeight d)"
    using row_inside [OF assms(3), of x 1 "nat (m_targetWidth d)"] assms(4) by simp
  ultimately show ?thesis by (simp add: assms(2))
qed

text \<open>
  C33: what is on the canvas. After a conversion with a frame callback whose picture lies inside the canvas and whose
  scaler fills the rows it was asked for, the frame handed on has, at every point inside the
  picture's area, the pixel of the scaled picture, mirrored left to right exactly when the flip
  is on, and black at every point outside it; it is handed on once, with the canvas size.
\<close>

theorem canvas_content:
  assumes "m_sws d \<and> m_onFrame d" and "0 < m_srcWidth d" and "0 < m_srcHeight d" and "fits d"
    and "length (m_rgbBuffer d) = nat (m_targetWidth d) * nat (m_targetHeight d)"
    and "rows = scale f (m_scaledWidth d) (m_scaledHeight d)"
    and "length rows = nat (m_scaledHeight d)" and "\<forall>line \<in> set rows. length line = nat (m_scaledWidth d)"
    and "ox = nat (m_offsetX d)" and "oy = nat (m_offsetY d)" and "w = nat (m_scaledWidth d)"
    and "y < nat (m_targetHeight d)" and "x < nat (m_targetWidth d)"
  shows "\<exists>canvas. frames (convertToRgb scale f d) = frames d @ [(canvas, m_targetWidth d, m_targetHeight d)] \<and>
    canvas ! (y * nat (m_targetWidth d) + x) =
      (if oy \<le> y \<and> y < oy + nat (m_scaledHeight d) \<and> ox \<le> x \<and> x < ox + w
       then rows ! (y - oy) ! (if m_flipHorizontal d then w - 1 - (x - ox) else x - ox) else black)"
proof -
  let ?W = "nat (m_targetWidth d)" and ?H = "nat (m_targetHeight d)" and ?h = "nat (m_scaledHeight d)"
  have box: "ox + w \<le> ?W" "oy + ?h \<le> ?H"
    using assms(4) by (simp_all add: fits_def assms(9-11) nat_mono flip: nat_add_distrib)
  have start: "row_start d r = (oy + r) * ?W + ox" for r
    using assms(4) by (simp add: row_start_def fits_def assms(9,10) nat_add_distrib nat_mult_distrib)
  define buf0 where "buf0 = (if m_scaledWidth d < m_targetWidth d \<or> m_scaledHeight d < m_targetHeight d
                    then replicate (length (m_rgbBuffer d)) black else m_rgbBuffer d)"
  define buf1 where "buf1 = fold (\<lambda>(r, line). write_row ((oy + r) * ?W + ox) line) (enumerate 0 rows) buf0"
  define buf2 where "buf2 = (if m_flipHorizontal d then fold (\<lambda>r. flip_row ((oy + r) * ?W + ox) w) [0..<?h] buf1 else buf1)"
  have frames: "frames (convertToRgb scale f d) = frames d @ [(buf2, m_targetWidth d, m_targetHeight d)]"
    using assms(1-3) by (simp add: convertToRgb_def Let_def start buf0_def buf1_def buf2_def assms(6,11))
  have len0: "length buf0 = ?W * ?H" by (simp add: buf0_def assms(5))
  have rows: "\<forall>line \<in> set rows. length line = w" using assms(8,11) by simp
  note written = write_rows_nth [OF box(1) rows len0, of oy 0, folded buf1_def]
  have len1: "length buf1 = ?W * ?H" using written box(2) assms(7) by simp
  have at1: "buf1 ! (y * ?W + x') = (if oy \<le> y \<and> y < oy + ?h \<and> ox \<le> x' \<and> x' < ox + w
       then rows ! (y - oy) ! (x' - ox) else buf0 ! (y * ?W + x'))" if "x' < ?W" for x'
    using written box(2) assms(7,12) that by simp
  have out: "buf0 ! (y * ?W + x) = black" if "\<not> (oy \<le> y \<and> y < oy + ?h \<and> ox \<le> x \<and> x < ox + w)"
    unfolding buf0_def by (rule cleared_outside [OF assms(4,5,12,13)]) (use that assms(9-11) in simp)
  have "buf2 ! (y * ?W + x) = (if oy \<le> y \<and> y < oy + ?h \<and> ox \<le> x \<and> x < ox + w
       then rows ! (y - oy) ! (if m_flipHorizontal d then w - 1 - (x - ox) else x - ox) else black)"
  proof (cases "m_flipHorizontal d")
    case True
    then have "buf2 ! (y * ?W + x) = (if oy \<le> y \<and> y < oy + ?h \<and> ox \<le> x \<and> x < ox + w
       then buf1 ! (y * ?W + (ox + (w - 1 - (x - ox)))) else buf1 ! (y * ?W + x))"
      using flip_rows_nth [OF box(1) len1 box(2)] assms(13) by (simp add: buf2_def)
    moreover have "ox + (w - 1 - (x - ox)) < ox + w \<and> ox + (w - 1 - (x - ox)) < ?W" if "ox \<le> x" "x < ox + w"
      using that box(1) by linarith
    ultimately show ?thesis using True at1 [of "ox + (w - 1 - (x - ox))"] at1 [OF assms(13)] out by auto
  next
    case False
    with at1 [OF assms(13)] out show ?thesis by (auto simp: buf2_def)
  qed
  with frames show ?thesis by blast
qed

definition small_decoder :: VideoDecoder where
  "small_decoder = \<lparr>m_targetWidth = 4, m_targetHeight = 2, m_srcWidth = 2, m_srcHeight = 2,
     m_scaledWidth = 2, m_scaledHeight = 2, m_offsetX = 1, m_offsetY = 0, m_lastFormat = 0,
     m_sws = True, m_flipHorizontal = True, m_rgbBuffer = replicate 8 black, m_onFrame = True, frames = []\<rparr>"

definition small_scale :: "picture \<Rightarrow> int \<Rightarrow> int \<Rightarrow> pixel list list" where
  "small_scale f w h = [[(1, 1, 1), (2, 2, 2)], [(3, 3, 3), (4, 4, 4)]]"

definition small_picture :: picture where
  "small_picture = \<lparr>pic_width = 2, pic_height = 2, pic_format = 0, pic_id = 1\<rparr>"

theorem canvas_content_witness:
  "\<exists>canvas. frames (convertToRgb small_scale small_picture small_decoder) = [(canvas, 4, 2)] \<and> canvas ! 5 = (4, 4, 4)"
proof -
  have "\<exists>canvas. frames (convertToRgb small_scale small_picture small_decoder) =
      frames small_decoder @ [(canvas, m_targetWidth small_decoder, m_targetHeight small_decoder)] \<and>
    canvas ! (1 * nat (m_targetWidth small_decoder) + 1) =
      (if 0 \<le> (1 :: nat) \<and> 1 < 0 + nat (m_scaledHeight small_decoder) \<and> 1 \<le> (1 :: nat) \<and> 1 < 1 + (2 :: nat)
       then small_scale small_picture 2 2 ! (1 - 0) ! (if m_flipHorizontal small_decoder then 2 - 1 - (1 - 1) else 1 - 1) else black)"
    by (rule canvas_content) (simp_all add: small_decoder_def small_scale_def fits_def)
  then show ?thesis by (auto simp: small_decoder_def small_scale_def)
qed

end
