(* ===== verification/VirtualCamera.thy ===== *)
theory VirtualCamera
  imports Prelude Complex_Main
begin

text \<open>
  \<^verbatim>\<open>src/core/VirtualCamera.{h,cpp}\<close>: the camera that other programs see, a handle into
  \<^verbatim>\<open>softcam.dll\<close>, which is loaded when the camera is opened and freed when it is closed.
  The loader and the library are outside the repository: whether a load, a symbol or a camera is
  there is an argument, and every call the code makes of them is appended to a log, so that the
  lemmas can speak of the order of the calls. A handle is the length of the log at the call that
  returned it; a function pointer is the handle of the library it points into.
\<close>

section \<open>The calls of the loader and of softcam\<close>

datatype 'a cam_call =
    LoadLibraryW nat
  | FreeLibrary nat
  | ScCreateCamera nat nat int int rat
  | ScCreateFailed nat
  | ScDeleteCamera nat nat
  | ScSendFrame nat nat 'a
  | CallNull

text \<open>What the machine does when the camera is opened.\<close>

record softcam =
  has_dll :: bool
  has_create :: bool
  has_delete :: bool
  has_send :: bool
  creates :: bool

section \<open>State and operations\<close>

record VirtualCamera =
  m_dll :: "nat option"
  m_cam :: "nat option"
  m_fnCreate :: "nat option"
  m_fnDelete :: "nat option"
  m_fnSend :: "nat option"
  vc_width :: int
  vc_height :: int

definition newVirtualCamera :: VirtualCamera where
  "newVirtualCamera = \<lparr>m_dll = None, m_cam = None, m_fnCreate = None, m_fnDelete = None,
     m_fnSend = None, vc_width = 0, vc_height = 0\<rparr>"

definition isOpen :: "VirtualCamera \<Rightarrow> bool" where
  "isOpen v \<longleftrightarrow> m_cam v \<noteq> None"

definition loadDll ::
  "softcam \<Rightarrow> VirtualCamera \<times> 'a cam_call list \<Rightarrow> bool \<times> VirtualCamera \<times> 'a cam_call list" where
  "loadDll e = (\<lambda>(v, calls).
     if m_dll v \<noteq> None then (True, v, calls)
     else if \<not> has_dll e then (False, v, calls)
     else
       let h = length calls;
           v1 = v\<lparr>m_dll := Some h,
                  m_fnCreate := (if has_create e then Some h else None),
                  m_fnDelete := (if has_delete e then Some h else None),
                  m_fnSend := (if has_send e then Some h else None)\<rparr>
       in if m_fnCreate v1 = None \<or> m_fnDelete v1 = None \<or> m_fnSend v1 = None
          then (False, v1\<lparr>m_dll := None\<rparr>, calls @ [LoadLibraryW h, FreeLibrary h])
          else (True, v1, calls @ [LoadLibraryW h]))"

text \<open>
  A call through a function pointer that is null is in the log as \<open>CallNull\<close>. When the
  library makes no camera it returns a null handle (\<open>ScCreateFailed\<close>).
\<close>

definition camera_open ::
  "softcam \<Rightarrow> int \<Rightarrow> int \<Rightarrow> rat \<Rightarrow> VirtualCamera \<times> 'a cam_call list \<Rightarrow>
   bool \<times> VirtualCamera \<times> 'a cam_call list" where
  "camera_open e w h fps s =
     (case loadDll e s of
        (False, v, calls) \<Rightarrow> (False, v, calls)
      | (True, v, calls) \<Rightarrow>
          (case m_fnCreate v of
             None \<Rightarrow> (False, v, calls @ [CallNull])
           | Some fn \<Rightarrow>
               let cam = (if creates e then Some (length calls) else None);
                   v1 = v\<lparr>m_cam := cam\<rparr>;
                   calls1 = calls @ [if creates e then ScCreateCamera fn (length calls) w h fps else ScCreateFailed fn]
               in if m_cam v1 = None then (False, v1, calls1)
                  else (True, v1\<lparr>vc_width := w, vc_height := h\<rparr>, calls1)))"

definition camera_sendFrame ::
  "'a \<Rightarrow> int \<Rightarrow> int \<Rightarrow> VirtualCamera \<times> 'a cam_call list \<Rightarrow> VirtualCamera \<times> 'a cam_call list" where
  "camera_sendFrame rgb w h = (\<lambda>(v, calls).
     case (m_cam v, m_fnSend v) of
       (Some cam, Some fn) \<Rightarrow> (v, calls @ [ScSendFrame fn cam rgb])
     | _ \<Rightarrow> (v, calls))"

definition camera_close :: "VirtualCamera \<times> 'a cam_call list \<Rightarrow> VirtualCamera \<times> 'a cam_call list" where
  "camera_close = (\<lambda>(v, calls).
     let (v1, calls1) =
           (case (m_cam v, m_fnDelete v) of
              (Some cam, Some fn) \<Rightarrow> (v\<lparr>m_cam := None\<rparr>, calls @ [ScDeleteCamera fn cam])
            | _ \<Rightarrow> (v, calls))
     in case m_dll v1 of
          None \<Rightarrow> (v1, calls1)
        | Some h \<Rightarrow> (v1\<lparr>m_dll := None\<rparr>, calls1 @ [FreeLibrary h]))"

section \<open>The protocol of the library\<close>

text \<open>
  The reference the calls are checked against: the library that is loaded and the camera that
  exists, with its size. A call through a pointer into a library that is not loaded, a second
  camera, a use of a camera that does not exist, a frame that is not of the camera's size
  (\<open>sz a w h\<close>), and a library freed under a camera are errors.
\<close>

datatype cam_state = Unloaded | Loaded nat | Live nat nat int int

fun cam_next :: "('a \<Rightarrow> int \<Rightarrow> int \<Rightarrow> bool) \<Rightarrow> 'a cam_call \<Rightarrow> cam_state \<Rightarrow> cam_state option" where
  "cam_next sz (LoadLibraryW h) Unloaded = Some (Loaded h)"
| "cam_next sz (FreeLibrary h) (Loaded h') = (if h = h' then Some Unloaded else None)"
| "cam_next sz (ScCreateCamera fn cam w h fps) (Loaded l) = (if fn = l then Some (Live l cam w h) else None)"
| "cam_next sz (ScCreateFailed fn) (Loaded l) = (if fn = l then Some (Loaded l) else None)"
| "cam_next sz (ScDeleteCamera fn cam) (Live l cam' w h) = (if fn = l \<and> cam = cam' then Some (Loaded l) else None)"
| "cam_next sz (ScSendFrame fn cam a) (Live l cam' w h) =
     (if fn = l \<and> cam = cam' \<and> sz a w h then Some (Live l cam' w h) else None)"
| "cam_next sz call st = None"

fun cam_replay :: "('a \<Rightarrow> int \<Rightarrow> int \<Rightarrow> bool) \<Rightarrow> 'a cam_call list \<Rightarrow> cam_state \<Rightarrow> cam_state option" where
  "cam_replay sz [] st = Some st"
| "cam_replay sz (call # calls) st = Option.bind (cam_next sz call st) (cam_replay sz calls)"

lemma cam_replay_append:
  "cam_replay sz (calls @ calls') st = Option.bind (cam_replay sz calls st) (cam_replay sz calls')"
  by (induction calls arbitrary: st) (auto split: bind_splits)

text \<open>What the object knows of the library agrees with the replayed log.\<close>

definition cam_ok :: "('a \<Rightarrow> int \<Rightarrow> int \<Rightarrow> bool) \<Rightarrow> VirtualCamera \<times> 'a cam_call list \<Rightarrow> bool" where
  "cam_ok sz = (\<lambda>(v, calls).
     cam_replay sz calls Unloaded =
       Some (case (m_dll v, m_cam v) of
          (None, _) \<Rightarrow> Unloaded
        | (Some l, None) \<Rightarrow> Loaded l
        | (Some l, Some cam) \<Rightarrow> Live l cam (vc_width v) (vc_height v)) \<and>
     (m_cam v \<noteq> None \<longrightarrow> m_dll v \<noteq> None) \<and>
     (\<forall>l. m_dll v = Some l \<longrightarrow> m_fnCreate v = Some l \<and> m_fnDelete v = Some l \<and> m_fnSend v = Some l))"

lemma cam_ok_new: "cam_replay sz calls Unloaded = Some Unloaded \<Longrightarrow> cam_ok sz (newVirtualCamera, calls)"
  by (simp add: cam_ok_def newVirtualCamera_def)

lemma cam_ok_loadDll:
  assumes "cam_ok sz s" and "\<not> isOpen (fst s)" and "loadDll e s = (ok, s')"
  shows "cam_ok sz s' \<and> \<not> isOpen (fst s') \<and> (ok \<longrightarrow> m_dll (fst s') \<noteq> None)"
  using assms
  by (auto simp: loadDll_def cam_ok_def isOpen_def cam_replay_append Let_def split: if_splits prod.splits)

lemma cam_ok_open:
  assumes "cam_ok sz s" and "\<not> isOpen (fst s)" and "camera_open e w h fps s = (ok, s')"
  shows "cam_ok sz s' \<and> isOpen (fst s') = ok \<and> (ok \<longrightarrow> vc_width (fst s') = w \<and> vc_height (fst s') = h)"
proof -
  obtain ok1 v calls where l: "loadDll e s = (ok1, v, calls)" by (cases "loadDll e s") auto
  from cam_ok_loadDll [OF assms(1,2) l] assms(3) l show ?thesis
    by (auto simp: camera_open_def cam_ok_def isOpen_def cam_replay_append Let_def
        split: if_splits bool.splits option.splits)
qed

lemma cam_ok_send:
  assumes "cam_ok sz s" and "isOpen (fst s) \<Longrightarrow> sz a (vc_width (fst s)) (vc_height (fst s))"
  shows "cam_ok sz (camera_sendFrame a w h s)"
  using assms
  by (auto simp: camera_sendFrame_def cam_ok_def isOpen_def cam_replay_append
      split: prod.splits option.splits)

lemma cam_ok_close:
  assumes "cam_ok sz s"
  shows "cam_ok sz (camera_close s) \<and> \<not> isOpen (fst (camera_close s)) \<and>
    cam_replay sz (snd (camera_close s)) Unloaded = Some Unloaded"
  using assms
  by (auto simp: camera_close_def cam_ok_def isOpen_def cam_replay_append Let_def
      split: prod.splits option.splits)

section \<open>What the video receiver relies on\<close>

text \<open>
  A sink of frames that is opened with the size of the first frame. \<open>show1\<close> is how the
  receiver uses it: it opens the sink when it is not open, and drops the frame when that fails.
\<close>

locale frame_sink =
  fixes is_open :: "'s \<Rightarrow> bool"
    and open1 :: "'e \<Rightarrow> int \<Rightarrow> int \<Rightarrow> 's \<Rightarrow> bool \<times> 's"
    and send :: "'a \<Rightarrow> int \<Rightarrow> int \<Rightarrow> 's \<Rightarrow> 's"
    and delivered :: "'s \<Rightarrow> 'a list"
    and ok :: "'s \<Rightarrow> bool"
    and size_of :: "'s \<Rightarrow> int \<times> int"
    and sz :: "'a \<Rightarrow> int \<Rightarrow> int \<Rightarrow> bool"
    and works :: "'e \<Rightarrow> bool"
  assumes opened: "ok s \<Longrightarrow> \<not> is_open s \<Longrightarrow> open1 e w h s = (r, s') \<Longrightarrow>
      ok s' \<and> is_open s' = r \<and> delivered s' = delivered s \<and> (r \<longrightarrow> size_of s' = (w, h)) \<and> (works e \<longrightarrow> r)"
    and sends: "ok s \<Longrightarrow> is_open s \<Longrightarrow> size_of s = (w, h) \<Longrightarrow> sz a w h \<Longrightarrow>
      ok (send a w h s) \<and> is_open (send a w h s) \<and> size_of (send a w h s) = (w, h) \<and>
      delivered (send a w h s) = delivered s @ [a]"
begin

definition show1 :: "'e \<Rightarrow> int \<Rightarrow> int \<Rightarrow> 'a \<Rightarrow> 's \<Rightarrow> 's" where
  "show1 e w h a s =
     (if is_open s then send a w h s
      else case open1 e w h s of (True, s') \<Rightarrow> send a w h s' | (False, s') \<Rightarrow> s')"

lemma show1_ok:
  assumes "ok s" and "is_open s \<Longrightarrow> size_of s = (w, h)" and "sz a w h"
  shows "ok (show1 e w h a s)"
    and "is_open (show1 e w h a s) \<Longrightarrow> size_of (show1 e w h a s) = (w, h)"
    and "delivered (show1 e w h a s) = delivered s \<and> \<not> works e \<or> delivered (show1 e w h a s) = delivered s @ [a]"
proof -
  have "ok (show1 e w h a s) \<and> (is_open (show1 e w h a s) \<longrightarrow> size_of (show1 e w h a s) = (w, h)) \<and>
    (delivered (show1 e w h a s) = delivered s \<and> \<not> works e \<or> delivered (show1 e w h a s) = delivered s @ [a])"
  proof (cases "is_open s")
    case True
    with sends [OF assms(1) True assms(2) [OF True] assms(3)] show ?thesis by (simp add: show1_def)
  next
    case False
    obtain r s' where o: "open1 e w h s = (r, s')" by (cases "open1 e w h s")
    note s' = opened [OF assms(1) False o]
    show ?thesis
    proof (cases r)
      case True
      with s' sends [of s' w h a] assms(3) False o show ?thesis by (simp add: show1_def)
    next
      case r: False
      with s' False o show ?thesis by (simp add: show1_def)
    qed
  qed
  then show "ok (show1 e w h a s)"
    and "is_open (show1 e w h a s) \<Longrightarrow> size_of (show1 e w h a s) = (w, h)"
    and "delivered (show1 e w h a s) = delivered s \<and> \<not> works e \<or> delivered (show1 e w h a s) = delivered s @ [a]"
    by blast+
qed

end

definition softcam_works :: "softcam \<Rightarrow> bool" where
  "softcam_works e \<longleftrightarrow> has_dll e \<and> has_create e \<and> has_delete e \<and> has_send e \<and> creates e"

fun frames_sent :: "'a cam_call list \<Rightarrow> 'a list" where
  "frames_sent [] = []"
| "frames_sent (ScSendFrame fn cam a # calls) = a # frames_sent calls"
| "frames_sent (call # calls) = frames_sent calls"

lemma frames_sent_append [simp]: "frames_sent (xs @ ys) = frames_sent xs @ frames_sent ys"
  by (induction xs rule: frames_sent.induct) simp_all

definition camera_size :: "VirtualCamera \<times> 'a cam_call list \<Rightarrow> int \<times> int" where
  "camera_size s = (vc_width (fst s), vc_height (fst s))"

lemma camera_open_sends:
  "camera_open e w h fps s = (r, s') \<Longrightarrow> frames_sent (snd s') = frames_sent (snd s)"
  by (auto simp: camera_open_def loadDll_def Let_def split: if_splits prod.splits bool.splits option.splits)

lemma camera_open_works:
  "cam_ok sz s \<Longrightarrow> camera_open e w h fps s = (r, s') \<Longrightarrow> softcam_works e \<Longrightarrow> r"
  by (auto simp: camera_open_def loadDll_def cam_ok_def softcam_works_def Let_def
      split: if_splits prod.splits bool.splits option.splits)

interpretation cam: frame_sink "\<lambda>s. isOpen (fst s)" "\<lambda>e w h. camera_open e w h fps" camera_sendFrame
    "\<lambda>s. frames_sent (snd s)" "cam_ok sz" camera_size sz softcam_works
  for sz :: "'a \<Rightarrow> int \<Rightarrow> int \<Rightarrow> bool" and fps :: rat
proof (unfold_locales, goal_cases)
  case (1 s e w h r s')
  then show ?case
    using cam_ok_open [OF 1] camera_open_sends [OF 1(3)] camera_open_works [OF 1(1,3)]
    by (simp add: camera_size_def)
next
  case (2 s w h a)
  then have "cam_ok sz (camera_sendFrame a w h s)"
    by (intro cam_ok_send) (simp_all add: camera_size_def)
  with 2 show ?case
    by (auto simp: camera_sendFrame_def cam_ok_def isOpen_def camera_size_def split: prod.splits option.splits)
qed

end
