(* ===== verification/VideoPipeline.thy ===== *)
theory VideoPipeline
  imports StreamReceiver VideoDecoder VirtualCamera
begin

text \<open>
  The whole of \<^verbatim>\<open>StreamReceiver\<close>: the queue between its threads (\<open>rx\<close>, theory
  \<open>StreamReceiver\<close>) with the decoder and the camera it owns. A unit taken from the queue is
  pushed into the decoder, FFmpeg makes pictures of it, each picture is put on the canvas, and the
  frame callback hands the canvas to the camera, which it opens at the first frame. What FFmpeg
  and softcam do is chosen by the environment at every step.
\<close>

section \<open>State and operations\<close>

text \<open>
  \<open>cam_calls\<close> is the log of softcam, which outlives a camera object; \<open>on_frames\<close> are the
  calls of the frame callback.
\<close>

record VideoReceiver =
  rx :: StreamReceiver
  m_decoder :: "VideoDecoder option"
  m_camera :: "VirtualCamera option"
  cam_calls :: "pixel list cam_call list"
  on_frames :: "(pixel list \<times> int \<times> int) list"
  m_width :: int
  m_height :: int
  m_fps :: rat

definition newVideoReceiver :: "bytes list \<Rightarrow> int \<Rightarrow> int \<Rightarrow> rat \<Rightarrow> VideoReceiver" where
  "newVideoReceiver queue w h fps = \<lparr>rx = newStreamReceiver queue, m_decoder = None, m_camera = None,
     cam_calls = [], on_frames = [], m_width = w, m_height = h, m_fps = fps\<rparr>"

text \<open>A camera that is replaced or goes out of scope is closed by its destructor.\<close>

definition destroy_camera :: "VideoReceiver \<Rightarrow> VideoReceiver" where
  "destroy_camera p =
     (case m_camera p of
        None \<Rightarrow> p
      | Some v \<Rightarrow> p\<lparr>m_camera := None, cam_calls := snd (camera_close (v, cam_calls p))\<rparr>)"

definition receiver_start :: "bool \<Rightarrow> bool \<Rightarrow> VideoReceiver \<Rightarrow> bool \<times> VideoReceiver" where
  "receiver_start codec_ok bound p =
     (let targetW = (if m_width p > 0 then m_width p else 1920);
          targetH = (if m_height p > 0 then m_height p else 1080);
          (init_ok, d) = decoder_init codec_ok targetW targetH newVideoDecoder;
          (ok, s) = stream_start init_ok bound (rx p)
      in if \<not> init_ok then (False, p\<lparr>rx := s, m_decoder := Some d\<rparr>)
         else
           let d1 = d\<lparr>m_flipHorizontal := sr_flip (rx p), m_onFrame := True\<rparr>;
               p1 = (destroy_camera p)\<lparr>m_decoder := Some d1, m_camera := Some newVirtualCamera\<rparr>
           in (ok, p1\<lparr>rx := s\<rparr>))"

text \<open>
  The lambda of \<^verbatim>\<open>start\<close> that is the decoder's frame callback; \<open>e\<close> is what softcam does if
  the camera is opened.
\<close>

definition on_frame :: "softcam \<Rightarrow> pixel list \<times> int \<times> int \<Rightarrow> VideoReceiver \<Rightarrow> VideoReceiver" where
  "on_frame e = (\<lambda>(rgb, w, h) p.
     let p0 = p\<lparr>on_frames := on_frames p @ [(rgb, w, h)]\<rparr>;
         v0 = (case m_camera p0 of None \<Rightarrow> newVirtualCamera | Some v \<Rightarrow> v);
         send = (\<lambda>p v. let (v', calls') = camera_sendFrame rgb w h (v, cam_calls p)
                       in p\<lparr>m_camera := Some v', cam_calls := calls'\<rparr>)
     in if m_camera p0 = None \<or> \<not> isOpen v0
        then
          (case camera_open e w h (m_fps p0) (v0, cam_calls p0) of
             (ok, v, calls') \<Rightarrow>
               let p1 = p0\<lparr>m_width := w, m_height := h, m_camera := Some v, cam_calls := calls'\<rparr>
               in if \<not> ok then p1 else send p1 v)
        else send p0 v0)"

text \<open>
  One picture that FFmpeg returns: it is converted, and the frame callback is called for every
  frame the conversion hands on.
\<close>

definition show_picture ::
  "(rat \<Rightarrow> rat) \<Rightarrow> (VideoDecoder \<Rightarrow> bool) \<Rightarrow> (picture \<Rightarrow> int \<Rightarrow> int \<Rightarrow> pixel list list) \<Rightarrow>
   softcam \<times> picture \<Rightarrow> VideoReceiver \<Rightarrow> VideoReceiver" where
  "show_picture rnd getContext scale = (\<lambda>(e, f) p.
     case m_decoder p of
       None \<Rightarrow> p
     | Some d \<Rightarrow>
         let d' = decode_pictures rnd getContext scale [f] d
         in fold (on_frame e) (drop (length (frames d)) (frames d')) (p\<lparr>m_decoder := Some d'\<rparr>))"

text \<open>One turn of \<^verbatim>\<open>decodeLoop\<close>: a unit out of the queue, and the pictures FFmpeg makes of it.\<close>

definition receiver_decode ::
  "(rat \<Rightarrow> rat) \<Rightarrow> (VideoDecoder \<Rightarrow> bool) \<Rightarrow> (picture \<Rightarrow> int \<Rightarrow> int \<Rightarrow> pixel list list) \<Rightarrow>
   (softcam \<times> picture) list \<Rightarrow> VideoReceiver \<Rightarrow> VideoReceiver option" where
  "receiver_decode rnd getContext scale fs p =
     (case decode_turn (rx p) of
        None \<Rightarrow> None
      | Some s \<Rightarrow> Some (fold (show_picture rnd getContext scale) fs (p\<lparr>rx := s\<rparr>)))"

definition receiver_setFlip :: "bool \<Rightarrow> VideoReceiver \<Rightarrow> VideoReceiver" where
  "receiver_setFlip flip p =
     p\<lparr>rx := setFlipHorizontal flip (rx p),
       m_decoder := map_option (\<lambda>d. d\<lparr>m_flipHorizontal := flip\<rparr>) (m_decoder p)\<rparr>"

definition receiver_flip :: "VideoReceiver \<Rightarrow> bool" where
  "receiver_flip p = (case m_decoder p of None \<Rightarrow> sr_flip (rx p) | Some d \<Rightarrow> m_flipHorizontal d)"

text \<open>
  \<^verbatim>\<open>stop\<close> joins both threads before it closes the camera. \<open>ends\<close> tells whether they come to their end:
  the decoder thread does after the unit it is pushing, but closing the acceptor and stopping the
  \<^verbatim>\<open>io_context\<close> do not end the blocking read of a connected client, so a client that stays silent
  keeps the network thread, and with it \<^verbatim>\<open>stop\<close>, which then does not return (\<open>None\<close>).
\<close>

definition receiver_stop :: "bool \<Rightarrow> VideoReceiver \<Rightarrow> VideoReceiver option" where
  "receiver_stop ends p =
     (if \<not> sr_running (rx p) then Some p
      else
        let p1 = p\<lparr>rx := stream_stop (rx p)\<rparr>
        in if \<not> ends then None
           else case m_camera p1 of
             None \<Rightarrow> Some p1
           | Some v \<Rightarrow>
               (case camera_close (v, cam_calls p1) of
                  (v', calls') \<Rightarrow> Some (p1\<lparr>m_camera := Some v', cam_calls := calls'\<rparr>)))"

text \<open>The destructor: \<^verbatim>\<open>stop\<close>, then the members.\<close>

definition receiver_destroy :: "bool \<Rightarrow> VideoReceiver \<Rightarrow> VideoReceiver option" where
  "receiver_destroy ends p = map_option (\<lambda>p1. destroy_camera (p1\<lparr>m_decoder := None\<rparr>)) (receiver_stop ends p)"

text \<open>The stop returns exactly when there is nothing to join or the threads end.\<close>

lemma receiver_stop_returns: "receiver_stop ends p = None \<longleftrightarrow> sr_running (rx p) \<and> \<not> ends"
  by (auto simp: receiver_stop_def Let_def split: option.split prod.split)

section \<open>What every step keeps\<close>

text \<open>
  The steps of the receiver: it is started when it does not run, and while it runs the network
  thread, the decoder thread and the flip setting interleave. \<open>SC\<close> restricts what softcam does.
\<close>

inductive receiver_step ::
  "(rat \<Rightarrow> rat) \<Rightarrow> (VideoDecoder \<Rightarrow> bool) \<Rightarrow> (picture \<Rightarrow> int \<Rightarrow> int \<Rightarrow> pixel list list) \<Rightarrow> (softcam \<Rightarrow> bool) \<Rightarrow>
   VideoReceiver \<Rightarrow> VideoReceiver \<Rightarrow> bool" for rnd getContext scale SC where
  rc_start: "\<not> sr_running (rx p) \<Longrightarrow> receiver_start codec_ok bound p = (ok, p') \<Longrightarrow>
    receiver_step rnd getContext scale SC p p'"
| rc_net: "receive_turn silent ss (rx p) = Some (r, s) \<Longrightarrow> receiver_step rnd getContext scale SC p (p\<lparr>rx := s\<rparr>)"
| rc_decode: "list_all (\<lambda>(e, f). SC e) fs \<Longrightarrow> receiver_decode rnd getContext scale fs p = Some p' \<Longrightarrow>
    receiver_step rnd getContext scale SC p p'"
| rc_flip: "receiver_step rnd getContext scale SC p (receiver_setFlip flip p)"
| rc_stop: "receiver_stop ends p = Some p' \<Longrightarrow> receiver_step rnd getContext scale SC p p'"

inductive receiver_reachable ::
  "(rat \<Rightarrow> rat) \<Rightarrow> (VideoDecoder \<Rightarrow> bool) \<Rightarrow> (picture \<Rightarrow> int \<Rightarrow> int \<Rightarrow> pixel list list) \<Rightarrow> (softcam \<Rightarrow> bool) \<Rightarrow>
   int \<Rightarrow> int \<Rightarrow> VideoReceiver \<Rightarrow> bool" for rnd getContext scale SC w0 h0 where
  rr_new: "receiver_reachable rnd getContext scale SC w0 h0 (newVideoReceiver queue w0 h0 fps)"
| rr_step: "receiver_reachable rnd getContext scale SC w0 h0 p \<Longrightarrow> receiver_step rnd getContext scale SC p p' \<Longrightarrow>
    receiver_reachable rnd getContext scale SC w0 h0 p'"

inductive_cases receiver_stepE: "receiver_step rnd getContext scale SC p p'"

text \<open>\<^verbatim>\<open>sws_scale\<close> fills the rectangle it was made for.\<close>

definition scale_laws :: "(picture \<Rightarrow> int \<Rightarrow> int \<Rightarrow> pixel list list) \<Rightarrow> bool" where
  "scale_laws scale \<longleftrightarrow>
     (\<forall>f w h. length (scale f w h) = nat h \<and> (\<forall>line \<in> set (scale f w h). length line = nat w))"

definition frame_fits :: "pixel list \<Rightarrow> int \<Rightarrow> int \<Rightarrow> bool" where
  "frame_fits rgb w h \<longleftrightarrow> length rgb = nat w * nat h"

definition side_ok :: "int \<Rightarrow> bool" where
  "side_ok n \<longleftrightarrow> 2 \<le> n \<and> n \<le> 16384"

definition decoder_wf :: "int \<Rightarrow> int \<Rightarrow> VideoDecoder \<Rightarrow> bool" where
  "decoder_wf W H d \<longleftrightarrow> m_targetWidth d = W \<and> m_targetHeight d = H \<and> frame_fits (m_rgbBuffer d) W H \<and>
     (m_sws d \<and> 0 < m_srcWidth d \<and> 0 < m_srcHeight d \<longrightarrow> fits d)"

lemma new_geometry_wf:
  assumes "double_laws rnd" and "side_ok W" and "side_ok H" and "decoder_wf W H d"
  shows "decoder_wf W H (new_geometry rnd getContext f d)"
    and "frames (new_geometry rnd getContext f d) = frames d"
proof -
  let ?d1 = "d\<lparr>m_srcWidth := pic_width f, m_srcHeight := pic_height f, m_lastFormat := pic_format f\<rparr>"
  have same: "m_targetWidth (fit_picture rnd e) = m_targetWidth e" "m_targetHeight (fit_picture rnd e) = m_targetHeight e"
    "m_rgbBuffer (fit_picture rnd e) = m_rgbBuffer e" "frames (fit_picture rnd e) = frames e"
    for e by (simp_all add: fit_picture_def fit_width_def fit_height_def Let_def)
  have fit: "fits (fit_picture rnd ?d1)" if "0 < pic_width f" "0 < pic_height f"
    by (rule fit_picture_fits [OF assms(1)]) (use assms(2-4) that in \<open>simp_all add: side_ok_def decoder_wf_def\<close>)
  then have fit': "fits ((fit_picture rnd ?d1)\<lparr>m_sws := b, m_rgbBuffer := r\<rparr>)"
    if "0 < pic_width f" "0 < pic_height f" for b r using that by (simp add: fits_def)
  show "decoder_wf W H (new_geometry rnd getContext f d)"
    using assms(4) fit' by (auto simp: new_geometry_def decoder_wf_def frame_fits_def same Let_def)
  show "frames (new_geometry rnd getContext f d) = frames d"
    by (simp add: new_geometry_def same Let_def)
qed

lemma convertToRgb_wf:
  assumes "scale_laws scale" and "decoder_wf W H d"
  shows "decoder_wf W H (convertToRgb scale f d) \<and>
    (\<exists>new. frames (convertToRgb scale f d) = frames d @ new \<and>
      list_all (\<lambda>(rgb, w, h). w = W \<and> h = H \<and> frame_fits rgb W H) new)"
proof (cases "m_sws d \<and> m_onFrame d \<and> 0 < m_srcWidth d \<and> 0 < m_srcHeight d")
  case True
  let ?W = "nat W" and ?H = "nat H" and ?w = "nat (m_scaledWidth d)" and ?h = "nat (m_scaledHeight d)"
  let ?ox = "nat (m_offsetX d)" and ?oy = "nat (m_offsetY d)"
  let ?rows = "scale f (m_scaledWidth d) (m_scaledHeight d)"
  have dims: "m_targetWidth d = W" "m_targetHeight d = H" "length (m_rgbBuffer d) = ?W * ?H" "fits d"
    using assms(2) True by (simp_all add: decoder_wf_def frame_fits_def)
  have box: "?ox + ?w \<le> ?W" "?oy + ?h \<le> ?H"
    using dims by (simp_all add: fits_def nat_mono flip: nat_add_distrib)
  have start: "row_start d r = (?oy + r) * ?W + ?ox" for r
    using dims by (simp add: row_start_def fits_def nat_add_distrib nat_mult_distrib)
  define buf0 where "buf0 = (if m_scaledWidth d < W \<or> m_scaledHeight d < H
                    then replicate (length (m_rgbBuffer d)) black else m_rgbBuffer d)"
  define buf1 where "buf1 = fold (\<lambda>(r, line). write_row ((?oy + r) * ?W + ?ox) line) (enumerate 0 ?rows) buf0"
  define buf2 where "buf2 = (if m_flipHorizontal d then fold (\<lambda>r. flip_row ((?oy + r) * ?W + ?ox) ?w) [0..<?h] buf1 else buf1)"
  have rows: "length ?rows = ?h" "\<forall>line \<in> set ?rows. length line = ?w"
    using assms(1) by (simp_all add: scale_laws_def)
  have "length buf0 = ?W * ?H" by (simp add: buf0_def dims)
  then have "length buf1 = ?W * ?H"
    using write_rows_nth [OF box(1) rows(2), of buf0 ?H ?oy 0] box(2) rows(1) by (simp add: buf1_def)
  then have "length buf2 = ?W * ?H"
    using flip_rows_nth [OF box(1) _ box(2), of buf1] by (simp add: buf2_def)
  moreover have "convertToRgb scale f d = d\<lparr>m_rgbBuffer := buf2, frames := frames d @ [(buf2, W, H)]\<rparr>"
    using True by (simp add: convertToRgb_def Let_def start buf0_def buf1_def buf2_def dims)
  ultimately show ?thesis
    using assms(2) by (auto simp: decoder_wf_def frame_fits_def fits_def)
next
  case False
  then have "convertToRgb scale f d = d" by (auto simp: convertToRgb_def)
  with assms(2) show ?thesis by (auto intro: exI [of _ "[]"])
qed

lemma decode_picture_wf:
  assumes "double_laws rnd" and "scale_laws scale" and "side_ok W" and "side_ok H" and "decoder_wf W H d"
  obtains new where "decoder_wf W H (decode_pictures rnd getContext scale [f] d)"
    "frames (decode_pictures rnd getContext scale [f] d) = frames d @ new"
    "list_all (\<lambda>(rgb, w, h). w = W \<and> h = H \<and> frame_fits rgb W H) new"
  using convertToRgb_wf [OF assms(2) new_geometry_wf(1) [OF assms(1,3,4,5)], of f getContext f]
    new_geometry_wf(2) [OF assms(1,3,4,5)]
  by (auto simp: decode_pictures_def)

section \<open>The camera under the receiver\<close>

text \<open>
  \<open>W\<close> and \<open>H\<close> are the size of the canvas. A running receiver has a decoder for that canvas and
  a camera object; the camera is open only while the receiver runs, with that size; the log of
  softcam follows the library's protocol; and what the camera got is what the frame callback
  got, all of it when softcam never fails.
\<close>

definition receiver_inv :: "(softcam \<Rightarrow> bool) \<Rightarrow> int \<Rightarrow> int \<Rightarrow> VideoReceiver \<Rightarrow> bool" where
  "receiver_inv SC W H p \<longleftrightarrow>
     (m_width p = W \<or> m_width p \<le> 0 \<and> W = 1920) \<and> (m_height p = H \<or> m_height p \<le> 0 \<and> H = 1080) \<and>
     (sr_running (rx p) \<longrightarrow> m_camera p \<noteq> None \<and> (\<exists>d. m_decoder p = Some d \<and> decoder_wf W H d)) \<and>
     (case m_camera p of
        None \<Rightarrow> cam_replay frame_fits (cam_calls p) Unloaded = Some Unloaded
      | Some v \<Rightarrow> cam_ok frame_fits (v, cam_calls p) \<and>
          (isOpen v \<longrightarrow> sr_running (rx p) \<and> camera_size (v, cam_calls p) = (W, H))) \<and>
     subseq (frames_sent (cam_calls p)) (map fst (on_frames p)) \<and>
     ((\<forall>e. SC e \<longrightarrow> softcam_works e) \<longrightarrow> frames_sent (cam_calls p) = map fst (on_frames p))"

lemma on_frame_camera:
  assumes "m_camera p = Some v"
  shows "m_camera (on_frame e (rgb, w, h) p) = Some (fst (cam.show1 (m_fps p) e w h rgb (v, cam_calls p)))"
    and "cam_calls (on_frame e (rgb, w, h) p) = snd (cam.show1 (m_fps p) e w h rgb (v, cam_calls p))"
    and "m_width (on_frame e (rgb, w, h) p) = (if isOpen v then m_width p else w)"
    and "m_height (on_frame e (rgb, w, h) p) = (if isOpen v then m_height p else h)"
    and "rx (on_frame e (rgb, w, h) p) = rx p" and "m_decoder (on_frame e (rgb, w, h) p) = m_decoder p"
    and "on_frames (on_frame e (rgb, w, h) p) = on_frames p @ [(rgb, w, h)]"
  using assms by (auto simp: on_frame_def cam.show1_def Let_def split: prod.splits bool.splits)

lemma on_frame_keeps [simp]:
  "rx (on_frame e fr p) = rx p" "m_decoder (on_frame e fr p) = m_decoder p"
  "on_frames (on_frame e fr p) = on_frames p @ [fr]"
  by (auto simp: on_frame_def Let_def split: prod.splits bool.splits)

lemma on_frames_keep [simp]:
  "rx (fold (on_frame e) frs p) = rx p" "m_decoder (fold (on_frame e) frs p) = m_decoder p"
  "on_frames (fold (on_frame e) frs p) = on_frames p @ frs"
  by (induction frs arbitrary: p) simp_all

lemma subseq_snoc: "subseq xs ys \<Longrightarrow> subseq (xs @ [a]) (ys @ [a])" "subseq xs ys \<Longrightarrow> subseq xs (ys @ [a])"
  using list_emb_append_mono [of "(=)" xs ys "[]" "[a]"] by (simp_all add: list_emb_append_mono)

lemma on_frame_inv:
  assumes "receiver_inv SC W H p" and "sr_running (rx p)" and "frame_fits rgb W H" and "SC e"
  shows "receiver_inv SC W H (on_frame e (rgb, W, H) p)" and "sr_running (rx (on_frame e (rgb, W, H) p))"
proof -
  from assms(1,2) obtain v where v: "m_camera p = Some v" by (auto simp: receiver_inv_def)
  let ?s = "(v, cam_calls p)" and ?s' = "cam.show1 (m_fps p) e W H rgb (v, cam_calls p)"
  note f = on_frame_camera [OF v, of e rgb W H]
  have ok: "cam_ok frame_fits ?s" "isOpen v \<Longrightarrow> camera_size ?s = (W, H)"
    using assms(1) v by (simp_all add: receiver_inv_def)
  then have open': "isOpen (fst ?s) \<Longrightarrow> camera_size ?s = (W, H)" by simp
  note shown = cam.show1_ok [OF ok(1) open' assms(3), of "m_fps p" e]
  show "sr_running (rx (on_frame e (rgb, W, H) p))" using assms(2) by (simp add: f)
  from shown(3) show "receiver_inv SC W H (on_frame e (rgb, W, H) p)"
    using assms shown(1,2) v
    by (auto simp: receiver_inv_def f subseq_snoc)
qed

lemma on_frames_inv:
  "receiver_inv SC W H p \<Longrightarrow> sr_running (rx p) \<Longrightarrow> SC e \<Longrightarrow>
   list_all (\<lambda>(rgb, w, h). w = W \<and> h = H \<and> frame_fits rgb W H) new \<Longrightarrow>
   receiver_inv SC W H (fold (on_frame e) new p) \<and> sr_running (rx (fold (on_frame e) new p))"
proof (induction new arbitrary: p)
  case (Cons fr new)
  then show ?case using on_frame_inv [of SC W H p] by (cases fr) simp
qed simp

lemma show_pictures_inv:
  assumes "double_laws rnd" and "scale_laws scale" and "side_ok W" and "side_ok H"
  shows "receiver_inv SC W H p \<Longrightarrow> sr_running (rx p) \<Longrightarrow> list_all (\<lambda>(e, f). SC e) fs \<Longrightarrow>
    receiver_inv SC W H (fold (show_picture rnd getContext scale) fs p)"
proof (induction fs arbitrary: p)
  case (Cons ef fs)
  obtain e f where ef: "ef = (e, f)" by (cases ef)
  from Cons.prems obtain d where d: "m_decoder p = Some d" "decoder_wf W H d" by (auto simp: receiver_inv_def)
  from decode_picture_wf [OF assms d(2)] obtain new where new:
    "decoder_wf W H (decode_pictures rnd getContext scale [f] d)"
    "frames (decode_pictures rnd getContext scale [f] d) = frames d @ new"
    "list_all (\<lambda>(rgb, w, h). w = W \<and> h = H \<and> frame_fits rgb W H) new" .
  let ?p = "p\<lparr>m_decoder := Some (decode_pictures rnd getContext scale [f] d)\<rparr>"
  have "receiver_inv SC W H ?p" "sr_running (rx ?p)" using Cons.prems new(1)
    by (auto simp: receiver_inv_def split: option.split)
  from on_frames_inv [OF this _ new(3), of e] Cons.prems(3) ef
  have "receiver_inv SC W H (show_picture rnd getContext scale ef p)"
    "sr_running (rx (show_picture rnd getContext scale ef p))"
    by (simp_all add: show_picture_def d new(2) Let_def)
  with Cons.IH Cons.prems(3) show ?case by simp
qed simp

lemma camera_close_sends [simp]: "frames_sent (snd (camera_close s)) = frames_sent (snd s)"
  by (auto simp: camera_close_def Let_def split: prod.splits option.splits)

lemma decoder_init_wf:
  assumes "0 < W" and "0 < H" and "decoder_init codec_ok W H newVideoDecoder = (True, d)"
  shows "decoder_wf W H (d\<lparr>m_flipHorizontal := flip, m_onFrame := b\<rparr>)"
  using assms
  by (auto simp: decoder_init_def decoder_wf_def frame_fits_def newVideoDecoder_def Let_def nat_mult_distrib
      split: if_splits)

lemma start_inv:
  assumes "receiver_inv SC W H p" and "side_ok W" and "side_ok H" and "\<not> sr_running (rx p)"
    and "receiver_start codec_ok bound p = (ok, p')"
  shows "receiver_inv SC W H p'"
proof -
  have WH: "(if m_width p > 0 then m_width p else 1920) = W" "(if m_height p > 0 then m_height p else 1080) = H"
    "0 < W" "0 < H"
    using assms(1-3) by (auto simp: receiver_inv_def side_ok_def)
  obtain init_ok d where d: "decoder_init codec_ok W H newVideoDecoder = (init_ok, d)"
    by (cases "decoder_init codec_ok W H newVideoDecoder")
  show ?thesis
  proof (cases init_ok)
    case False
    then have "p' = p\<lparr>rx := (rx p)\<lparr>decoder_flip := Some True\<rparr>, m_decoder := Some d\<rparr>"
      using assms(5) d unfolding receiver_start_def WH
      by (auto simp: stream_start_def Let_def split: prod.splits)
    with assms(1,4) show ?thesis by (auto simp: receiver_inv_def split: option.splits)
  next
    case True
    have replay: "cam_replay frame_fits (cam_calls (destroy_camera p)) Unloaded = Some Unloaded"
      using assms(1) cam_ok_close by (auto simp: receiver_inv_def destroy_camera_def split: option.splits)
    have kept: "frames_sent (cam_calls (destroy_camera p)) = frames_sent (cam_calls p)"
      "m_width (destroy_camera p) = m_width p" "m_height (destroy_camera p) = m_height p"
      "on_frames (destroy_camera p) = on_frames p"
      by (auto simp: destroy_camera_def split: option.splits)
    have "p' = (destroy_camera p)\<lparr>m_decoder := Some (d\<lparr>m_flipHorizontal := sr_flip (rx p), m_onFrame := True\<rparr>),
        m_camera := Some newVirtualCamera, rx := rx p'\<rparr>"
      using assms(5) d True unfolding receiver_start_def WH by (auto simp: Let_def split: prod.splits)
    then obtain s where p': "p' = (destroy_camera p)\<lparr>m_decoder := Some (d\<lparr>m_flipHorizontal := sr_flip (rx p), m_onFrame := True\<rparr>),
        m_camera := Some newVirtualCamera, rx := s\<rparr>" by blast
    have "\<not> isOpen newVirtualCamera" by (simp add: isOpen_def newVirtualCamera_def)
    moreover have "decoder_wf W H (d\<lparr>m_flipHorizontal := sr_flip (rx p), m_onFrame := True\<rparr>)"
      using decoder_init_wf [OF WH(3,4), of codec_ok d] d True by simp
    ultimately show ?thesis
      using assms(1) cam_ok_new [OF replay] unfolding p' by (simp add: receiver_inv_def kept)
  qed
qed

lemma receive_turn_running: "receive_turn silent ss s = Some (r, s') \<Longrightarrow> sr_running s' = sr_running s"
  by (auto simp: receive_turn_def split: if_splits option.splits prod.splits frame_result.splits)

lemma decode_turn_running: "decode_turn s = Some s' \<Longrightarrow> sr_running s \<and> sr_running s'"
  by (auto simp: decode_turn_def dequeue_nalu_def split: if_splits option.splits list.splits)

lemma rx_inv:
  assumes "receiver_inv SC W H p" and "sr_running s = sr_running (rx p)"
  shows "receiver_inv SC W H (p\<lparr>rx := s\<rparr>)"
  using assms by (auto simp: receiver_inv_def split: option.splits)

lemma stop_inv:
  assumes "receiver_inv SC W H p" and "receiver_stop ends p = Some p'"
  shows "receiver_inv SC W H p' \<and> \<not> sr_running (rx p')"
proof (cases "sr_running (rx p)")
  case True
  with assms(1) obtain v where v: "m_camera p = Some v" "cam_ok frame_fits (v, cam_calls p)"
    by (auto simp: receiver_inv_def)
  obtain v' calls' where c: "camera_close (v, cam_calls p) = (v', calls')" by (cases "camera_close (v, cam_calls p)")
  from assms(2) True have "ends" using receiver_stop_returns [of ends p] by auto
  with c cam_ok_close [OF v(2)] camera_close_sends [of "(v, cam_calls p)"] assms True v(1) show ?thesis
    by (auto simp: receiver_stop_def receiver_inv_def stream_stop_def)
next
  case False
  with assms show ?thesis by (simp add: receiver_stop_def)
qed

lemma receiver_step_inv:
  assumes "double_laws rnd" and "scale_laws scale" and "side_ok W" and "side_ok H"
    and "receiver_step rnd getContext scale SC p p'" and "receiver_inv SC W H p"
  shows "receiver_inv SC W H p'"
  using assms(5)
proof (cases rule: receiver_step.cases)
  case (rc_start codec_ok bound ok)
  with start_inv [OF assms(6,3,4)] show ?thesis by blast
next
  case (rc_net silent ss r s)
  with rx_inv [OF assms(6) receive_turn_running] show ?thesis by blast
next
  case (rc_decode fs)
  then obtain s where s: "decode_turn (rx p) = Some s"
    "p' = fold (show_picture rnd getContext scale) fs (p\<lparr>rx := s\<rparr>)"
    by (auto simp: receiver_decode_def split: option.splits)
  from decode_turn_running [OF s(1)] rx_inv [OF assms(6)] rc_decode(1)
    show_pictures_inv [OF assms(1-4), of SC "p\<lparr>rx := s\<rparr>" fs getContext] show ?thesis by (simp add: s(2))
next
  case (rc_flip flip)
  with assms(6) show ?thesis
    by (auto simp: receiver_inv_def receiver_setFlip_def decoder_wf_def fits_def split: option.splits)
next
  case (rc_stop ends)
  with stop_inv [OF assms(6)] show ?thesis by blast
qed

definition canvas_side :: "int \<Rightarrow> int \<Rightarrow> int" where
  "canvas_side n dflt = (if n > 0 then n else dflt)"

lemma receiver_reachable_inv:
  assumes "double_laws rnd" and "scale_laws scale" and "side_ok (canvas_side w0 1920)" and "side_ok (canvas_side h0 1080)"
    and "receiver_reachable rnd getContext scale SC w0 h0 p"
  shows "receiver_inv SC (canvas_side w0 1920) (canvas_side h0 1080) p"
  using assms(5)
proof (induction rule: receiver_reachable.induct)
  case (rr_new queue fps)
  then show ?case by (simp add: receiver_inv_def newVideoReceiver_def newStreamReceiver_def canvas_side_def)
next
  case (rr_step p p')
  from receiver_step_inv [OF assms(1-4) rr_step(2)] rr_step show ?case by blast
qed

text \<open>Destroying the receiver deletes the camera and frees the library.\<close>

lemma destroy_unloads:
  assumes "receiver_inv SC W H p" and "receiver_destroy ends p = Some p'"
  shows "cam_replay frame_fits (cam_calls p') Unloaded = Some Unloaded"
proof -
  from assms(2) obtain p1 where p1: "receiver_stop ends p = Some p1" "p' = destroy_camera (p1\<lparr>m_decoder := None\<rparr>)"
    by (auto simp: receiver_destroy_def)
  from stop_inv [OF assms(1) p1(1)] have "receiver_inv SC W H p1" ..
  with cam_ok_close show ?thesis
    by (auto simp: receiver_inv_def destroy_camera_def p1(2) split: option.splits)
qed

section \<open>Properties\<close>

text \<open>
  C30: the camera is used as its library asks. However the receiver is started, fed, flipped and
  stopped, and whatever the loader and softcam do, the calls into softcam.dll follow its protocol
  (no call into a library that is not loaded, at most one camera, no use after delete, every frame
  with exactly as many pixels as the camera has), the camera gets a subsequence of the frames that
  were produced, in order, and all of them when softcam never fails; and destroying the receiver
  deletes the camera and frees the library. The destructor returns when the receiver does not run or
  the threads it joins end, and does not otherwise.
\<close>

theorem camera_protocol:
  assumes "double_laws rnd" and "scale_laws scale" and "side_ok (canvas_side w0 1920)"
    and "side_ok (canvas_side h0 1080)" and "receiver_reachable rnd getContext scale SC w0 h0 p"
  shows "cam_replay frame_fits (cam_calls p) Unloaded \<noteq> None \<and>
    subseq (frames_sent (cam_calls p)) (map fst (on_frames p)) \<and>
    ((\<forall>e. SC e \<longrightarrow> softcam_works e) \<longrightarrow> frames_sent (cam_calls p) = map fst (on_frames p)) \<and>
    (receiver_destroy ends p = None \<longleftrightarrow> sr_running (rx p) \<and> \<not> ends) \<and>
    (\<forall>p'. receiver_destroy ends p = Some p' \<longrightarrow> cam_replay frame_fits (cam_calls p') Unloaded = Some Unloaded)"
proof -
  note inv = receiver_reachable_inv [OF assms]
  have "cam_replay frame_fits (cam_calls p) Unloaded \<noteq> None"
    using inv by (auto simp: receiver_inv_def cam_ok_def split: option.splits)
  moreover have "receiver_destroy ends p = None \<longleftrightarrow> sr_running (rx p) \<and> \<not> ends"
    by (simp add: receiver_destroy_def receiver_stop_returns)
  ultimately show ?thesis using destroy_unloads [OF inv] inv by (simp add: receiver_inv_def)
qed

definition demo_scale :: "picture \<Rightarrow> int \<Rightarrow> int \<Rightarrow> pixel list list" where
  "demo_scale f w h = replicate (nat h) (replicate (nat w) (1, 2, 3))"

definition demo_softcam :: softcam where
  "demo_softcam = \<lparr>has_dll = True, has_create = True, has_delete = True, has_send = True, creates = True\<rparr>"

definition demo_fed :: VideoReceiver where
  "demo_fed = (let p = snd (receiver_start True True (newVideoReceiver [] 4 2 30))
     in p\<lparr>rx := snd (the (receive_turn True [[0, 0], [0, 1, 101]] (rx p)))\<rparr>)"

definition demo_shown :: VideoReceiver where
  "demo_shown = the (receiver_decode (\<lambda>x. x) (\<lambda>d. True) demo_scale
     [(demo_softcam, \<lparr>pic_width = 8, pic_height = 8, pic_format = 0, pic_id = 1\<rparr>)] demo_fed)"

theorem camera_protocol_witness:
  "frames_sent (cam_calls demo_shown) = [[(1, 2, 3), (1, 2, 3), (0, 0, 0), (0, 0, 0), (1, 2, 3), (1, 2, 3), (0, 0, 0), (0, 0, 0)]] \<and>
   receiver_destroy False demo_shown = None \<and>
   (\<exists>p'. receiver_destroy True demo_shown = Some p' \<and> cam_replay frame_fits (cam_calls p') Unloaded = Some Unloaded)"
proof -
  let ?SC = "\<lambda>e. e = demo_softcam"
  obtain r where net: "receive_turn True [[0, 0], [0, 1, 101]] (rx (snd (receiver_start True True (newVideoReceiver [] 4 2 30)))) =
      Some (r, rx demo_fed)"
  proof -
    have "receive_turn True [[0, 0], [0, 1, 101]] (rx (snd (receiver_start True True (newVideoReceiver [] 4 2 30)))) =
        Some (Some [], rx demo_fed)" by code_simp
    then show thesis by (rule that)
  qed
  have fed: "receiver_reachable (\<lambda>x. x) (\<lambda>d. True) demo_scale ?SC 4 2 demo_fed"
  proof -
    let ?p = "snd (receiver_start True True (newVideoReceiver [] 4 2 30))"
    have "receiver_reachable (\<lambda>x. x) (\<lambda>d. True) demo_scale ?SC 4 2 (?p\<lparr>rx := rx demo_fed\<rparr>)"
      by (rule rr_step [OF rr_step [OF rr_new rc_start [OF _ surjective_pairing]] rc_net [OF net]])
        (simp add: newVideoReceiver_def newStreamReceiver_def)
    then show ?thesis by (simp add: demo_fed_def Let_def)
  qed
  have dec: "receiver_decode (\<lambda>x. x) (\<lambda>d. True) demo_scale
     [(demo_softcam, \<lparr>pic_width = 8, pic_height = 8, pic_format = 0, pic_id = 1\<rparr>)] demo_fed = Some demo_shown"
    by code_simp
  have reach: "receiver_reachable (\<lambda>x. x) (\<lambda>d. True) demo_scale ?SC 4 2 demo_shown"
    by (rule rr_step [OF fed rc_decode [OF _ dec]]) simp
  have laws: "scale_laws demo_scale" by (simp add: scale_laws_def demo_scale_def)
  have "frames_sent (cam_calls demo_shown) =
      [[(1, 2, 3), (1, 2, 3), (0, 0, 0), (0, 0, 0), (1, 2, 3), (1, 2, 3), (0, 0, 0), (0, 0, 0)]]"
    by code_simp
  moreover have "side_ok (canvas_side 4 1920)" "side_ok (canvas_side 2 1080)"
    by (simp_all add: canvas_side_def side_ok_def)
  moreover have "sr_running (rx demo_shown)" by code_simp
  ultimately show ?thesis
    using camera_protocol [OF exact_double_laws laws _ _ reach, of False]
      camera_protocol [OF exact_double_laws laws _ _ reach, of True] by blast
qed

end
