(* ===== verification/AdbManager.thy ===== *)
theory AdbManager
  imports TextFormat
begin

text \<open>
  \<^verbatim>\<open>src/core/AdbManager.{h,cpp}\<close>: the thread that asks the bundled adb for the phones on USB
  every two seconds, sets up the three reverse ports of a phone that appears, and reports phones
  that come and go. The adb process, the Windows folder and the Qt file operations are parameters;
  every command that is run and every callback that is made is appended to \<open>adb_log\<close>.
\<close>

section \<open>State\<close>

record AdbDevice =
  serial :: string
  dev_state :: string

datatype adb_event = RanAdb "string list" string | AttachedCb AdbDevice | DetachedCb string

text \<open>
  \<open>'w\<close> is the state of adb and the phones. A run of adb with a command line is \<open>None\<close> when the
  process could not be made, and otherwise the pieces in which \<^verbatim>\<open>ReadFile\<close> delivers what it
  prints. \<open>localAppData\<close> is the answer of \<^verbatim>\<open>SHGetFolderPathW\<close>.
\<close>

record 'w adb_api =
  localAppData :: string
  adb_process :: "'w \<Rightarrow> string \<Rightarrow> string list option \<times> 'w"

record 'w AdbManager =
  m_wsPort :: u16
  m_streamPort :: u16
  m_filePort :: u16
  am_running :: bool
  m_activeSerials :: "string list"
  has_onAttached :: bool
  has_onDetached :: bool
  adb_world :: 'w
  adb_log :: "adb_event list"

definition newAdbManager :: "u16 \<Rightarrow> u16 \<Rightarrow> u16 \<Rightarrow> 'w \<Rightarrow> 'w AdbManager" where
  "newAdbManager ws stream file w = \<lparr>m_wsPort = ws, m_streamPort = stream, m_filePort = file,
     am_running = False, m_activeSerials = [], has_onAttached = False, has_onDetached = False,
     adb_world = w, adb_log = []\<rparr>"

definition adbDir :: "'w adb_api \<Rightarrow> string" where
  "adbDir A = localAppData A @ [CHR 0x5C] @ ''Iriseus'' @ [CHR 0x5C] @ ''adb''"

definition adbExe :: "'w adb_api \<Rightarrow> string" where
  "adbExe A = adbDir A @ [CHR 0x5C] @ ''adb.exe''"

definition adb_log_add :: "adb_event \<Rightarrow> 'w AdbManager \<Rightarrow> 'w AdbManager" where
  "adb_log_add ev s = s\<lparr>adb_log := adb_log s @ [ev]\<rparr>"

section \<open>Running adb\<close>

text \<open>
  The read loop ends at an empty piece. A piece is appended as a C string, up to its first NUL.
\<close>

definition command_line :: "'w adb_api \<Rightarrow> string list \<Rightarrow> string" where
  "command_line A args = [CHR 0x22] @ adbExe A @ [CHR 0x22] @ concat (map (\<lambda>a. '' '' @ a) args)"

definition read_output :: "string list \<Rightarrow> string" where
  "read_output pieces =
     concat (map (takeWhile (\<lambda>c. c \<noteq> CHR 0x00)) (takeWhile (\<lambda>p. p \<noteq> []) pieces))"

definition runAdb :: "'w adb_api \<Rightarrow> string list \<Rightarrow> 'w AdbManager \<Rightarrow> string \<times> 'w AdbManager" where
  "runAdb A args s =
     (let cmd = command_line A args;
          (result, w) = adb_process A (adb_world s) cmd;
          output = (case result of None \<Rightarrow> [] | Some pieces \<Rightarrow> read_output pieces)
      in (output, adb_log_add (RanAdb args cmd) (s\<lparr>adb_world := w\<rparr>)))"

definition startAdbServer :: "'w adb_api \<Rightarrow> 'w AdbManager \<Rightarrow> bool \<times> 'w AdbManager" where
  "startAdbServer A s = (True, snd (runAdb A [''start-server''] s))"

definition tcp_port :: "u16 \<Rightarrow> string" where
  "tcp_port p = ''tcp:'' @ dec (unat p)"

definition setupReverse :: "'w adb_api \<Rightarrow> string \<Rightarrow> 'w AdbManager \<Rightarrow> bool \<times> 'w AdbManager" where
  "setupReverse A ser s =
     (let ws = tcp_port (m_wsPort s); str = tcp_port (m_streamPort s); fl = tcp_port (m_filePort s);
          (out1, s1) = runAdb A [''-s'', ser, ''reverse'', ws, ws] s;
          (out2, s2) = runAdb A [''-s'', ser, ''reverse'', str, str] s1;
          (out3, s3) = runAdb A [''-s'', ser, ''reverse'', fl, fl] s2
      in (True, s3))"

definition removeReverse :: "'w adb_api \<Rightarrow> string \<Rightarrow> 'w AdbManager \<Rightarrow> 'w AdbManager" where
  "removeReverse A ser s = snd (runAdb A [''-s'', ser, ''reverse'', ''--remove-all''] s)"

section \<open>The list of devices\<close>

text \<open>
  \<^verbatim>\<open>std::getline\<close> until the end of the text: an unfinished last line counts when it is not
  empty. \<^verbatim>\<open>>>\<close> skips white space and takes a word; on nothing left it leaves the empty string.
\<close>

definition isspace :: "char \<Rightarrow> bool" where
  "isspace c \<longleftrightarrow> c \<in> {CHR 0x20, CHR 0x09, CHR 0x0A, CHR 0x0B, CHR 0x0C, CHR 0x0D}"

function getlines :: "string \<Rightarrow> string list" where
  "getlines s =
     (if s = [] then []
      else takeWhile (\<lambda>c. c \<noteq> CHR 0x0A) s # getlines (tl (dropWhile (\<lambda>c. c \<noteq> CHR 0x0A) s)))"
  by pat_completeness auto
termination
proof (relation "measure length", goal_cases)
  case (2 s)
  have "length (dropWhile (\<lambda>c. c \<noteq> CHR 0x0A) s) \<le> length s" by (rule length_dropWhile_le)
  with 2 show ?case by (cases s) (auto simp: less_Suc_eq_le intro: le_trans [OF diff_le_self])
qed simp

declare getlines.simps [simp del]

definition read_word :: "string \<Rightarrow> string \<times> string" where
  "read_word s = (let t = dropWhile isspace s
     in (takeWhile (\<lambda>c. \<not> isspace c) t, dropWhile (\<lambda>c. \<not> isspace c) t))"

text \<open>The body of the loop of \<^verbatim>\<open>listDevices\<close> behind the first line.\<close>

definition parse_line :: "string \<Rightarrow> AdbDevice list" where
  "parse_line line =
     (if line = [] \<or> line = [CHR 0x0D] then []
      else
        let (ser, rest) = read_word line; (st, _) = read_word rest
        in if ser \<noteq> [] then [\<lparr>serial = ser, dev_state = st\<rparr>] else [])"

definition parse_devices :: "string \<Rightarrow> AdbDevice list" where
  "parse_devices output = concat (map parse_line (drop 1 (getlines output)))"

definition listDevices :: "'w adb_api \<Rightarrow> 'w AdbManager \<Rightarrow> AdbDevice list \<times> 'w AdbManager" where
  "listDevices A s = (let (output, s1) = runAdb A [''devices''] s in (parse_devices output, s1))"

section \<open>The monitor loop\<close>

definition attach_device :: "'w adb_api \<Rightarrow> AdbDevice \<Rightarrow> 'w AdbManager \<Rightarrow> 'w AdbManager" where
  "attach_device A dev s =
     (if dev_state dev \<noteq> ''device'' then s
      else if serial dev \<in> set (m_activeSerials s) then s
      else
        let s1 = snd (setupReverse A (serial dev) s);
            s2 = s1\<lparr>m_activeSerials := m_activeSerials s1 @ [serial dev]\<rparr>
        in if has_onAttached s2 then adb_log_add (AttachedCb dev) s2 else s2)"

text \<open>The erasing loop: \<open>todo\<close> are the serials from the iterator on, \<open>kept\<close> those before it.\<close>

fun detach_loop :: "AdbDevice list \<Rightarrow> string list \<Rightarrow> string list \<Rightarrow> 'w AdbManager \<Rightarrow> 'w AdbManager" where
  "detach_loop devices kept [] s = s\<lparr>m_activeSerials := kept\<rparr>"
| "detach_loop devices kept (ser # todo) s =
     (if \<not> list_ex (\<lambda>d. serial d = ser) devices
      then detach_loop devices kept todo (if has_onDetached s then adb_log_add (DetachedCb ser) s else s)
      else detach_loop devices (kept @ [ser]) todo s)"

definition monitor_turn :: "'w adb_api \<Rightarrow> 'w AdbManager \<Rightarrow> 'w AdbManager" where
  "monitor_turn A s =
     (let (devices, s1) = listDevices A s;
          s2 = fold (attach_device A) devices s1
      in detach_loop devices [] (m_activeSerials s2) s2)"

text \<open>\<^verbatim>\<open>monitorLoop\<close>, for \<open>n\<close> turns before the flag is taken away.\<close>

fun monitorLoop :: "'w adb_api \<Rightarrow> nat \<Rightarrow> 'w AdbManager \<Rightarrow> 'w AdbManager" where
  "monitorLoop A 0 s = s"
| "monitorLoop A (Suc n) s = (if am_running s then monitorLoop A n (monitor_turn A s) else s)"

definition adb_start :: "'w AdbManager \<Rightarrow> 'w AdbManager" where
  "adb_start s = s\<lparr>am_running := True\<rparr>"

definition adb_stop :: "'w AdbManager \<Rightarrow> 'w AdbManager" where
  "adb_stop s = (if \<not> am_running s then s else s\<lparr>am_running := False\<rparr>)"

section \<open>Extracting adb\<close>

text \<open>
  \<open>'f\<close> is the file system; \<^verbatim>\<open>QFile::copy\<close> may fail. \<^verbatim>\<open>section('/', -1)\<close> is the part behind the
  last slash.
\<close>

record 'f qfile_api =
  q_mkpath :: "'f \<Rightarrow> string \<Rightarrow> 'f"
  q_exists :: "'f \<Rightarrow> string \<Rightarrow> bool"
  q_copy :: "'f \<Rightarrow> string \<Rightarrow> string \<Rightarrow> bool \<times> 'f"
  q_setPermissions :: "'f \<Rightarrow> string \<Rightarrow> 'f"

definition adb_files :: "string list" where
  "adb_files = ['':/adb/adb.exe'', '':/adb/AdbWinApi.dll'', '':/adb/AdbWinUsbApi.dll'']"

definition last_section :: "string \<Rightarrow> string" where
  "last_section s = rev (takeWhile (\<lambda>c. c \<noteq> CHR ''/'') (rev s))"

fun extract_files :: "'f qfile_api \<Rightarrow> string \<Rightarrow> string list \<Rightarrow> 'f \<Rightarrow> bool \<times> 'f" where
  "extract_files Q dir [] f = (True, f)"
| "extract_files Q dir (resPath # rest) f =
     (let destPath = dir @ ''/'' @ last_section resPath in
      if q_exists Q f destPath then extract_files Q dir rest f
      else (case q_copy Q f resPath destPath of
              (False, f1) \<Rightarrow> (False, f1)
            | (True, f1) \<Rightarrow> extract_files Q dir rest (q_setPermissions Q f1 destPath)))"

definition extractAdb :: "'w adb_api \<Rightarrow> 'f qfile_api \<Rightarrow> 'f \<Rightarrow> bool \<times> 'f" where
  "extractAdb A Q f = extract_files Q (adbDir A) adb_files (q_mkpath Q f (adbDir A))"

definition adb_init ::
  "'w adb_api \<Rightarrow> 'f qfile_api \<Rightarrow> 'f \<times> 'w AdbManager \<Rightarrow> bool \<times> 'f \<times> 'w AdbManager" where
  "adb_init A Q = (\<lambda>(f, s).
     case extractAdb A Q f of
       (False, f1) \<Rightarrow> (False, f1, s)
     | (True, f1) \<Rightarrow>
         (case startAdbServer A s of
            (False, s1) \<Rightarrow> (False, f1, s1)
          | (True, s1) \<Rightarrow> (True, f1, s1)))"

section \<open>Reading the listing\<close>

text \<open>What adb prints for its devices, with the line ends of either kind.\<close>

definition word_ok :: "string \<Rightarrow> bool" where
  "word_ok s \<longleftrightarrow> list_all (\<lambda>c. \<not> isspace c \<and> c \<noteq> CHR 0x00) s"

definition adb_device_ok :: "AdbDevice \<Rightarrow> bool" where
  "adb_device_ok d \<longleftrightarrow> serial d \<noteq> [] \<and> word_ok (serial d) \<and> word_ok (dev_state d)"

definition device_line :: "AdbDevice \<Rightarrow> string" where
  "device_line d = serial d @ [CHR 0x09] @ dev_state d"

definition listing :: "string \<Rightarrow> string \<Rightarrow> AdbDevice list \<Rightarrow> string" where
  "listing cr header L =
     concat (map (\<lambda>line. line @ cr @ [CHR 0x0A]) (header # map device_line L @ [[]]))"

lemma getlines_line: "CHR 0x0A \<notin> set a \<Longrightarrow> getlines (a @ CHR 0x0A # rest) = a # getlines rest"
proof -
  assume "CHR 0x0A \<notin> set a"
  then have "takeWhile (\<lambda>c. c \<noteq> CHR 0x0A) (a @ CHR 0x0A # rest) = a"
    "dropWhile (\<lambda>c. c \<noteq> CHR 0x0A) (a @ CHR 0x0A # rest) = CHR 0x0A # rest"
    by (auto simp: takeWhile_append dropWhile_append dropWhile_eq_Nil_conv takeWhile_eq_all_conv)
  then show ?thesis by (subst getlines.simps) simp
qed

lemma getlines_lines:
  assumes "CHR 0x0A \<notin> set cr"
  shows "list_all (\<lambda>line. CHR 0x0A \<notin> set line) ls \<Longrightarrow>
    getlines (concat (map (\<lambda>line. line @ cr @ [CHR 0x0A]) ls)) = map (\<lambda>line. line @ cr) ls"
proof (induction ls)
  case Nil
  show ?case by (simp add: getlines.simps)
next
  case (Cons line ls)
  then show ?case using getlines_line [of "line @ cr"] assms by simp
qed

lemma word_no_space: "word_ok s \<Longrightarrow> c \<in> set s \<Longrightarrow> \<not> isspace c"
  by (simp add: word_ok_def list_all_iff)

lemma read_word_word:
  assumes "word_ok s" and "s \<noteq> []" and "isspace c"
  shows "read_word (s @ c # rest) = (s, c # rest)" and "read_word s = (s, [])"
proof -
  obtain a s' where s: "s = a # s'" "\<not> isspace a" using assms(1,2) by (cases s) (auto simp: word_ok_def)
  have "dropWhile isspace (s @ c # rest) = s @ c # rest" "dropWhile isspace s = s" by (simp_all add: s)
  moreover have "takeWhile (\<lambda>c. \<not> isspace c) (s @ c # rest) = s" "dropWhile (\<lambda>c. \<not> isspace c) (s @ c # rest) = c # rest"
    "takeWhile (\<lambda>c. \<not> isspace c) s = s" "dropWhile (\<lambda>c. \<not> isspace c) s = []"
    using word_no_space [OF assms(1)] assms(3)
    by (auto simp: takeWhile_append dropWhile_append dropWhile_eq_Nil_conv takeWhile_eq_all_conv)
  ultimately show "read_word (s @ c # rest) = (s, c # rest)" "read_word s = (s, [])"
    by (simp_all add: read_word_def)
qed

lemma read_word_skip: "isspace c \<Longrightarrow> read_word (c # s) = read_word s"
  by (simp add: read_word_def)

lemma parse_device_line:
  assumes "adb_device_ok d" and "cr = [] \<or> cr = [CHR 0x0D]"
  shows "parse_line (device_line d @ cr) = [d]"
proof -
  have tab: "isspace (CHR 0x09)" "isspace (CHR 0x0D)" by (simp_all add: isspace_def)
  have first: "read_word (device_line d @ cr) = (serial d, CHR 0x09 # dev_state d @ cr)"
    using read_word_word(1) [OF _ _ tab(1), of "serial d" "dev_state d @ cr"] assms(1)
    by (simp add: device_line_def adb_device_ok_def)
  have "fst (read_word (dev_state d @ cr)) = dev_state d"
  proof (cases "dev_state d = []")
    case True
    with assms(2) tab show ?thesis by (auto simp: read_word_def)
  next
    case False
    with assms read_word_word(1) [OF _ False tab(2), where rest = "[]"] read_word_word(2) [OF _ False tab(2)] show ?thesis by (auto simp: adb_device_ok_def)
  qed
  then obtain rest where "read_word (CHR 0x09 # dev_state d @ cr) = (dev_state d, rest)"
    using read_word_skip [OF tab(1)] by (metis prod.collapse)
  moreover have "device_line d @ cr \<noteq> []" "device_line d @ cr \<noteq> [CHR 0x0D]"
    using assms(1) by (auto simp: device_line_def adb_device_ok_def append_eq_Cons_conv)
  ultimately show ?thesis using assms(1) by (simp add: parse_line_def first adb_device_ok_def)
qed

lemma parse_listing:
  assumes "list_all adb_device_ok L" and "CHR 0x0A \<notin> set header" and "cr = [] \<or> cr = [CHR 0x0D]"
  shows "parse_devices (listing cr header L) = L"
proof -
  have "CHR 0x0A \<notin> set (device_line d)" if "adb_device_ok d" for d
    using that word_no_space [of "serial d"] word_no_space [of "dev_state d"]
    by (auto simp: device_line_def adb_device_ok_def isspace_def)
  then have lines: "list_all (\<lambda>line. CHR 0x0A \<notin> set line) (header # map device_line L @ [[]])"
    using assms(1,2) by (auto simp: list_all_iff)
  have "getlines (listing cr header L) = map (\<lambda>line. line @ cr) (header # map device_line L @ [[]])"
    unfolding listing_def by (rule getlines_lines [OF _ lines]) (use assms(3) in auto)
  moreover have "parse_line cr = []" using assms(3) by (auto simp: parse_line_def)
  moreover have "concat (map (\<lambda>d. parse_line (device_line d @ cr)) L) = L"
    using assms(1) by (induction L) (simp_all add: parse_device_line [OF _ assms(3)])
  ultimately show ?thesis by (simp add: parse_devices_def comp_def)
qed

text \<open>Without NULs the pieces in which the pipe delivers the text do not matter.\<close>

lemma read_output_pieces:
  assumes "[] \<notin> set pieces" and "CHR 0x00 \<notin> set (concat pieces)"
  shows "read_output pieces = concat pieces"
proof -
  have "takeWhile (\<lambda>p. p \<noteq> []) pieces = pieces" using assms(1) by (auto simp: takeWhile_eq_all_conv)
  moreover have "map (takeWhile (\<lambda>c. c \<noteq> CHR 0x00)) pieces = pieces"
    using assms(2) by (auto intro!: map_idI simp: takeWhile_eq_all_conv)
  ultimately show ?thesis by (simp only: read_output_def)
qed

section \<open>What one turn does\<close>

text \<open>
  The phones that are ready and not yet known, each serial once, in the order of the listing;
  and what the log gets for one of them.
\<close>

fun newcomers :: "string list \<Rightarrow> AdbDevice list \<Rightarrow> AdbDevice list" where
  "newcomers act [] = []"
| "newcomers act (d # L) =
     (if dev_state d = ''device'' \<and> serial d \<notin> set act then d # newcomers (act @ [serial d]) L
      else newcomers act L)"

definition reverse_args :: "string \<Rightarrow> u16 \<Rightarrow> string list" where
  "reverse_args ser p = [''-s'', ser, ''reverse'', tcp_port p, tcp_port p]"

definition attach_log :: "'w adb_api \<Rightarrow> u16 list \<Rightarrow> AdbDevice \<Rightarrow> adb_event list" where
  "attach_log A ports d =
     map (\<lambda>p. RanAdb (reverse_args (serial d) p) (command_line A (reverse_args (serial d) p))) ports @
     [AttachedCb d]"

definition adb_ports :: "'w AdbManager \<Rightarrow> u16 list" where
  "adb_ports s = [m_wsPort s, m_streamPort s, m_filePort s]"

text \<open>What the operations leave alone: everything but the world, the log and the serials.\<close>

definition same_config :: "'w AdbManager \<Rightarrow> 'w AdbManager \<Rightarrow> bool" where
  "same_config s s' \<longleftrightarrow> adb_ports s' = adb_ports s \<and> am_running s' = am_running s \<and>
     has_onAttached s' = has_onAttached s \<and> has_onDetached s' = has_onDetached s"

lemma runAdb_effect:
  assumes "runAdb A args s = (output, s')"
  shows "same_config s s'" and "m_activeSerials s' = m_activeSerials s"
    and "adb_log s' = adb_log s @ [RanAdb args (command_line A args)]"
  using assms by (auto simp: runAdb_def same_config_def adb_ports_def adb_log_add_def Let_def split: prod.splits)

lemma setupReverse_effect:
  assumes "setupReverse A ser s = (ok, s')"
  shows "same_config s s'" and "m_activeSerials s' = m_activeSerials s"
    and "adb_log s' = adb_log s @ map (\<lambda>p. RanAdb (reverse_args ser p) (command_line A (reverse_args ser p))) (adb_ports s)"
proof -
  let ?args = "\<lambda>p. reverse_args ser p"
  obtain o1 s1 where r1: "runAdb A (?args (m_wsPort s)) s = (o1, s1)" by (cases "runAdb A (?args (m_wsPort s)) s")
  obtain o2 s2 where r2: "runAdb A (?args (m_streamPort s)) s1 = (o2, s2)" by (cases "runAdb A (?args (m_streamPort s)) s1")
  obtain o3 s3 where r3: "runAdb A (?args (m_filePort s)) s2 = (o3, s3)" by (cases "runAdb A (?args (m_filePort s)) s2")
  have "s' = s3" using assms r1 r2 r3 by (simp add: setupReverse_def reverse_args_def Let_def)
  with runAdb_effect [OF r1] runAdb_effect [OF r2] runAdb_effect [OF r3]
  show "same_config s s'" "m_activeSerials s' = m_activeSerials s"
    "adb_log s' = adb_log s @ map (\<lambda>p. RanAdb (reverse_args ser p) (command_line A (reverse_args ser p))) (adb_ports s)"
    by (simp_all add: same_config_def adb_ports_def)
qed

lemma attach_device_effect:
  assumes "has_onAttached s"
  shows "same_config s (attach_device A d s)"
    and "m_activeSerials (attach_device A d s) = m_activeSerials s @ map serial (newcomers (m_activeSerials s) [d])"
    and "adb_log (attach_device A d s) =
      adb_log s @ concat (map (attach_log A (adb_ports s)) (newcomers (m_activeSerials s) [d]))"
proof -
  obtain ok s1 where s1: "setupReverse A (serial d) s = (ok, s1)" by (cases "setupReverse A (serial d) s")
  note e = setupReverse_effect [OF s1]
  have "has_onAttached s1" using e(1) assms by (simp add: same_config_def)
  with e assms show "same_config s (attach_device A d s)"
    "m_activeSerials (attach_device A d s) = m_activeSerials s @ map serial (newcomers (m_activeSerials s) [d])"
    "adb_log (attach_device A d s) =
      adb_log s @ concat (map (attach_log A (adb_ports s)) (newcomers (m_activeSerials s) [d]))"
    by (auto simp: attach_device_def s1 adb_log_add_def attach_log_def same_config_def adb_ports_def)
qed

lemma same_config_trans: "same_config s s1 \<Longrightarrow> same_config s1 s2 \<Longrightarrow> same_config s s2"
  by (simp add: same_config_def)

lemma attach_devices_effect:
  "has_onAttached s \<Longrightarrow>
   same_config s (fold (attach_device A) L s) \<and>
   m_activeSerials (fold (attach_device A) L s) = m_activeSerials s @ map serial (newcomers (m_activeSerials s) L) \<and>
   adb_log (fold (attach_device A) L s) =
     adb_log s @ concat (map (attach_log A (adb_ports s)) (newcomers (m_activeSerials s) L))"
proof (induction L arbitrary: s)
  case Nil
  show ?case by (simp add: same_config_def)
next
  case (Cons d L)
  note e = attach_device_effect [OF Cons.prems, of A d]
  have "has_onAttached (attach_device A d s)" "adb_ports (attach_device A d s) = adb_ports s"
    using e(1) Cons.prems by (simp_all add: same_config_def)
  with Cons.IH [of "attach_device A d s"] e show ?case
    by (auto dest: same_config_trans [OF e(1)])
qed

lemma detach_loop_effect:
  "has_onDetached s \<Longrightarrow>
   same_config s (detach_loop L kept todo s) \<and>
   m_activeSerials (detach_loop L kept todo s) = kept @ filter (\<lambda>x. x \<in> serial ` set L) todo \<and>
   adb_log (detach_loop L kept todo s) = adb_log s @ map DetachedCb (filter (\<lambda>x. x \<notin> serial ` set L) todo)"
proof (induction L kept todo s rule: detach_loop.induct)
  case (1 devices kept s)
  then show ?case by (simp add: same_config_def adb_ports_def)
next
  case (2 devices kept ser todo s)
  show ?case
  proof (cases "list_ex (\<lambda>d. serial d = ser) devices")
    case True
    then have "ser \<in> serial ` set devices" by (auto simp: list_ex_iff)
    with True "2.IH"(2) "2.prems" show ?thesis by simp
  next
    case False
    let ?s = "adb_log_add (DetachedCb ser) s"
    from False have "ser \<notin> serial ` set devices" by (auto simp: list_ex_iff)
    moreover have "same_config s ?s" "has_onDetached ?s" "adb_log ?s = adb_log s @ [DetachedCb ser]"
      using "2.prems" by (simp_all add: same_config_def adb_log_add_def adb_ports_def)
    moreover have "detach_loop devices kept (ser # todo) s = detach_loop devices kept todo ?s"
      using False "2.prems" by simp
    ultimately show ?thesis
      using "2.IH"(1) [OF _] False "2.prems" by (auto simp: same_config_def)
  qed
qed

lemma newcomers_seen: "set (newcomers act L) \<subseteq> set L"
  by (induction act L rule: newcomers.induct) auto

lemma newcomers_serials:
  "x \<in> serial ` set (newcomers act L) \<longleftrightarrow> x \<notin> set act \<and> (\<exists>d \<in> set L. dev_state d = ''device'' \<and> serial d = x)"
proof (induction act L rule: newcomers.induct)
  case (2 act d L)
  show ?case
  proof (cases "dev_state d = ''device'' \<and> serial d \<notin> set act")
    case True
    with 2 show ?thesis by (cases "x = serial d") auto
  next
    case False
    with 2 show ?thesis by auto
  qed
qed simp

lemma newcomers_distinct: "distinct act \<Longrightarrow> distinct (act @ map serial (newcomers act L))"
  by (induction act L rule: newcomers.induct) auto

lemma monitor_turn_effect:
  assumes "has_onAttached s" and "has_onDetached s" and "listDevices A s = (L, s1)"
  shows "same_config s (monitor_turn A s)"
    and "m_activeSerials (monitor_turn A s) =
      filter (\<lambda>x. x \<in> serial ` set L) (m_activeSerials s @ map serial (newcomers (m_activeSerials s) L))"
    and "adb_log (monitor_turn A s) = adb_log s @ [RanAdb [''devices''] (command_line A [''devices''])] @
      concat (map (attach_log A (adb_ports s)) (newcomers (m_activeSerials s) L)) @
      map DetachedCb (filter (\<lambda>x. x \<notin> serial ` set L) (m_activeSerials s))"
proof -
  from assms(3) obtain out_text where out: "runAdb A [''devices''] s = (out_text, s1)" "L = parse_devices out_text"
    by (auto simp: listDevices_def split: prod.splits)
  note e1 = runAdb_effect [OF out(1)]
  have cb: "has_onAttached s1" "has_onDetached s1" "adb_ports s1 = adb_ports s"
    using e1(1) assms(1,2) by (simp_all add: same_config_def)
  let ?s2 = "fold (attach_device A) L s1"
  note e2 = attach_devices_effect [OF cb(1), of A L]
  have "has_onDetached ?s2" using e2 cb(2) by (simp add: same_config_def)
  note e3 = detach_loop_effect [OF this, of L "[]" "m_activeSerials ?s2"]
  have turn: "monitor_turn A s = detach_loop L [] (m_activeSerials ?s2) ?s2"
    by (simp add: monitor_turn_def assms(3) Let_def)
  have "filter (\<lambda>x. x \<notin> serial ` set L) (map serial (newcomers (m_activeSerials s) L)) = []"
    using newcomers_seen [of "m_activeSerials s" L] by (auto simp: filter_empty_conv)
  then show "same_config s (monitor_turn A s)"
    and "m_activeSerials (monitor_turn A s) =
      filter (\<lambda>x. x \<in> serial ` set L) (m_activeSerials s @ map serial (newcomers (m_activeSerials s) L))"
    and "adb_log (monitor_turn A s) = adb_log s @ [RanAdb [''devices''] (command_line A [''devices''])] @
      concat (map (attach_log A (adb_ports s)) (newcomers (m_activeSerials s) L)) @
      map DetachedCb (filter (\<lambda>x. x \<notin> serial ` set L) (m_activeSerials s))"
    using e1 e2 e3 cb(3) unfolding turn by (auto intro: same_config_trans)
qed

section \<open>The abstract monitor\<close>

text \<open>
  The contract of the monitor, over the set of phones that are linked: a listing links the phones
  that are ready and keeps those it still shows. What the application hears of one phone is a
  list of booleans (attached, detached), and these alternate.
\<close>

definition usb_spec :: "AdbDevice list \<Rightarrow> string set \<Rightarrow> string set" where
  "usb_spec L linked = {serial d |d. d \<in> set L \<and> dev_state d = ''device''} \<union> (linked \<inter> serial ` set L)"

fun cb_of :: "string \<Rightarrow> adb_event \<Rightarrow> bool list" where
  "cb_of x (RanAdb args cmd) = []"
| "cb_of x (AttachedCb d) = (if serial d = x then [True] else [])"
| "cb_of x (DetachedCb y) = (if y = x then [False] else [])"

definition cb_trace :: "string \<Rightarrow> adb_event list \<Rightarrow> bool list" where
  "cb_trace x evs = concat (map (cb_of x) evs)"

fun alternating :: "bool \<Rightarrow> bool list \<Rightarrow> bool" where
  "alternating b [] = True"
| "alternating b (c # cs) = (c = b \<and> alternating (\<not> b) cs)"

lemma alternating_append:
  "alternating b (xs @ ys) \<longleftrightarrow> alternating b xs \<and> alternating (if odd (length xs) then \<not> b else b) ys"
  by (induction b xs rule: alternating.induct) auto

lemma cb_trace_simps [simp]:
  "cb_trace x [] = []" "cb_trace x (xs @ ys) = cb_trace x xs @ cb_trace x ys"
  "cb_trace x (ev # evs) = cb_of x ev @ cb_trace x evs"
  by (simp_all add: cb_trace_def)

lemma cb_trace_attach [simp]: "cb_trace x (attach_log A ports d) = (if serial d = x then [True] else [])"
  by (induction ports) (simp_all add: attach_log_def)

lemma cb_trace_new:
  "distinct (map serial new) \<Longrightarrow>
   cb_trace x (concat (map (attach_log A ports) new)) = (if x \<in> serial ` set new then [True] else [])"
  by (induction new) auto

lemma cb_trace_gone: "distinct gone \<Longrightarrow> cb_trace x (map DetachedCb gone) = (if x \<in> set gone then [False] else [])"
  by (induction gone) auto

definition adb_inv :: "'w AdbManager \<Rightarrow> bool" where
  "adb_inv s \<longleftrightarrow> has_onAttached s \<and> has_onDetached s \<and> distinct (m_activeSerials s) \<and>
     (\<forall>x. alternating True (cb_trace x (adb_log s)) \<and>
        (x \<in> set (m_activeSerials s) \<longleftrightarrow> odd (length (cb_trace x (adb_log s)))))"

lemma monitor_turn_spec:
  assumes "has_onAttached s" and "has_onDetached s" and "listDevices A s = (L, s1)"
  shows "set (m_activeSerials (monitor_turn A s)) = usb_spec L (set (m_activeSerials s))"
proof -
  have "x \<in> set (m_activeSerials (monitor_turn A s)) \<longleftrightarrow> x \<in> usb_spec L (set (m_activeSerials s))" for x
    using newcomers_serials [of x "m_activeSerials s" L]
    unfolding monitor_turn_effect(2) [OF assms] usb_spec_def by auto
  then show ?thesis by blast
qed

lemma monitor_turn_inv:
  assumes "adb_inv s"
  shows "adb_inv (monitor_turn A s)"
proof -
  obtain L s1 where L: "listDevices A s = (L, s1)" by (cases "listDevices A s")
  have cb: "has_onAttached s" "has_onDetached s" using assms by (simp_all add: adb_inv_def)
  note e = monitor_turn_effect [OF cb L]
  let ?act = "m_activeSerials s" and ?new = "newcomers (m_activeSerials s) L"
  let ?gone = "filter (\<lambda>x. x \<notin> serial ` set L) ?act"
  have dist: "distinct (?act @ map serial ?new)"
    using assms by (intro newcomers_distinct) (simp add: adb_inv_def)
  have trace: "cb_trace x (adb_log (monitor_turn A s)) = cb_trace x (adb_log s) @
      (if x \<in> serial ` set ?new then [True] else []) @ (if x \<in> set ?gone then [False] else [])" for x
    using dist by (simp add: e(3) cb_trace_new cb_trace_gone)
  have "alternating True (cb_trace x (adb_log (monitor_turn A s))) \<and>
      (x \<in> set (m_activeSerials (monitor_turn A s)) \<longleftrightarrow> odd (length (cb_trace x (adb_log (monitor_turn A s)))))" for x
  proof -
    have old: "alternating True (cb_trace x (adb_log s))" "x \<in> set ?act \<longleftrightarrow> odd (length (cb_trace x (adb_log s)))"
      using assms unfolding adb_inv_def by blast+
    have new: "x \<in> serial ` set ?new \<Longrightarrow> x \<notin> set ?act \<and> x \<in> serial ` set L"
      unfolding newcomers_serials by (metis imageI)
    show ?thesis
      using old new unfolding trace e(2) by (auto simp: alternating_append image_iff)
  qed
  moreover have "distinct (m_activeSerials (monitor_turn A s))"
    using distinct_filter [OF dist] by (simp add: e(2))
  ultimately show ?thesis using cb e(1) by (simp add: adb_inv_def same_config_def)
qed

lemma monitorLoop_inv: "adb_inv s \<Longrightarrow> adb_inv (monitorLoop A n s)"
  by (induction A n s rule: monitorLoop.induct) (simp_all add: monitor_turn_inv)

section \<open>Properties\<close>

text \<open>
  C27: the monitor refines its contract. After any number of turns, when adb prints a listing, in
  whatever pieces the pipe delivers it and with either kind of line end, the next turn takes the set of
  linked phones to what the contract says; it runs the listing, then for every phone newly linked,
  in order, the three reverse commands for its serial and the attach callback, then a detach
  callback for every phone that is gone, and nothing else; and over the whole history attach and
  detach callbacks alternate for every phone, the last one telling whether it is linked.
\<close>

theorem adb_monitor_refines:
  assumes "s = monitorLoop A n (adb_start s0)" and "has_onAttached s0" and "has_onDetached s0"
    and "m_activeSerials s0 = []" and "\<forall>x. cb_trace x (adb_log s0) = []"
    and "adb_process A (adb_world s) (command_line A [''devices'']) = (Some pieces, w)"
    and "[] \<notin> set pieces" and "concat pieces = listing cr header L" and "cr = [] \<or> cr = [CHR 0x0D]"
    and "CHR 0x0A \<notin> set header" and "CHR 0x00 \<notin> set header" and "list_all adb_device_ok L"
  shows "set (m_activeSerials (monitor_turn A s)) = usb_spec L (set (m_activeSerials s)) \<and>
    (\<exists>new. distinct (map serial new) \<and>
       serial ` set new = usb_spec L (set (m_activeSerials s)) - set (m_activeSerials s) \<and>
       adb_log (monitor_turn A s) = adb_log s @ [RanAdb [''devices''] (command_line A [''devices''])] @
         concat (map (attach_log A (adb_ports s)) new) @
         map DetachedCb (filter (\<lambda>x. x \<notin> serial ` set L) (m_activeSerials s))) \<and>
    (\<forall>x. alternating True (cb_trace x (adb_log (monitor_turn A s))) \<and>
       (x \<in> set (m_activeSerials (monitor_turn A s)) \<longleftrightarrow> odd (length (cb_trace x (adb_log (monitor_turn A s))))))"
proof -
  have "adb_inv (adb_start s0)" using assms(2-5) by (simp add: adb_inv_def adb_start_def)
  then have inv: "adb_inv s" unfolding assms(1) by (rule monitorLoop_inv)
  have "CHR 0x00 \<notin> set (device_line d)" if "adb_device_ok d" for d
    using that by (auto simp: device_line_def adb_device_ok_def word_ok_def list_all_iff)
  then have "CHR 0x00 \<notin> set (concat pieces)"
    using assms(9,11,12) unfolding assms(8) by (auto simp: listing_def list_all_iff)
  then have "read_output pieces = listing cr header L"
    using read_output_pieces [OF assms(7)] assms(8) by simp
  then obtain s1 where L: "listDevices A s = (L, s1)"
    using parse_listing [OF assms(12,10,9)] by (simp add: listDevices_def runAdb_def assms(6) Let_def)
  have cb: "has_onAttached s" "has_onDetached s" "distinct (m_activeSerials s)"
    using inv by (simp_all add: adb_inv_def)
  have "x \<in> serial ` set (newcomers (m_activeSerials s) L) \<longleftrightarrow>
      x \<in> usb_spec L (set (m_activeSerials s)) - set (m_activeSerials s)" for x
    unfolding newcomers_serials usb_spec_def by auto
  then have new: "serial ` set (newcomers (m_activeSerials s) L) =
      usb_spec L (set (m_activeSerials s)) - set (m_activeSerials s)" by blast
  have "adb_inv (monitor_turn A s)" by (rule monitor_turn_inv [OF inv])
  with monitor_turn_spec [OF cb(1,2) L] monitor_turn_effect(3) [OF cb(1,2) L] new
    newcomers_distinct [OF cb(3), of L]
  show ?thesis unfolding adb_inv_def by (intro conjI exI [of _ "newcomers (m_activeSerials s) L"]) simp_all
qed

text \<open>
  A phone that goes offline or is unplugged and comes back between two turns, or that stays in the
  listing in another state, keeps its serial in the list, and its reverse ports are not set up again.
\<close>

lemma no_second_reverse:
  assumes "serial d \<in> set (m_activeSerials s)"
  shows "attach_device A d s = s"
  using assms by (simp add: attach_device_def)

text \<open>A phone that is listed in two pieces of text after the server's start.\<close>

definition demo_adb :: "nat adb_api" where
  "demo_adb = \<lparr>localAppData = ''C:'',
     adb_process = (\<lambda>n cmd.
       (if cmd = [CHR 0x22] @ ''C:'' @ [CHR 0x5C] @ ''Iriseus'' @ [CHR 0x5C] @ ''adb'' @ [CHR 0x5C] @ ''adb.exe'' @ [CHR 0x22] @ '' devices''
        then Some [''List of devices'' @ [CHR 0x0D, CHR 0x0A] @ ''R5CT'', [CHR 0x09] @ ''device'' @ [CHR 0x0D, CHR 0x0A, CHR 0x0D, CHR 0x0A]]
        else None, Suc n))\<rparr>"

definition demo_adb_manager :: "nat AdbManager" where
  "demo_adb_manager = (newAdbManager 45678 45679 45680 0)\<lparr>has_onAttached := True, has_onDetached := True\<rparr>"

theorem adb_monitor_refines_witness:
  "set (m_activeSerials (monitor_turn demo_adb (adb_start demo_adb_manager))) = {''R5CT''} \<and>
   odd (length (cb_trace ''R5CT'' (adb_log (monitor_turn demo_adb (adb_start demo_adb_manager)))))"
proof -
  let ?L = "[\<lparr>serial = ''R5CT'', dev_state = ''device''\<rparr>]"
  let ?pieces = "[''List of devices'' @ [CHR 0x0D, CHR 0x0A] @ ''R5CT'', [CHR 0x09] @ ''device'' @ [CHR 0x0D, CHR 0x0A, CHR 0x0D, CHR 0x0A]]"
  let ?s = "adb_start demo_adb_manager"
  have start: "?s = monitorLoop demo_adb 0 (adb_start demo_adb_manager)" by simp
  have run: "adb_process demo_adb (adb_world ?s) (command_line demo_adb [''devices'']) = (Some ?pieces, 1)"
    by (simp add: demo_adb_def demo_adb_manager_def newAdbManager_def adb_start_def command_line_def adbExe_def adbDir_def)
  have text_ok: "concat ?pieces = listing [CHR 0x0D] ''List of devices'' ?L"
    by (simp add: listing_def device_line_def)
  have dev: "list_all adb_device_ok ?L" by (simp add: adb_device_ok_def word_ok_def isspace_def)
  have init: "has_onAttached demo_adb_manager" "has_onDetached demo_adb_manager" "m_activeSerials demo_adb_manager = []"
    "\<forall>x. cb_trace x (adb_log demo_adb_manager) = []" "m_activeSerials ?s = []"
    by (simp_all add: demo_adb_manager_def newAdbManager_def adb_start_def)
  have plain: "[] \<notin> set ?pieces" "[CHR 0x0D] = [] \<or> [CHR 0x0D] = [CHR 0x0D]"
    "CHR 0x0A \<notin> set ''List of devices''" "CHR 0x00 \<notin> set ''List of devices''" by simp_all
  note turn = adb_monitor_refines [OF start init(1-4) run plain(1) text_ok plain(2-4) dev]
  have "''R5CT'' \<in> set (m_activeSerials (monitor_turn demo_adb ?s)) \<longleftrightarrow>
     odd (length (cb_trace ''R5CT'' (adb_log (monitor_turn demo_adb ?s))))"
    using turn by blast
  with turn [THEN conjunct1] show ?thesis by (simp add: usb_spec_def init(5))
qed

end
