(* ===== verification/TrayIcon.thy ===== *)
theory TrayIcon
  imports Pairing
begin

text \<open>
  \<^verbatim>\<open>src/ui/TrayIcon.{h,cpp}\<close> and \<^verbatim>\<open>src/ui/PairingDialog.{h,cpp}\<close>: what the user sees and can
  click. A widget is the properties the code sets on it; layout, fonts and painting are left out.
  What the user does is an argument, the signals that the code emits are the result. Texts are the
  bytes of the UTF-8 literals.
\<close>

section \<open>The tray icon\<close>

datatype standard_pixmap = SP_MediaPlay | SP_ComputerIcon

text \<open>
  \<open>balloons\<close> are the calls of \<^verbatim>\<open>showMessage\<close> (title, text, milliseconds); \<open>quit_asked\<close> is
  \<^verbatim>\<open>QApplication::quit\<close>.
\<close>

record TrayIcon =
  m_cameraActive :: bool
  tray_pixmap :: standard_pixmap
  tray_tooltip :: string
  tray_visible :: bool
  start_visible :: bool
  stop_visible :: bool
  flip_checked :: bool
  balloons :: "(string \<times> string \<times> nat) list"
  quit_asked :: bool

datatype tray_signal =
    PairRequested
  | OpenDownloadsRequested
  | SendFilesRequested
  | FlipHorizontalToggled bool

definition str_camera :: string where "str_camera = ''C'' @ [CHR 0xC3, CHR 0xA2] @ ''mera''"
definition str_dash :: string where "str_dash = [CHR 0xE2, CHR 0x80, CHR 0x94]"

definition updateIcon :: "bool \<Rightarrow> TrayIcon \<Rightarrow> TrayIcon" where
  "updateIcon active t = t\<lparr>tray_pixmap := (if active then SP_MediaPlay else SP_ComputerIcon), m_cameraActive := active\<rparr>"

definition showMessage :: "string \<Rightarrow> string \<Rightarrow> nat \<Rightarrow> TrayIcon \<Rightarrow> TrayIcon" where
  "showMessage title msg ms t = t\<lparr>balloons := balloons t @ [(title, msg, ms)]\<rparr>"

text \<open>The constructor with \<^verbatim>\<open>buildMenu\<close>: the flip entry is checked before its signal is connected.\<close>

definition newTrayIcon :: TrayIcon where
  "newTrayIcon = updateIcon False \<lparr>m_cameraActive = False, tray_pixmap = SP_ComputerIcon,
     tray_tooltip = ''Iriseus'', tray_visible = False, start_visible = True, stop_visible = False,
     flip_checked = True, balloons = [], quit_asked = False\<rparr>"

definition tray_show :: "TrayIcon \<Rightarrow> TrayIcon" where
  "tray_show t = t\<lparr>tray_visible := True\<rparr>"

definition tray_onStartCamera :: "TrayIcon \<Rightarrow> TrayIcon" where
  "tray_onStartCamera t =
     showMessage ''Iriseus'' (str_camera @ '' iniciada'') 2000
       (updateIcon True (t\<lparr>start_visible := False, stop_visible := True\<rparr>))"

definition tray_onStopCamera :: "TrayIcon \<Rightarrow> TrayIcon" where
  "tray_onStopCamera t =
     showMessage ''Iriseus'' (str_camera @ '' parada'') 2000
       (updateIcon False (t\<lparr>start_visible := True, stop_visible := False\<rparr>))"

definition onQuit :: "TrayIcon \<Rightarrow> TrayIcon" where
  "onQuit t = t\<lparr>tray_visible := False, quit_asked := True\<rparr>"

definition showNotification :: "string \<Rightarrow> string \<Rightarrow> TrayIcon \<Rightarrow> TrayIcon" where
  "showNotification title msg t = showMessage title msg 3000 t"

definition updateCameraStatus :: "bool \<Rightarrow> TrayIcon \<Rightarrow> TrayIcon" where
  "updateCameraStatus active t =
     (let t1 = (updateIcon active t)\<lparr>start_visible := \<not> active, stop_visible := active,
                 tray_tooltip := (if active then ''Iriseus '' @ str_dash @ '' '' @ str_camera @ '' ativa'' else ''Iriseus'')\<rparr>
      in showMessage ''Iriseus'' (if active then str_camera @ '' ativa'' else str_camera @ '' desconectada'') 2000 t1)"

definition updateStreamMode :: "bool \<Rightarrow> TrayIcon \<Rightarrow> TrayIcon" where
  "updateStreamMode isScreen t =
     (if isScreen then
        showMessage ''Iriseus'' ''Transmitindo tela do celular'' 2000
          (t\<lparr>tray_tooltip := ''Iriseus '' @ str_dash @ '' Transmitindo tela do celular''\<rparr>)
      else
        showMessage ''Iriseus'' (''Transmitindo c'' @ [CHR 0xC3, CHR 0xA2] @ ''mera do celular'') 2000
          (t\<lparr>tray_tooltip := ''Iriseus '' @ str_dash @ '' '' @ str_camera @ '' ativa''\<rparr>))"

text \<open>With the signals of the action blocked, so \<^verbatim>\<open>flipHorizontalToggled\<close> is not emitted.\<close>

definition tray_setFlip :: "bool \<Rightarrow> TrayIcon \<Rightarrow> TrayIcon" where
  "tray_setFlip flip t = (if flip_checked t \<noteq> flip then t\<lparr>flip_checked := flip\<rparr> else t)"

text \<open>The entries of the menu, as \<^verbatim>\<open>buildMenu\<close> connects them.\<close>

datatype tray_click =
    ClickStartCamera | ClickStopCamera | ClickPair | ClickSendFiles | ClickOpenDownloads
  | ClickFlip | ClickQuit

fun tray_clicked :: "tray_click \<Rightarrow> TrayIcon \<Rightarrow> TrayIcon \<times> tray_signal list" where
  "tray_clicked ClickStartCamera t = (tray_onStartCamera t, [])"
| "tray_clicked ClickStopCamera t = (tray_onStopCamera t, [])"
| "tray_clicked ClickPair t = (t, [PairRequested])"
| "tray_clicked ClickSendFiles t = (t, [SendFilesRequested])"
| "tray_clicked ClickOpenDownloads t = (t, [OpenDownloadsRequested])"
| "tray_clicked ClickFlip t =
     (let t1 = t\<lparr>flip_checked := \<not> flip_checked t\<rparr> in (t1, [FlipHorizontalToggled (flip_checked t1)]))"
| "tray_clicked ClickQuit t = (onQuit t, [])"

text \<open>Exactly one of the two camera entries is shown, the one that fits the icon.\<close>

definition tray_inv :: "TrayIcon \<Rightarrow> bool" where
  "tray_inv t \<longleftrightarrow> stop_visible t = m_cameraActive t \<and> start_visible t = (\<not> m_cameraActive t) \<and>
     tray_pixmap t = (if m_cameraActive t then SP_MediaPlay else SP_ComputerIcon)"

named_theorems tray_ops \<open>the operations of the tray icon\<close>

declare updateIcon_def [tray_ops] showMessage_def [tray_ops] newTrayIcon_def [tray_ops] tray_show_def [tray_ops]
  tray_onStartCamera_def [tray_ops] tray_onStopCamera_def [tray_ops] onQuit_def [tray_ops] showNotification_def [tray_ops]
  updateCameraStatus_def [tray_ops] updateStreamMode_def [tray_ops] tray_setFlip_def [tray_ops]

lemma tray_inv_ops [simp]:
  "tray_inv newTrayIcon"
  "tray_inv t \<Longrightarrow> tray_inv (tray_show t)"
  "tray_inv t \<Longrightarrow> tray_inv (showNotification title msg t)"
  "tray_inv t \<Longrightarrow> tray_inv (updateStreamMode b t)"
  "tray_inv t \<Longrightarrow> tray_inv (tray_setFlip b t)"
  "tray_inv (updateCameraStatus b t)"
  "tray_inv t \<Longrightarrow> tray_inv (fst (tray_clicked c t))"
  by (auto simp: tray_inv_def tray_ops Let_def) (cases c; simp add: tray_ops Let_def)+

lemma tray_flip_ops [simp]:
  "flip_checked newTrayIcon"
  "flip_checked (tray_show t) = flip_checked t"
  "flip_checked (showNotification title msg t) = flip_checked t"
  "flip_checked (updateStreamMode b t) = flip_checked t"
  "flip_checked (tray_setFlip b t) = b"
  "flip_checked (updateCameraStatus b t) = flip_checked t"
  by (simp_all add: tray_ops Let_def)

section \<open>The pairing dialog\<close>

definition formatPin :: "string \<Rightarrow> string" where
  "formatPin p = (if length p = 6 then take 3 p @ '' '' @ take 3 (drop 3 p) else p)"

record PairingDialog =
  pin_text :: string
  pin_enabled :: bool
  status_text :: string
  cancel_text :: string
  accept_timer :: "nat option"

definition newPairingDialog :: "PairingOffer \<Rightarrow> PairingDialog" where
  "newPairingDialog offer = \<lparr>pin_text = formatPin (pin offer), pin_enabled = True,
     status_text = ''Aguardando conex'' @ [CHR 0xC3, CHR 0xA3] @ ''o do celular...'',
     cancel_text = ''Cancelar'', accept_timer = None\<rparr>"

definition onPairingComplete :: "string \<Rightarrow> PairingDialog \<Rightarrow> PairingDialog" where
  "onPairingComplete deviceName d = d\<lparr>status_text := [CHR 0xE2, CHR 0x9C, CHR 0x93] @ '' Pareado com '' @ deviceName,
     cancel_text := ''Fechar'', pin_enabled := False, accept_timer := Some 2000\<rparr>"

text \<open>The PIN can be read off what is shown.\<close>

lemma formatPin_readable:
  assumes "list_all is_digit p"
  shows "filter (\<lambda>c. c \<noteq> CHR '' '') (formatPin p) = p"
proof -
  have "\<forall>c \<in> set p. c \<noteq> CHR '' ''" using assms by (auto simp: list_all_iff is_digit_def)
  then have keep: "filter (\<lambda>c. c \<noteq> CHR '' '') p = p" by (simp add: filter_id_conv)
  show ?thesis
  proof (cases "length p = 6")
    case True
    then have "filter (\<lambda>c. c \<noteq> CHR '' '') (formatPin p) = filter (\<lambda>c. c \<noteq> CHR '' '') (take 3 p @ drop 3 p)"
      unfolding filter_append by (simp add: formatPin_def)
    with keep show ?thesis by simp
  next
    case False
    with keep show ?thesis by (simp add: formatPin_def)
  qed
qed

end
