(* ===== verification/Application.thy ===== *)
theory Application
  imports WsServer ManagerProperties VideoPipeline AdbManager TrayIcon
begin

text \<open>
  \<^verbatim>\<open>src/app/Application.{h,cpp}\<close> and \<^verbatim>\<open>src/main.cpp\<close>: the program. It owns the components,
  gives the WebSocket server the callbacks that call them, hands work to the main thread through
  Qt's event queue, and keeps two things in the settings: the paired device and the flip. The
  state is the server's (\<open>WsServer\<close>) with the other components in \<open>app\<close>; a member is \<open>None\<close>
  until \<^verbatim>\<open>init\<close> has made it, and the dereference of a null pointer is the error \<open>NullDeref\<close>.
\<close>

section \<open>State\<close>

record QSettings =
  pairedDeviceId :: "string option"
  pairedDeviceName :: "string option"
  saved_flip :: "bool option"

text \<open>The lambdas that other threads queue for the main thread.\<close>

datatype app_call =
    CallPairingComplete string
  | CallUsbAttached string
  | CallUsbDetached string
  | CallCameraStatus bool
  | CallStreamMode bool
  | CallSetFlip bool
  | CallTransferFinished string string bool string

record ('f, 'w) AppState =
  a_pairing :: "PairingManager option"
  a_dialog :: "PairingDialog option"
  a_adb :: "'w AdbManager option"
  a_stream :: "VideoReceiver option"
  a_files :: "'f FileTransferManager option"
  a_tray :: "TrayIcon option"
  settings :: QSettings
  call_queue :: "app_call list"
  opened_urls :: "string list"
  boot_disk :: 'f

type_synonym ('f, 'w) App = "('f, 'w) AppState WsServer"

definition on_app :: "(('f, 'w) AppState \<Rightarrow> ('f, 'w) AppState) \<Rightarrow> ('f, 'w) App \<Rightarrow> ('f, 'w) App" where
  "on_app g w = w\<lparr>app := g (app w)\<rparr>"

text \<open>\<^verbatim>\<open>QMetaObject::invokeMethod\<close> with \<^verbatim>\<open>Qt::QueuedConnection\<close>.\<close>

definition post :: "app_call \<Rightarrow> ('f, 'w) App \<Rightarrow> ('f, 'w) App" where
  "post c = on_app (\<lambda>a. a\<lparr>call_queue := call_queue a @ [c]\<rparr>)"

definition setting_flip :: "QSettings \<Rightarrow> bool" where
  "setting_flip s = (case saved_flip s of None \<Rightarrow> True | Some b \<Rightarrow> b)"

definition setting_string :: "string option \<Rightarrow> string" where
  "setting_string v = (case v of None \<Rightarrow> [] | Some s \<Rightarrow> s)"

section \<open>The file transfer manager behind the server\<close>

text \<open>
  What the manager hands to \<^verbatim>\<open>WsServer::sendTo\<close> during a call goes to the sessions, and its
  \<^verbatim>\<open>transferFinished\<close> signals, emitted by another thread than the receiver's, are queued.
\<close>

fun finished_calls :: "manager_signal list \<Rightarrow> app_call list" where
  "finished_calls [] = []"
| "finished_calls (TransferFinished tid name ok err # sgs) = CallTransferFinished tid name ok err # finished_calls sgs"
| "finished_calls (TransferProgress tid n tot # sgs) = finished_calls sgs"

definition deliver_files ::
  "'f FileTransferManager \<Rightarrow> 'f FileTransferManager \<Rightarrow> ('f, 'w) App \<Rightarrow> ('f, 'w) App" where
  "deliver_files m m' w =
     fold (\<lambda>(sid, text). ws_sendTo sid text) (drop (length (outbox m)) (outbox m'))
       (on_app (\<lambda>a. a\<lparr>a_files := Some m',
          call_queue := call_queue a @ finished_calls (drop (length (signals m)) (signals m'))\<rparr>) w)"

definition run_files ::
  "('f FileTransferManager \<Rightarrow> exn + 'f FileTransferManager) \<Rightarrow> ('f, 'w) App \<Rightarrow> exn + ('f, 'w) App" where
  "run_files g w =
     (case a_files (app w) of
        None \<Rightarrow> Inr w
      | Some m \<Rightarrow> bindE (g m) (\<lambda>m'. Inr (deliver_files m m' w)))"

section \<open>Flip and pairing\<close>

definition flip_message :: "'j json_api \<Rightarrow> bool \<Rightarrow> string" where
  "flip_message J flip = json_dump J (json_object J [(''type'', json_string J ''flip_status''), (''flip'', json_bool J flip)])"

text \<open>What the tray's flip entry and a phone's \<^verbatim>\<open>set_flip\<close> have in common.\<close>

definition apply_flip :: "'j json_api \<Rightarrow> bool \<Rightarrow> ('f, 'w) App \<Rightarrow> ('f, 'w) App" where
  "apply_flip J flip w =
     ws_broadcast (flip_message J flip)
       (on_app (\<lambda>a. a\<lparr>a_stream := map_option (receiver_setFlip flip) (a_stream a),
                       settings := (settings a)\<lparr>saved_flip := Some flip\<rparr>\<rparr>) w)"

text \<open>The callback that \<^verbatim>\<open>PairingManager\<close> calls with a device it has paired.\<close>

definition on_paired :: "PairedDevice \<Rightarrow> ('f, 'w) App \<Rightarrow> ('f, 'w) App" where
  "on_paired device w =
     post (CallPairingComplete (pd_deviceName device))
       (on_app (\<lambda>a. a\<lparr>settings := (settings a)\<lparr>pairedDeviceId := Some (pd_deviceId device),
                                             pairedDeviceName := Some (pd_deviceName device)\<rparr>\<rparr>) w)"

definition pair_reply :: "'j json_api \<Rightarrow> bool \<Rightarrow> string" where
  "pair_reply J ok = json_dump J (json_object J
     [(''type'', json_string J (if ok then ''pair_accepted'' else ''pair_rejected''))])"

definition on_pair_request ::
  "'j json_api \<Rightarrow> 'h sodium_api \<Rightarrow> u64 \<Rightarrow> 'j \<Rightarrow> ('f, 'w) App \<Rightarrow> exn + ('f, 'w) App" where
  "on_pair_request J S sessionId payload w =
     bindE (value_string J payload ''pin'' []) (\<lambda>p.
     bindE (value_string J payload ''pk'' []) (\<lambda>peerPubB64.
     bindE (value_string J payload ''deviceId'' []) (\<lambda>deviceId.
     bindE (value_string J payload ''deviceName'' []) (\<lambda>deviceName.
       case a_pairing (app w) of
         None \<Rightarrow> Inl NullDeref
       | Some pm \<Rightarrow>
           bindE (handlePairRequest S p peerPubB64 deviceId deviceName pm) (\<lambda>(ok, pm', dev).
             let w1 = on_app (\<lambda>a. a\<lparr>a_pairing := Some pm'\<rparr>) w;
                 w2 = (case dev of None \<Rightarrow> w1 | Some d \<Rightarrow> on_paired d w1)
             in Inr (ws_sendTo sessionId (pair_reply J ok) w2))))))"

section \<open>The callbacks of the WebSocket server\<close>

definition on_device_connected :: "u64 \<Rightarrow> string \<Rightarrow> ('f, 'w) App \<Rightarrow> exn + ('f, 'w) App" where
  "on_device_connected sid name w = run_files (\<lambda>m. Inr (setCurrentSession sid m)) w"

definition on_device_disconnected :: "u64 \<Rightarrow> ('f, 'w) App \<Rightarrow> exn + ('f, 'w) App" where
  "on_device_disconnected sid w =
     run_files (\<lambda>m. Inr (if m_currentSessionId m = sid then setCurrentSession 0 m else m)) w"

definition app_callbacks ::
  "'j json_api \<Rightarrow> 'h sodium_api \<Rightarrow> 'f os_api \<Rightarrow> 'f platform_api \<Rightarrow> ('j, ('f, 'w) AppState) ServerCallbacks" where
  "app_callbacks J S E P = \<lparr>
     onDeviceConnected = Some on_device_connected,
     onDeviceDisconnected = Some on_device_disconnected,
     sc_onStartCamera = Some (\<lambda>sid w. Inr (post (CallStreamMode False) w)),
     sc_onStopCamera = Some (\<lambda>sid w. Inr w),
     sc_onStartScreen = Some (\<lambda>sid w. Inr (post (CallStreamMode True) w)),
     sc_onStopScreen = Some (\<lambda>sid w. Inr (post (CallStreamMode False) w)),
     sc_onSetFlip = Some (\<lambda>sid flip w. Inr (post (CallSetFlip flip) w)),
     sc_onPairRequest = Some (on_pair_request J S),
     sc_onFileOffer = Some (\<lambda>sid payload. run_files (\<lambda>m. Inr (handleFileOffer J S E P sid payload m))),
     sc_onFileAccept = Some (\<lambda>sid payload. run_files (handleFileAccept J S P sid payload)),
     sc_onFileReject = Some (\<lambda>sid payload. run_files (handleFileReject J E sid payload)),
     sc_onFileComplete = Some (\<lambda>sid payload. run_files (handleFileComplete J sid payload)),
     sc_onFileCancel = Some (\<lambda>sid payload. run_files (handleFileCancel J E sid payload)),
     sc_getPcPublicKey = Some (\<lambda>w. case a_pairing (app w) of None \<Rightarrow> []
                                 | Some pm \<Rightarrow> pubKeyB64 (m_currentOffer pm)),
     sc_getFlipHorizontal = Some (\<lambda>w. case a_stream (app w) of None \<Rightarrow> True | Some r \<Rightarrow> receiver_flip r)\<rparr>"

section \<open>The main thread\<close>

text \<open>A member function of the tray, called through its pointer.\<close>

definition on_tray :: "(TrayIcon \<Rightarrow> TrayIcon) \<Rightarrow> ('f, 'w) App \<Rightarrow> exn + ('f, 'w) App" where
  "on_tray g w =
     (case a_tray (app w) of
        None \<Rightarrow> Inl NullDeref
      | Some t \<Rightarrow> Inr (on_app (\<lambda>a. a\<lparr>a_tray := Some (g t)\<rparr>) w))"

definition if_tray :: "(TrayIcon \<Rightarrow> TrayIcon) \<Rightarrow> ('f, 'w) App \<Rightarrow> ('f, 'w) App" where
  "if_tray g = on_app (\<lambda>a. a\<lparr>a_tray := map_option g (a_tray a)\<rparr>)"

text \<open>The bodies of the queued lambdas.\<close>

definition pairing_completed :: "string \<Rightarrow> ('f, 'w) App \<Rightarrow> ('f, 'w) App" where
  "pairing_completed name = on_app (\<lambda>a. a\<lparr>a_dialog := map_option (onPairingComplete name) (a_dialog a)\<rparr>)"

definition usb_attached :: "string \<Rightarrow> ('f, 'w) App \<Rightarrow> exn + ('f, 'w) App" where
  "usb_attached ser w = on_tray (showNotification ''Iriseus'' (''Celular conectado via USB: '' @ ser)) w"

definition camera_status :: "bool \<Rightarrow> ('f, 'w) App \<Rightarrow> exn + ('f, 'w) App" where
  "camera_status active w = on_tray (updateCameraStatus active) w"

definition transfer_finished :: "string \<Rightarrow> bool \<Rightarrow> string \<Rightarrow> ('f, 'w) App \<Rightarrow> exn + ('f, 'w) App" where
  "transfer_finished name ok err w =
     on_tray (showNotification ''Iriseus''
       (if ok then ''Arquivo recebido com sucesso: '' @ name else ''Falha ao receber '' @ name @ '': '' @ err)) w"

definition stream_mode :: "bool \<Rightarrow> ('f, 'w) App \<Rightarrow> ('f, 'w) App" where
  "stream_mode isScreen = if_tray (updateStreamMode isScreen)"

definition set_flip :: "'j json_api \<Rightarrow> bool \<Rightarrow> ('f, 'w) App \<Rightarrow> ('f, 'w) App" where
  "set_flip J flip w = apply_flip J flip (if_tray (tray_setFlip flip) w)"

declare pairing_completed_def [simp] usb_attached_def [simp] camera_status_def [simp]
  transfer_finished_def [simp] stream_mode_def [simp] set_flip_def [simp]

fun run_call :: "'j json_api \<Rightarrow> app_call \<Rightarrow> ('f, 'w) App \<Rightarrow> exn + ('f, 'w) App" where
  "run_call J (CallPairingComplete name) w = Inr (pairing_completed name w)"
| "run_call J (CallUsbAttached ser) w = usb_attached ser w"
| "run_call J (CallUsbDetached ser) w = Inr w"
| "run_call J (CallCameraStatus active) w = camera_status active w"
| "run_call J (CallStreamMode isScreen) w = Inr (stream_mode isScreen w)"
| "run_call J (CallSetFlip flip) w = Inr (set_flip J flip w)"
| "run_call J (CallTransferFinished tid name ok err) w = transfer_finished name ok err w"

text \<open>The event loop takes the oldest call.\<close>

definition run_next :: "'j json_api \<Rightarrow> ('f, 'w) App \<Rightarrow> exn + ('f, 'w) App" where
  "run_next J w =
     (case call_queue (app w) of
        [] \<Rightarrow> Inr w
      | c # cs \<Rightarrow> run_call J c (on_app (\<lambda>a. a\<lparr>call_queue := cs\<rparr>) w))"

text \<open>
  The slots of the tray's signals. The pairing dialog's \<^verbatim>\<open>exec\<close> runs an event loop of its own,
  so it is opened and closed in two steps. \<open>files\<close> is what the file dialog returns.
\<close>

definition open_pairing :: "'h sodium_api \<Rightarrow> string \<Rightarrow> nat \<Rightarrow> ('f, 'w) App \<Rightarrow> exn + ('f, 'w) App" where
  "open_pairing S ip n w =
     (case a_pairing (app w) of
        None \<Rightarrow> Inl NullDeref
      | Some pm \<Rightarrow>
          (case createOffer S ip n pm of
             (offer, pm') \<Rightarrow> Inr (on_app (\<lambda>a. a\<lparr>a_pairing := Some pm', a_dialog := Some (newPairingDialog offer)\<rparr>) w)))"

definition close_pairing :: "('f, 'w) App \<Rightarrow> ('f, 'w) App" where
  "close_pairing = on_app (\<lambda>a. a\<lparr>a_dialog := None\<rparr>)"

definition send_files ::
  "'j json_api \<Rightarrow> 'h sodium_api \<Rightarrow> 'f os_api \<Rightarrow> 'f platform_api \<Rightarrow> string list \<Rightarrow> ('f, 'w) App \<Rightarrow> exn + ('f, 'w) App" where
  "send_files J S E P files w =
     (if files \<noteq> [] then run_files (\<lambda>m. Inr (sendFiles J S E P 0 files m)) w else Inr w)"

definition open_downloads :: "'f platform_api \<Rightarrow> ('f, 'w) App \<Rightarrow> exn + ('f, 'w) App" where
  "open_downloads P w =
     (case a_files (app w) of
        None \<Rightarrow> Inl NullDeref
      | Some m \<Rightarrow> Inr (on_app (\<lambda>a. a\<lparr>opened_urls := opened_urls a @ [defaultDownloadDir P]\<rparr>) w))"

text \<open>A click on the tray's menu; the signals with a dialog behind them are the steps above.\<close>

definition tray_click_step :: "'j json_api \<Rightarrow> tray_click \<Rightarrow> ('f, 'w) App \<Rightarrow> exn + ('f, 'w) App" where
  "tray_click_step J c w =
     (case a_tray (app w) of
        None \<Rightarrow> Inl NullDeref
      | Some t \<Rightarrow>
          (case tray_clicked c t of
             (t', sigs) \<Rightarrow>
               Inr (fold (\<lambda>sg w. case sg of FlipHorizontalToggled flip \<Rightarrow> apply_flip J flip w | _ \<Rightarrow> w) sigs
                 (on_app (\<lambda>a. a\<lparr>a_tray := Some t'\<rparr>) w))))"

text \<open>
  \<^verbatim>\<open>aboutToQuit\<close>. Each \<^verbatim>\<open>stop\<close> of a part that runs joins its thread; \<open>ends\<close> tells which of the
  threads come to their end, and the result is \<open>None\<close> when a join does not return. The thread that
  accepts transfers leaves its \<^verbatim>\<open>accept\<close> when the acceptor is closed, the thread of adb its loop after
  the adb commands it has begun, the WebSocket thread \<^verbatim>\<open>run\<close> after the handler it is in; for those of
  the stream see \<open>receiver_stop\<close>.
\<close>

datatype joined = FilesThread | StreamThreads | AdbThread | ServerThread

definition joins :: "bool \<Rightarrow> bool \<Rightarrow> 'a \<Rightarrow> 'a option" where
  "joins running ends x = (if running \<and> \<not> ends then None else Some x)"

definition about_to_quit :: "'f os_api \<Rightarrow> (joined \<Rightarrow> bool) \<Rightarrow> ('f, 'w) App \<Rightarrow> (exn + ('f, 'w) App) option" where
  "about_to_quit E ends w =
     (case a_files (app w) of
        None \<Rightarrow> Some (Inl NullDeref)
      | Some m \<Rightarrow>
     Option.bind (joins (m_running (m_server m)) (ends FilesThread)
         (on_app (\<lambda>a. a\<lparr>a_files := Some (manager_stop E m)\<rparr>) w)) (\<lambda>w1.
     case a_stream (app w1) of
        None \<Rightarrow> Some (Inl NullDeref)
      | Some r \<Rightarrow>
     Option.bind (receiver_stop (ends StreamThreads) r) (\<lambda>r'.
     let w2 = on_app (\<lambda>a. a\<lparr>a_stream := Some r'\<rparr>) w1 in
     case a_adb (app w2) of
        None \<Rightarrow> Some (Inl NullDeref)
      | Some d \<Rightarrow>
     Option.bind (joins (am_running d) (ends AdbThread) (on_app (\<lambda>a. a\<lparr>a_adb := Some (adb_stop d)\<rparr>) w2)) (\<lambda>w3.
     map_option Inr (joins (ws_running w3) (ends ServerThread) (ws_stop w3))))))"

text \<open>The parts whose threads are joined.\<close>

fun part_runs :: "joined \<Rightarrow> ('f, 'w) App \<Rightarrow> bool" where
  "part_runs FilesThread w = (\<exists>m. a_files (app w) = Some m \<and> m_running (m_server m))"
| "part_runs StreamThreads w = (\<exists>r. a_stream (app w) = Some r \<and> sr_running (rx r))"
| "part_runs AdbThread w = (\<exists>d. a_adb (app w) = Some d \<and> am_running d)"
| "part_runs ServerThread w = ws_running w"

lemma about_to_quit_cases:
  assumes "a_files (app w) = Some m" and "a_stream (app w) = Some r" and "a_adb (app w) = Some d"
  shows "about_to_quit E ends w =
    (if \<exists>j. part_runs j w \<and> \<not> ends j then None
     else Some (Inr (ws_stop (on_app (\<lambda>a. a\<lparr>a_files := Some (manager_stop E m),
       a_stream := receiver_stop (ends StreamThreads) r, a_adb := Some (adb_stop d)\<rparr>) w))))"
proof -
  have "(\<exists>j. part_runs j w \<and> \<not> ends j) \<longleftrightarrow> m_running (m_server m) \<and> \<not> ends FilesThread \<or>
      receiver_stop (ends StreamThreads) r = None \<or> am_running d \<and> \<not> ends AdbThread \<or> ws_running w \<and> \<not> ends ServerThread"
    (is "?left \<longleftrightarrow> ?right")
  proof
    assume ?left
    then obtain j where "part_runs j w" "\<not> ends j" by blast
    with assms show ?right by (cases j) (simp_all add: receiver_stop_returns)
  next
    assume ?right
    with assms show ?left
      by (elim disjE) (auto simp: receiver_stop_returns intro: exI [of _ FilesThread] exI [of _ StreamThreads]
        exI [of _ AdbThread] exI [of _ ServerThread])
  qed
  then show ?thesis
    using assms by (auto simp: about_to_quit_def joins_def on_app_def Let_def split: bind_splits)
qed

lemma about_to_quitE:
  assumes "about_to_quit E ends w = Some (Inr w')"
  obtains m r r' d where "a_files (app w) = Some m" and "a_stream (app w) = Some r" and "a_adb (app w) = Some d"
    and "receiver_stop (ends StreamThreads) r = Some r'"
    and "w' = ws_stop (on_app (\<lambda>a. a\<lparr>a_files := Some (manager_stop E m), a_stream := Some r', a_adb := Some (adb_stop d)\<rparr>) w)"
proof -
  from assms obtain m r d where parts: "a_files (app w) = Some m" "a_stream (app w) = Some r" "a_adb (app w) = Some d"
    by (auto simp: about_to_quit_def joins_def on_app_def Let_def split: option.splits bind_splits if_splits)
  with assms that show thesis
    by (auto simp: about_to_quit_cases [OF parts] receiver_stop_returns split: if_splits)
      (metis option.exhaust part_runs.simps(2) receiver_stop_returns)
qed

section \<open>Start-up\<close>

definition new_app :: "'f \<Rightarrow> QSettings \<Rightarrow> ('f, 'w) App" where
  "new_app f s = newWsServer \<lparr>a_pairing = None, a_dialog = None, a_adb = None, a_stream = None,
     a_files = None, a_tray = None, settings = s, call_queue = [], opened_urls = [], boot_disk = f\<rparr>"

text \<open>
  \<^verbatim>\<open>init\<close> part by part, so that messages can be received in between once the server runs. What
  the machine answers is an argument: whether libsodium comes up, the new key pair and the uninitialised port of the first
  offer, the state of adb, whether FFmpeg has the codec and whether the ports can be bound.
\<close>

definition init_pairing ::
  "'h sodium_api \<Rightarrow> int \<Rightarrow> KeyPair \<Rightarrow> u16 \<Rightarrow> ('f, 'w) App \<Rightarrow> exn + ('f, 'w) App" where
  "init_pairing S rc kp garbage w =
     bindE (newPairingCrypto rc) (\<lambda>_. Inr (on_app (\<lambda>a.
       let pm = newPairingManager S 45678 kp garbage;
           savedId = setting_string (pairedDeviceId (settings a));
           savedName = setting_string (pairedDeviceName (settings a))
       in a\<lparr>a_pairing := Some (if savedId \<noteq> [] then restoreDevice savedId savedName pm else pm)\<rparr>) w))"

definition init_adb :: "'w adb_api \<Rightarrow> 'f qfile_api \<Rightarrow> 'w \<Rightarrow> ('f, 'w) App \<Rightarrow> ('f, 'w) App" where
  "init_adb A Q usb w =
     on_app (\<lambda>a.
       case adb_init A Q (boot_disk a, newAdbManager 45678 45679 45680 usb) of
         (ok, f, d) \<Rightarrow>
           a\<lparr>boot_disk := f, a_adb := Some (adb_start (d\<lparr>has_onAttached := True, has_onDetached := True\<rparr>))\<rparr>) w"

definition init_stream :: "bool \<Rightarrow> bool \<Rightarrow> bool \<Rightarrow> ('f, 'w) App \<Rightarrow> ('f, 'w) App" where
  "init_stream flip codec_ok bound w =
     on_app (\<lambda>a.
       let r = receiver_setFlip flip (newVideoReceiver [] 0 0 30)
       in a\<lparr>a_stream := Some (snd (receiver_start codec_ok bound r))\<rparr>) w"

definition init_files :: "bool \<Rightarrow> ('f, 'w) App \<Rightarrow> ('f, 'w) App" where
  "init_files bound w =
     on_app (\<lambda>a. a\<lparr>a_files := Some (snd (manager_start bound (newFileTransferManager (boot_disk a))))\<rparr>) w"

definition init_tray :: "bool \<Rightarrow> ('f, 'w) App \<Rightarrow> ('f, 'w) App" where
  "init_tray flip w = on_app (\<lambda>a. a\<lparr>a_tray := Some (tray_show (tray_setFlip flip newTrayIcon))\<rparr>) w"

record ('f, 'w) boot_env =
  be_sodium :: int
  be_keys :: KeyPair
  be_garbage :: u16
  be_usb :: 'w
  be_ws_bound :: bool
  be_codec :: bool
  be_stream_bound :: bool
  be_files_bound :: bool

definition app_init ::
  "'h sodium_api \<Rightarrow> 'w adb_api \<Rightarrow> 'f qfile_api \<Rightarrow> ('f, 'w) boot_env \<Rightarrow> ('f, 'w) App \<Rightarrow> exn + bool \<times> ('f, 'w) App" where
  "app_init S A Q b w =
     (case ws_start (be_ws_bound b) w of
        (False, w1) \<Rightarrow> Inr (False, w1)
      | (True, w1) \<Rightarrow>
          bindE (init_pairing S (be_sodium b) (be_keys b) (be_garbage b) w1) (\<lambda>w2.
          let flipHorizontal = setting_flip (settings (app w2));
              w3 = init_adb A Q (be_usb b) w2;
              w4 = init_stream flipHorizontal (be_codec b) (be_stream_bound b) w3;
              w5 = init_files (be_files_bound b) w4
          in Inr (True, init_tray flipHorizontal w5)))"

text \<open>
  \<^verbatim>\<open>main\<close>: a second instance ends at once, with code 0 and without a state; the first one
  goes into the event loop with the state of \<^verbatim>\<open>init\<close>, whatever \<^verbatim>\<open>init\<close> returned. An
  exception that leaves \<^verbatim>\<open>init\<close> ends the program.
\<close>

definition iriseus_main ::
  "'h sodium_api \<Rightarrow> 'w adb_api \<Rightarrow> 'f qfile_api \<Rightarrow> ('f, 'w) boot_env \<Rightarrow> bool \<Rightarrow> 'f \<Rightarrow> QSettings \<Rightarrow> (exn + ('f, 'w) App) option" where
  "iriseus_main S A Q b already_running f s =
     (if already_running then None
      else Some (bindE (app_init S A Q b (new_app f s)) (\<lambda>(ok, w). Inr w)))"

section \<open>The program's steps\<close>

fun adb_calls :: "adb_event list \<Rightarrow> app_call list" where
  "adb_calls [] = []"
| "adb_calls (AttachedCb d # evs) = CallUsbAttached (serial d) # adb_calls evs"
| "adb_calls (DetachedCb ser # evs) = CallUsbDetached ser # adb_calls evs"
| "adb_calls (RanAdb args cmd # evs) = adb_calls evs"

text \<open>A turn of the adb thread, with its callbacks.\<close>

definition adb_turn :: "'w adb_api \<Rightarrow> ('f, 'w) App \<Rightarrow> ('f, 'w) App" where
  "adb_turn A w =
     (case a_adb (app w) of
        None \<Rightarrow> w
      | Some d \<Rightarrow>
          if \<not> am_running d then w
          else on_app (\<lambda>a. a\<lparr>a_adb := Some (monitor_turn A d),
                 call_queue := call_queue a @ adb_calls (drop (length (adb_log d)) (adb_log (monitor_turn A d)))\<rparr>) w)"

definition on_stream :: "(VideoReceiver \<Rightarrow> VideoReceiver) \<Rightarrow> ('f, 'w) App \<Rightarrow> ('f, 'w) App" where
  "on_stream g = on_app (\<lambda>a. a\<lparr>a_stream := map_option g (a_stream a)\<rparr>)"

text \<open>
  The threads of the program, one step at a time: the WebSocket thread, the main thread, the
  threads of the stream and of adb; the threads of the transfers join them in the theory
  \<open>Program\<close>. A handler that throws ends the program, so it has no step.
\<close>

inductive app_step ::
  "'j json_api \<Rightarrow> 'h sodium_api \<Rightarrow> 'f os_api \<Rightarrow> 'f platform_api \<Rightarrow> 'w adb_api \<Rightarrow> (rat \<Rightarrow> rat) \<Rightarrow>
   (VideoDecoder \<Rightarrow> bool) \<Rightarrow> (picture \<Rightarrow> int \<Rightarrow> int \<Rightarrow> pixel list list) \<Rightarrow> (softcam \<Rightarrow> bool) \<Rightarrow>
   ('f, 'w) App \<Rightarrow> ('f, 'w) App \<Rightarrow> bool" for J S E P A rnd getContext scale SC where
  as_accept: "app_step J S E P A rnd getContext scale SC w (ws_accept ec w)"
| as_posted: "app_step J S E P A rnd getContext scale SC w (on_session sid run_posted w)"
| as_written: "app_step J S E P A rnd getContext scale SC w (on_session sid (on_written ec found) w)"
| as_broadcast: "app_step J S E P A rnd getContext scale SC w (ws_run_broadcast w)"
| as_read: "ws_read J (app_callbacks J S E P) sid received w = Inr w' \<Longrightarrow>
    app_step J S E P A rnd getContext scale SC w w'"
| as_call: "run_next J w = Inr w' \<Longrightarrow> app_step J S E P A rnd getContext scale SC w w'"
| as_click: "tray_click_step J c w = Inr w' \<Longrightarrow> app_step J S E P A rnd getContext scale SC w w'"
| as_open_pairing: "n \<le> 999999 \<Longrightarrow> open_pairing S ip n w = Inr w' \<Longrightarrow> app_step J S E P A rnd getContext scale SC w w'"
| as_close_pairing: "app_step J S E P A rnd getContext scale SC w (close_pairing w)"
| as_send: "send_files J S E P paths w = Inr w' \<Longrightarrow> app_step J S E P A rnd getContext scale SC w w'"
| as_downloads: "open_downloads P w = Inr w' \<Longrightarrow> app_step J S E P A rnd getContext scale SC w w'"
| as_net: "receive_turn quiet ss (rx r) = Some (rest, s) \<Longrightarrow> a_stream (app w) = Some r \<Longrightarrow>
    app_step J S E P A rnd getContext scale SC w (on_stream (\<lambda>r. r\<lparr>rx := s\<rparr>) w)"
| as_client: "app_step J S E P A rnd getContext scale SC w (post (CallCameraStatus active) w)"
| as_decode: "a_stream (app w) = Some r \<Longrightarrow> list_all (\<lambda>(e, f). SC e) fs \<Longrightarrow>
    receiver_decode rnd getContext scale fs r = Some r' \<Longrightarrow>
    app_step J S E P A rnd getContext scale SC w (on_stream (\<lambda>_. r') w)"
| as_adb: "app_step J S E P A rnd getContext scale SC w (adb_turn A w)"
| as_quit: "about_to_quit E ends w = Some (Inr w') \<Longrightarrow> app_step J S E P A rnd getContext scale SC w w'"

end
