(* ===== verification/ApplicationSteps.thy ===== *)
theory ApplicationSteps
  imports Application
begin

text \<open>
  What the steps of the program keep. The first section is about the dispatch of a message over
  any callbacks: what all callbacks keep, a message keeps, and what no callback throws, a message
  does not throw. The second applies it to the callbacks of the application.
\<close>

section \<open>Dispatch\<close>

definition keeps1 :: "('s \<Rightarrow> bool) \<Rightarrow> (u64 \<Rightarrow> 's \<Rightarrow> exn + 's) option \<Rightarrow> bool" where
  "keeps1 P f \<longleftrightarrow> (\<forall>g sid s s'. f = Some g \<longrightarrow> P s \<longrightarrow> g sid s = Inr s' \<longrightarrow> P s')"

definition keeps2 :: "('s \<Rightarrow> bool) \<Rightarrow> (u64 \<Rightarrow> 'a \<Rightarrow> 's \<Rightarrow> exn + 's) option \<Rightarrow> bool" where
  "keeps2 P f \<longleftrightarrow> (\<forall>g sid x s s'. f = Some g \<longrightarrow> P s \<longrightarrow> g sid x s = Inr s' \<longrightarrow> P s')"

definition throws1 :: "('s \<Rightarrow> bool) \<Rightarrow> (exn \<Rightarrow> bool) \<Rightarrow> (u64 \<Rightarrow> 's \<Rightarrow> exn + 's) option \<Rightarrow> bool" where
  "throws1 P Q f \<longleftrightarrow> (\<forall>g sid s e. f = Some g \<longrightarrow> P s \<longrightarrow> g sid s = Inl e \<longrightarrow> Q e)"

definition throws2 :: "('s \<Rightarrow> bool) \<Rightarrow> (exn \<Rightarrow> bool) \<Rightarrow> (u64 \<Rightarrow> 'a \<Rightarrow> 's \<Rightarrow> exn + 's) option \<Rightarrow> bool" where
  "throws2 P Q f \<longleftrightarrow> (\<forall>g sid x s e. f = Some g \<longrightarrow> P s \<longrightarrow> g sid x s = Inl e \<longrightarrow> Q e)"

definition callbacks_keep :: "('s \<Rightarrow> bool) \<Rightarrow> ('j, 's) SessionCallbacks \<Rightarrow> bool" where
  "callbacks_keep P cb \<longleftrightarrow> keeps2 P (onHello cb) \<and>
     list_all (keeps1 P) [onStartCamera cb, onStopCamera cb, onStartScreen cb, onStopScreen cb, onDisconnect cb] \<and>
     keeps2 P (onSetFlip cb) \<and>
     list_all (keeps2 P) [onPairRequest cb, onFileOffer cb, onFileAccept cb, onFileReject cb, onFileComplete cb, onFileCancel cb]"

definition callbacks_throw :: "('s \<Rightarrow> bool) \<Rightarrow> (exn \<Rightarrow> bool) \<Rightarrow> ('j, 's) SessionCallbacks \<Rightarrow> bool" where
  "callbacks_throw P Q cb \<longleftrightarrow> throws2 P Q (onHello cb) \<and>
     list_all (throws1 P Q) [onStartCamera cb, onStopCamera cb, onStartScreen cb, onStopScreen cb, onDisconnect cb] \<and>
     throws2 P Q (onSetFlip cb) \<and>
     list_all (throws2 P Q) [onPairRequest cb, onFileOffer cb, onFileAccept cb, onFileReject cb, onFileComplete cb, onFileCancel cb]"

lemma call1_keeps: "keeps1 P f \<Longrightarrow> P s \<Longrightarrow> call1 f sid s = Inr s' \<Longrightarrow> P s'"
  by (auto simp: call1_def keeps1_def split: option.splits)

lemma call2_keeps: "keeps2 P f \<Longrightarrow> P s \<Longrightarrow> call2 f sid x s = Inr s' \<Longrightarrow> P s'"
  by (auto simp: call2_def keeps2_def split: option.splits)

lemma call1_throws: "throws1 P Q f \<Longrightarrow> P s \<Longrightarrow> call1 f sid s = Inl e \<Longrightarrow> Q e"
  by (auto simp: call1_def throws1_def split: option.splits)

lemma call2_throws: "throws2 P Q f \<Longrightarrow> P s \<Longrightarrow> call2 f sid x s = Inl e \<Longrightarrow> Q e"
  by (auto simp: call2_def throws2_def split: option.splits)

text \<open>The library throws nothing but its type error.\<close>

definition json_throw_laws :: "'j json_api \<Rightarrow> bool" where
  "json_throw_laws J \<longleftrightarrow>
     (\<forall>j k d e. value_string J j k d = Inl e \<longrightarrow> e = JsonTypeError) \<and>
     (\<forall>j k d e. value_bool J j k d = Inl e \<longrightarrow> e = JsonTypeError)"

lemma handleMessage_keeps:
  assumes "callbacks_keep P cb" and "handleMessage J cb sid raw s = Inr (s', msgs)" and "P s"
  shows "P s'"
proof -
  note k = assms(1) [unfolded callbacks_keep_def list.pred_inject simp_thms]
  have flip: "P s'" if "onSetFlip cb = Some g" "g sid flip s = Inr s'" for g flip
    using k that assms(3) keeps2_def [of P "onSetFlip cb"] by blast
  show ?thesis
    using assms(2,3) k flip
    by (cases "cm_type (parseMessage J raw)")
      (auto simp: handleMessage_def Let_def bindE_Inr_iff split: option.splits dest: call1_keeps call2_keeps)
qed

lemma handleMessage_throws:
  assumes "callbacks_throw P Q cb" and "json_throw_laws J" and "Q JsonTypeError"
    and "handleMessage J cb sid raw s = Inl e" and "P s"
  shows "Q e"
proof -
  note k = assms(1) [unfolded callbacks_throw_def list.pred_inject simp_thms]
  have flip: "Q e" if "onSetFlip cb = Some g" "g sid flip s = Inl e" for g flip
    using k that assms(5) throws2_def [of P Q "onSetFlip cb"] by blast
  have json: "value_string J j x d = Inl e \<Longrightarrow> Q e" "value_bool J j x b = Inl e \<Longrightarrow> Q e" for j x d b
    using assms(2,3) unfolding json_throw_laws_def by metis+
  show ?thesis
    using assms(4,5) k flip json
    by (cases "cm_type (parseMessage J raw)")
      (auto simp: handleMessage_def Let_def bindE_Inl_iff split: option.splits dest: call1_throws call2_throws)
qed

lemma onRead_keeps:
  "callbacks_keep P cb \<Longrightarrow> onRead J cb sid received s = Inr (s', msgs, again) \<Longrightarrow> P s \<Longrightarrow> P s'"
  by (cases received)
    (auto simp: onRead_def bindE_Inr_iff callbacks_keep_def dest: call1_keeps
      intro: handleMessage_keeps [of P cb, unfolded callbacks_keep_def])

lemma onRead_throws:
  "callbacks_throw P Q cb \<Longrightarrow> json_throw_laws J \<Longrightarrow> Q JsonTypeError \<Longrightarrow>
   onRead J cb sid received s = Inl e \<Longrightarrow> P s \<Longrightarrow> Q e"
  by (cases received)
    (auto simp: onRead_def bindE_Inl_iff callbacks_throw_def dest: call1_throws
      intro: handleMessage_throws [of P Q cb, unfolded callbacks_throw_def])

section \<open>The server around the application\<close>

lemma app_ws_ops [simp]:
  "app (ws_sendTo sid text w) = app w" "app (ws_broadcast text w) = app w"
  "app (ws_run_broadcast w) = app w"
  "app (on_session sid g w) = app w" "app (removeSession sid w) = app w"
  "app (ws_accept ec w) = app w" "app (ws_stop w) = app w"
  by (auto simp: ws_sendTo_def ws_broadcast_def ws_run_broadcast_def on_session_def removeSession_def ws_accept_def ws_stop_def
      split: option.split list.split)

lemma app_on_app [simp]: "app (on_app f w) = f (app w)"
  by (simp add: on_app_def)

lemma app_fold_sendTo [simp]: "app (fold (\<lambda>(sid, text). ws_sendTo sid text) xs w) = app w"
  by (induction xs arbitrary: w) auto

lemma app_fold_sendTo1 [simp]: "app (fold (ws_sendTo sid) xs w) = app w"
  by (induction xs arbitrary: w) auto

definition ws_ok :: "'s WsServer \<Rightarrow> bool" where
  "ws_ok w \<longleftrightarrow> (\<exists>n. ws_server_run (n, w))"

lemma ws_okI: "ws_ok w \<Longrightarrow> (\<And>n. \<exists>n'. ws_server_step (n, w) (n', w')) \<Longrightarrow> ws_ok w'"
  unfolding ws_ok_def by (meson wsr_step)

named_theorems ws_keep \<open>operations that keep the server's run\<close>

lemma ws_ok_ops [ws_keep]:
  assumes "ws_ok w"
  shows "ws_ok (ws_sendTo sid text w)" "ws_ok (ws_broadcast text w)" "ws_ok (ws_run_broadcast w)" "ws_ok (removeSession sid w)"
    "ws_ok (ws_stop w)" "ws_ok (snd (ws_start bound w))" "ws_ok (w\<lparr>app := a\<rparr>)"
    "ws_ok (on_session sid run_posted w)" "ws_ok (on_session sid (on_written ec found) w)"
  by (rule ws_okI [OF assms], blast intro: ws_server_step.intros)+

lemma ws_ok_on_app [ws_keep]: "ws_ok w \<Longrightarrow> ws_ok (on_app f w)"
  unfolding on_app_def by (rule ws_ok_ops)

lemma ws_ok_accept [ws_keep]: "ws_ok w \<Longrightarrow> ws_ok (ws_accept ec w)"
proof (cases "ws_running w \<and> \<not> ec")
  case True
  assume "ws_ok w"
  then show ?thesis by (rule ws_okI) (use True in \<open>auto intro: wss_accept\<close>)
next
  case False
  assume "ws_ok w"
  with False show ?thesis by (auto simp: ws_accept_def)
qed

lemma ws_ok_folds [ws_keep]:
  "ws_ok w \<Longrightarrow> ws_ok (fold (\<lambda>(sid, text). ws_sendTo sid text) xs w)"
  "ws_ok w \<Longrightarrow> ws_ok (fold (ws_sendTo sid) msgs w)"
  by (induction xs arbitrary: w, auto simp: ws_keep) (induction msgs arbitrary: w, auto simp: ws_keep)

section \<open>The components stay in their own runs\<close>

text \<open>
  Every component is there, in a state it can reach by its own steps; and the flip is the same in
  the stream, the tray and the settings.
\<close>

definition parts_ok ::
  "'j json_api \<Rightarrow> 'h sodium_api \<Rightarrow> 'f os_api \<Rightarrow> 'f platform_api \<Rightarrow> (rat \<Rightarrow> rat) \<Rightarrow> (VideoDecoder \<Rightarrow> bool) \<Rightarrow>
   (picture \<Rightarrow> int \<Rightarrow> int \<Rightarrow> pixel list list) \<Rightarrow> (softcam \<Rightarrow> bool) \<Rightarrow> ('f, 'w) AppState \<Rightarrow> bool" where
  "parts_ok J S E P rnd getContext scale SC a \<longleftrightarrow>
     (\<exists>pm. a_pairing a = Some pm \<and> pairing_reachable S pm) \<and>
     (\<exists>m. a_files a = Some m \<and> manager_reachable J S E P m) \<and>
     (\<exists>d. a_adb a = Some d \<and> adb_inv d) \<and>
     (\<exists>r t. a_stream a = Some r \<and> a_tray a = Some t \<and> receiver_reachable rnd getContext scale SC 0 0 r \<and>
        tray_inv t \<and> receiver_flip r = flip_checked t \<and> setting_flip (settings a) = flip_checked t)"

definition app_ok ::
  "'j json_api \<Rightarrow> 'h sodium_api \<Rightarrow> 'f os_api \<Rightarrow> 'f platform_api \<Rightarrow> (rat \<Rightarrow> rat) \<Rightarrow> (VideoDecoder \<Rightarrow> bool) \<Rightarrow>
   (picture \<Rightarrow> int \<Rightarrow> int \<Rightarrow> pixel list list) \<Rightarrow> (softcam \<Rightarrow> bool) \<Rightarrow> ('f, 'w) App \<Rightarrow> bool" where
  "app_ok J S E P rnd getContext scale SC w \<longleftrightarrow> ws_ok w \<and> parts_ok J S E P rnd getContext scale SC (app w)"

lemma setFlip_flip [simp]: "receiver_flip (receiver_setFlip flip r) = flip"
  by (simp add: receiver_flip_def receiver_setFlip_def setFlipHorizontal_def Let_def split: option.split)

lemma decode_flip [simp]: "m_flipHorizontal (decode_pictures rnd getContext scale fs d) = m_flipHorizontal d"
proof (induction fs arbitrary: d)
  case (Cons f fs)
  have "m_flipHorizontal (convertToRgb scale f (new_geometry rnd getContext f d)) = m_flipHorizontal d"
    by (simp add: convertToRgb_def new_geometry_def fit_picture_def fit_width_def fit_height_def Let_def)
  with Cons.IH show ?case by (simp add: decode_pictures_def)
qed (simp add: decode_pictures_def)

lemma show_picture_flip [simp]: "receiver_flip (show_picture rnd getContext scale ef p) = receiver_flip p"
  by (auto simp: show_picture_def receiver_flip_def Let_def split: prod.split option.split)

lemma show_pictures_flip: "receiver_flip (fold (show_picture rnd getContext scale) fs p) = receiver_flip p"
  by (induction fs arbitrary: p) simp_all

lemma receive_turn_flip: "receive_turn quiet ss s = Some (r, s') \<Longrightarrow> sr_flip s' = sr_flip s"
  by (auto simp: receive_turn_def enqueue_nalu_def Let_def split: if_splits option.splits prod.splits frame_result.splits)

lemma decode_turn_flip: "decode_turn s = Some s' \<Longrightarrow> sr_flip s' = sr_flip s"
  by (auto simp: decode_turn_def dequeue_nalu_def split: if_splits option.splits list.splits)

lemma receiver_decode_flip:
  "receiver_decode rnd getContext scale fs p = Some p' \<Longrightarrow> receiver_flip p' = receiver_flip p"
  by (auto simp: receiver_decode_def show_pictures_flip split: if_splits option.splits)
    (auto simp: receiver_flip_def decode_turn_flip split: option.split)

lemma receiver_stop_flip: "receiver_stop ends p = Some p' \<Longrightarrow> receiver_flip p' = receiver_flip p"
  by (auto simp: receiver_stop_def receiver_flip_def stream_stop_def Let_def split: option.splits prod.splits if_splits)

section \<open>What every step of the program keeps\<close>

lemma app_okD: "app_ok J S E P rnd getContext scale SC w \<Longrightarrow> parts_ok J S E P rnd getContext scale SC (app w)"
  by (simp add: app_ok_def)

lemma deliver_ok:
  assumes "app_ok J S E P rnd getContext scale SC w" and "a_files (app w) = Some m" and "manager_step J S E P m m'"
  shows "app_ok J S E P rnd getContext scale SC (deliver_files m m' w)"
proof -
  have "manager_reachable J S E P m'"
    using assms mr_step by (auto simp: app_ok_def parts_ok_def)
  with assms(1) show ?thesis by (simp add: app_ok_def deliver_files_def ws_keep parts_ok_def)
qed

lemma run_files_ok:
  assumes "app_ok J S E P rnd getContext scale SC w" and "\<And>m m'. g m = Inr m' \<Longrightarrow> manager_step J S E P m m'"
    and "run_files g w = Inr w'"
  shows "app_ok J S E P rnd getContext scale SC w'"
  using assms deliver_ok [OF assms(1)]
  by (auto simp: run_files_def bindE_Inr_iff split: option.splits)

lemma run_files_error: "run_files g w = Inl e \<Longrightarrow> \<exists>m. a_files (app w) = Some m \<and> g m = Inl e"
  by (auto simp: run_files_def bindE_Inl_iff split: option.splits)

lemma parts_post [simp]:
  "parts_ok J S E P rnd getContext scale SC (a\<lparr>call_queue := q\<rparr>) = parts_ok J S E P rnd getContext scale SC a"
  "parts_ok J S E P rnd getContext scale SC (a\<lparr>a_dialog := d\<rparr>) = parts_ok J S E P rnd getContext scale SC a"
  "parts_ok J S E P rnd getContext scale SC (a\<lparr>opened_urls := u\<rparr>) = parts_ok J S E P rnd getContext scale SC a"
  by (simp_all add: parts_ok_def)

lemma post_ok: "app_ok J S E P rnd getContext scale SC w \<Longrightarrow> app_ok J S E P rnd getContext scale SC (post c w)"
  by (simp add: app_ok_def post_def ws_keep)

lemma sendTo_ok:
  "app_ok J S E P rnd getContext scale SC w \<Longrightarrow> app_ok J S E P rnd getContext scale SC (ws_sendTo sid text w)"
  by (simp add: app_ok_def ws_keep)

lemma on_paired_ok:
  "app_ok J S E P rnd getContext scale SC w \<Longrightarrow> app_ok J S E P rnd getContext scale SC (on_paired d w)"
  unfolding on_paired_def by (rule post_ok) (simp add: app_ok_def ws_keep parts_ok_def setting_flip_def)

lemma pair_request_ok:
  assumes "app_ok J S E P rnd getContext scale SC w" and "on_pair_request J S sid payload w = Inr w'"
  shows "app_ok J S E P rnd getContext scale SC w'"
proof -
  from assms(2) obtain p pk did dname pm ok pm' dev where pm: "a_pairing (app w) = Some pm"
    and h: "handlePairRequest S p pk did dname pm = Inr (ok, pm', dev)"
    and w': "w' = ws_sendTo sid (pair_reply J ok)
      (case dev of None \<Rightarrow> on_app (\<lambda>a. a\<lparr>a_pairing := Some pm'\<rparr>) w
       | Some d \<Rightarrow> on_paired d (on_app (\<lambda>a. a\<lparr>a_pairing := Some pm'\<rparr>) w))"
    by (auto simp: on_pair_request_def bindE_Inr_iff Let_def split: option.splits)
  have "pairing_reachable S pm" using assms(1) pm by (simp add: app_ok_def parts_ok_def)
  then have "pairing_reachable S pm'" by (rule pairing_reachable.step) (rule request [OF h])
  then have "app_ok J S E P rnd getContext scale SC (on_app (\<lambda>a. a\<lparr>a_pairing := Some pm'\<rparr>) w)"
    using assms(1) by (simp add: app_ok_def ws_keep parts_ok_def)
  then show ?thesis unfolding w' by (auto intro: sendTo_ok on_paired_ok split: option.split)
qed

lemma set_same_session: "setCurrentSession (m_currentSessionId m) m = m"
  by (simp add: setCurrentSession_def)

lemma app_callbacks_keep:
  "callbacks_keep (app_ok J S E P rnd getContext scale SC) (session_callbacks (app_callbacks J S E P))"
proof -
  let ?ok = "app_ok J S E P rnd getContext scale SC"
  have files: "?ok w'" if "?ok w" "run_files (\<lambda>m. Inr (g m)) w = Inr w'" "\<And>m. manager_step J S E P m (g m)" for g w w'
    using run_files_ok [OF that(1) _ that(2)] that(3) by auto
  have connect: "?ok w'" if "?ok w" "on_device_connected sid name w = Inr w'" for sid name w w'
    using files [OF that(1) that(2) [unfolded on_device_connected_def]] ms_session by blast
  have disconnect: "?ok w'" if "?ok w" "on_device_disconnected sid w = Inr w'" for sid w w'
  proof (rule files [OF that(1) that(2) [unfolded on_device_disconnected_def]])
    show "manager_step J S E P m (if m_currentSessionId m = sid then setCurrentSession 0 m else m)" for m
      using ms_session [of J S E P m 0] ms_session [of J S E P m "m_currentSessionId m"]
      by (simp add: set_same_session)
  qed
  have removed: "?ok (removeSession sid w)" if "?ok w" for sid w
    using that by (simp add: app_ok_def ws_keep)
  have offer: "?ok w'" if "?ok w" "run_files (\<lambda>m. Inr (handleFileOffer J S E P sid payload m)) w = Inr w'"
    for sid payload w w'
    by (rule files [OF that]) (rule ms_offer)
  have others: "?ok w'" if "?ok w"
      "run_files (handleFileAccept J S P sid payload) w = Inr w' \<or> run_files (handleFileReject J E sid payload) w = Inr w' \<or>
       run_files (handleFileComplete J sid payload) w = Inr w' \<or> run_files (handleFileCancel J E sid payload) w = Inr w'"
    for sid payload w w'
    using that(2) run_files_ok [OF that(1)] ms_accept ms_reject ms_complete ms_cancel by metis
  show ?thesis
    unfolding callbacks_keep_def keeps1_def keeps2_def session_callbacks_def app_callbacks_def
    by (auto simp: call1_def call2_def intro: post_ok pair_request_ok connect disconnect removed offer others)
qed

lemma handlePairRequest_throws:
  "handlePairRequest S p pk did dname pm = Inl e \<Longrightarrow> e \<noteq> NullDeref"
  by (auto simp: handlePairRequest_def bindE_Inl_iff fromBase64_def deriveShared_def Let_def
      split: if_splits option.splits)

lemma json_errors:
  assumes "json_throw_laws J"
  shows "value_string J j k d \<noteq> Inl NullDeref" and "value_bool J j k b \<noteq> Inl NullDeref"
  using assms unfolding json_throw_laws_def by fastforce+

lemma file_handler_errors:
  assumes "json_throw_laws J"
  shows "handleFileAccept J S P sid payload m = Inl e \<Longrightarrow> e \<noteq> NullDeref"
    and "handleFileReject J E sid payload m = Inl e \<Longrightarrow> e \<noteq> NullDeref"
    and "handleFileComplete J sid payload m = Inl e \<Longrightarrow> e \<noteq> NullDeref"
    and "handleFileCancel J E sid payload m = Inl e \<Longrightarrow> e \<noteq> NullDeref"
  by (auto simp: json_errors [OF assms] handleFileAccept_def handleFileReject_def handleFileComplete_def handleFileCancel_def bindE_Inl_iff)

lemma app_callbacks_throw:
  assumes "json_throw_laws J"
  shows "callbacks_throw (app_ok J S E P rnd getContext scale SC) (\<lambda>e. e \<noteq> NullDeref)
    (session_callbacks (app_callbacks J S E P))"
proof -
  have pair: "e \<noteq> NullDeref"
    if "app_ok J S E P rnd getContext scale SC w" "on_pair_request J S sid payload w = Inl e" for w sid payload e
  proof -
    from that(1) obtain pm where "a_pairing (app w) = Some pm" by (auto simp: app_ok_def parts_ok_def)
    with that(2) show ?thesis
      by (auto simp: on_pair_request_def bindE_Inl_iff Let_def json_errors [OF assms] dest: handlePairRequest_throws)
  qed
  show ?thesis
    unfolding callbacks_throw_def throws1_def throws2_def session_callbacks_def app_callbacks_def
    by (auto simp: call1_def call2_def on_device_connected_def on_device_disconnected_def
        dest: pair run_files_error file_handler_errors [OF assms])
qed

lemma ws_read_ok:
  assumes "app_ok J S E P rnd getContext scale SC w" and "ws_read J (app_callbacks J S E P) sid received w = Inr w'"
  shows "app_ok J S E P rnd getContext scale SC w'"
proof -
  from assms(2) obtain w1 msgs again where
    r: "onRead J (session_callbacks (app_callbacks J S E P)) sid received w = Inr (w1, msgs, again)"
    "w' = fold (ws_sendTo sid) msgs w1" by (auto simp: ws_read_def bindE_Inr_iff)
  have "app_ok J S E P rnd getContext scale SC w1"
    by (rule onRead_keeps [OF app_callbacks_keep r(1) assms(1)])
  then show ?thesis by (simp add: r(2) app_ok_def ws_keep)
qed

lemma ws_read_no_null:
  assumes "json_throw_laws J" and "app_ok J S E P rnd getContext scale SC w"
  shows "ws_read J (app_callbacks J S E P) sid received w \<noteq> Inl NullDeref"
proof
  assume "ws_read J (app_callbacks J S E P) sid received w = Inl NullDeref"
  then have "onRead J (session_callbacks (app_callbacks J S E P)) sid received w = Inl NullDeref"
    by (auto simp: ws_read_def bindE_Inl_iff)
  from onRead_throws [OF app_callbacks_throw [OF assms(1)] assms(1) _ this assms(2)] show False by simp
qed

text \<open>The main thread.\<close>

lemma tray_ok:
  assumes "app_ok J S E P rnd getContext scale SC w" and "a_tray (app w) = Some t"
    and "tray_inv t'" and "flip_checked t' = flip_checked t"
  shows "app_ok J S E P rnd getContext scale SC (on_app (\<lambda>a. a\<lparr>a_tray := Some t'\<rparr>) w)"
  using assms by (auto simp: app_ok_def ws_keep parts_ok_def)

lemma apply_flip_ok:
  assumes "ws_ok w" and "parts_ok J S E P rnd getContext scale SC a" and "a_tray a = Some t" and "tray_inv t'"
    and "flip_checked t' = flip" and "app w = a\<lparr>a_tray := Some t'\<rparr>"
  shows "app_ok J S E P rnd getContext scale SC (apply_flip J flip w)"
proof -
  from assms(2) obtain r where r: "a_stream a = Some r" "receiver_reachable rnd getContext scale SC 0 0 r"
    by (auto simp: parts_ok_def)
  then have "receiver_reachable rnd getContext scale SC 0 0 (receiver_setFlip flip r)"
    by (blast intro: rr_step rc_flip)
  with assms r show ?thesis
    by (auto simp: app_ok_def apply_flip_def ws_keep parts_ok_def setting_flip_def)
qed

lemma run_call_ok:
  assumes "app_ok J S E P rnd getContext scale SC w"
  shows "\<exists>w'. run_call J c w = Inr w' \<and> app_ok J S E P rnd getContext scale SC w'"
proof -
  from assms obtain t where t: "a_tray (app w) = Some t" "tray_inv t" by (auto simp: app_ok_def parts_ok_def)
  have tray: "\<exists>w'. on_tray g w = Inr w' \<and> app_ok J S E P rnd getContext scale SC w'"
    if "tray_inv (g t)" "flip_checked (g t) = flip_checked t" for g
    using tray_ok [OF assms t(1) that] t(1) by (simp add: on_tray_def)
  have if_tray: "if_tray g w = on_app (\<lambda>a. a\<lparr>a_tray := Some (g t)\<rparr>) w" for g
    using t(1) by (simp add: if_tray_def on_app_def)
  show ?thesis
  proof (cases c)
    case (CallPairingComplete name)
    with assms show ?thesis by (simp add: app_ok_def ws_keep)
  next
    case (CallStreamMode b)
    with tray_ok [OF assms t(1), of "updateStreamMode b t"] t(2) show ?thesis by (simp add: if_tray)
  next
    case (CallSetFlip flip)
    with apply_flip_ok [of "if_tray (tray_setFlip flip) w" J S E P rnd getContext scale SC "app w" t "tray_setFlip flip t" flip]
      assms t show ?thesis by (simp add: if_tray app_ok_def ws_keep)
  next
    case (CallUsbAttached ser)
    with tray [of "showNotification ''Iriseus'' (''Celular conectado via USB: '' @ ser)"] t(2) show ?thesis by simp
  next
    case (CallCameraStatus b)
    with tray [of "updateCameraStatus b"] show ?thesis by simp
  next
    case (CallTransferFinished tid name ok err)
    with tray [of "showNotification ''Iriseus'' m" for m] t(2) show ?thesis by simp
  qed (use assms in simp)
qed

lemma run_next_ok:
  assumes "app_ok J S E P rnd getContext scale SC w"
  shows "\<exists>w'. run_next J w = Inr w' \<and> app_ok J S E P rnd getContext scale SC w'"
proof (cases "call_queue (app w)")
  case (Cons c cs)
  with assms run_call_ok [of J S E P rnd getContext scale SC "on_app (\<lambda>a. a\<lparr>call_queue := cs\<rparr>) w" c]
  show ?thesis by (simp add: run_next_def app_ok_def ws_keep)
qed (use assms in \<open>simp add: run_next_def\<close>)

lemma tray_click_ok:
  assumes "app_ok J S E P rnd getContext scale SC w"
  shows "\<exists>w'. tray_click_step J c w = Inr w' \<and> app_ok J S E P rnd getContext scale SC w'"
proof -
  from assms obtain t where t: "a_tray (app w) = Some t" "tray_inv t" by (auto simp: app_ok_def parts_ok_def)
  show ?thesis
  proof (cases "c = ClickFlip")
    case True
    let ?t = "t\<lparr>flip_checked := \<not> flip_checked t\<rparr>"
    have "tray_inv ?t" using t(2) by (simp add: tray_inv_def)
    with True apply_flip_ok [of "on_app (\<lambda>a. a\<lparr>a_tray := Some ?t\<rparr>) w" J S E P rnd getContext scale SC "app w" t ?t]
      assms t show ?thesis by (simp add: tray_click_step_def Let_def app_ok_def ws_keep)
  next
    case False
    have "tray_inv (fst (tray_clicked c t))" using t(2) by simp
    moreover have "flip_checked (fst (tray_clicked c t)) = flip_checked t"
      using False by (cases c) (simp_all add: tray_ops)
    ultimately have "app_ok J S E P rnd getContext scale SC (on_app (\<lambda>a. a\<lparr>a_tray := Some (fst (tray_clicked c t))\<rparr>) w)"
      using tray_ok [OF assms t(1), of "fst (tray_clicked c t)"] by simp
    with False t(1) show ?thesis by (cases c) (simp_all add: tray_click_step_def)
  qed
qed

end
