(* ===== verification/ApplicationProperties.thy ===== *)
theory ApplicationProperties
  imports ApplicationSteps
begin

text \<open>
  The properties of the program as a whole: it comes up in a good state and every step keeps it,
  the flip is the same everywhere, and a pairing goes from the text on the WebSocket to the
  settings and the next start.
\<close>

section \<open>Start-up\<close>

lemma adb_init_inv:
  assumes "adb_init A Q (f, newAdbManager ws stream file usb) = (ok, f', d)"
  shows "adb_inv (adb_start (d\<lparr>has_onAttached := True, has_onDetached := True\<rparr>))"
proof -
  have "m_activeSerials d = [] \<and> (\<forall>x. cb_trace x (adb_log d) = [])"
    using assms
    by (auto simp: adb_init_def startAdbServer_def runAdb_def newAdbManager_def adb_log_add_def Let_def
        split: prod.splits bool.splits)
  then show ?thesis by (simp add: adb_inv_def adb_start_def)
qed

lemma receiver_start_flip:
  "receiver_flip (snd (receiver_start codec_ok bound r)) = (if codec_ok then sr_flip (rx r) else True)"
  by (auto simp: receiver_start_def receiver_flip_def decoder_init_def newVideoDecoder_def Let_def
      destroy_camera_def split: prod.splits option.splits)

lemma sr_flip_setFlip [simp]: "sr_flip (rx (receiver_setFlip flip r)) = flip"
  by (simp add: receiver_setFlip_def setFlipHorizontal_def Let_def split: option.split)

lemmas app_init_defs = app_init_def ws_start_def init_pairing_def newPairingCrypto_def init_adb_def init_stream_def
  init_files_def init_tray_def bindE_Inr_iff

text \<open>
  The one exception that start-up can throw: libsodium does not come up. By then the WebSocket
  server runs.
\<close>

lemma app_init_throws:
  "app_init S A Q b w = Inl e \<longleftrightarrow>
     be_ws_bound b \<and> be_sodium b < 0 \<and> e = RuntimeError ''libsodium init failed''"
  by (auto simp: app_init_defs Let_def)

lemma app_init_ok:
  assumes "app_init S A Q b (new_app f s) = Inr (True, w)" and "be_codec b"
  shows "app_ok J S E P rnd getContext scale SC w"
proof -
  let ?w0 = "snd (ws_start True (new_app f s))"
  from assms(1) have bound: "be_ws_bound b" "\<not> be_sodium b < 0" by (auto simp: app_init_defs split: if_splits)
  have "ws_ok (new_app f s)" unfolding ws_ok_def new_app_def by (blast intro: wsr_new)
  then have ws: "ws_ok ?w0" by (rule ws_ok_ops)
  let ?pm = "newPairingManager S 45678 (be_keys b) (be_garbage b)"
  let ?id = "setting_string (pairedDeviceId s)" and ?name = "setting_string (pairedDeviceName s)"
  have pm: "pairing_reachable S (if ?id \<noteq> [] then restoreDevice ?id ?name ?pm else ?pm)"
    by (auto intro: pairing_reachable.start pairing_reachable.step [OF pairing_reachable.start restore])
  obtain ok f' d where adb: "adb_init A Q (f, newAdbManager 45678 45679 45680 (be_usb b)) = (ok, f', d)"
    by (metis prod_cases3)
  let ?r = "receiver_setFlip (setting_flip s) (newVideoReceiver [] 0 0 30)"
  have r: "receiver_reachable rnd getContext scale SC 0 0 (snd (receiver_start True (be_stream_bound b) ?r))"
  proof (rule rr_step [OF rr_step [OF rr_new rc_flip] rc_start [OF _ surjective_pairing]])
    show "\<not> sr_running (rx ?r)"
      by (simp add: receiver_setFlip_def newVideoReceiver_def newStreamReceiver_def)
  qed
  have m: "manager_reachable J S E P (snd (manager_start (be_files_bound b) (newFileTransferManager f')))"
    by (rule mr_step [OF mr_new ms_start])
  have parts: "parts_ok J S E P rnd getContext scale SC (app w)"
    using assms bound pm adb_init_inv [OF adb] r m
    by (auto simp: app_init_defs new_app_def newWsServer_def on_app_def adb parts_ok_def receiver_start_flip Let_def)
  have "ws_ok w"
    using assms(1) bound ws
    by (auto simp: app_init_defs Let_def intro!: ws_ok_on_app)
  with parts show ?thesis by (simp add: app_ok_def)
qed

section \<open>Every step\<close>

lemma open_pairing_ok:
  assumes "app_ok J S E P rnd getContext scale SC w" and "n \<le> 999999" and "open_pairing S ip n w = Inr w'"
  shows "app_ok J S E P rnd getContext scale SC w'"
proof -
  from assms(3) obtain pm where pm: "a_pairing (app w) = Some pm"
    "w' = on_app (\<lambda>a. a\<lparr>a_pairing := Some (snd (createOffer S ip n pm)),
       a_dialog := Some (newPairingDialog (fst (createOffer S ip n pm)))\<rparr>) w"
    by (auto simp: open_pairing_def split: option.splits prod.splits)
  have "pairing_reachable S pm" using assms(1) pm(1) by (simp add: app_ok_def parts_ok_def)
  then have "pairing_reachable S (snd (createOffer S ip n pm))"
    by (rule pairing_reachable.step) (rule offer [OF assms(2)])
  with assms(1) show ?thesis unfolding pm(2) by (simp add: app_ok_def ws_keep parts_ok_def)
qed

lemma send_files_ok:
  assumes "app_ok J S E P rnd getContext scale SC w" and "send_files J S E P paths w = Inr w'"
  shows "app_ok J S E P rnd getContext scale SC w'"
proof (cases "paths = []")
  case False
  then have "run_files (\<lambda>m. Inr (sendFiles J S E P 0 paths m)) w = Inr w'" using assms(2) by (simp add: send_files_def)
  then show ?thesis by (rule run_files_ok [OF assms(1), rotated]) (use ms_send in auto)
qed (use assms in \<open>simp add: send_files_def\<close>)

lemma stream_ok:
  assumes "app_ok J S E P rnd getContext scale SC w" and "a_stream (app w) = Some r"
    and "receiver_step rnd getContext scale SC r (g r)" and "receiver_flip (g r) = receiver_flip r"
  shows "app_ok J S E P rnd getContext scale SC (on_stream g w)"
proof -
  have "receiver_reachable rnd getContext scale SC 0 0 (g r)"
    using assms(1-3) by (auto simp: app_ok_def parts_ok_def intro: rr_step)
  with assms show ?thesis by (auto simp: app_ok_def on_stream_def ws_keep parts_ok_def)
qed

lemma adb_turn_ok:
  assumes "app_ok J S E P rnd getContext scale SC w"
  shows "app_ok J S E P rnd getContext scale SC (adb_turn A w)"
proof -
  from assms obtain d where d: "a_adb (app w) = Some d" "adb_inv d" by (auto simp: app_ok_def parts_ok_def)
  have "adb_inv (monitor_turn A d)" by (rule monitor_turn_inv [OF d(2)])
  with assms d show ?thesis by (auto simp: adb_turn_def app_ok_def ws_keep parts_ok_def)
qed

lemma quit_ok:
  assumes "app_ok J S E P rnd getContext scale SC w" and "about_to_quit E ends w = Some (Inr w')"
  shows "app_ok J S E P rnd getContext scale SC w'"
proof -
  from assms(2) obtain m r r' d where quit: "a_files (app w) = Some m" "a_stream (app w) = Some r" "a_adb (app w) = Some d"
    "receiver_stop (ends StreamThreads) r = Some r'"
    "w' = ws_stop (on_app (\<lambda>a. a\<lparr>a_files := Some (manager_stop E m), a_stream := Some r', a_adb := Some (adb_stop d)\<rparr>) w)"
    by (rule about_to_quitE)
  with assms(1) have parts: "a_files (app w) = Some m" "manager_reachable J S E P m"
    "a_stream (app w) = Some r" "receiver_reachable rnd getContext scale SC 0 0 r" "a_adb (app w) = Some d" "adb_inv d"
    by (auto simp: app_ok_def parts_ok_def)
  have "manager_reachable J S E P (manager_stop E m)" by (rule mr_step [OF parts(2) ms_stop])
  moreover have "receiver_reachable rnd getContext scale SC 0 0 r'" by (rule rr_step [OF parts(4) rc_stop [OF quit(4)]])
  moreover have "adb_inv (adb_stop d)" using parts(6) by (simp add: adb_inv_def adb_stop_def)
  ultimately show ?thesis
    using assms(1) parts receiver_stop_flip [OF quit(4)] by (auto simp: quit(5) app_ok_def ws_keep parts_ok_def)
qed

lemma app_step_ok:
  assumes "app_step J S E P A rnd getContext scale SC w w'" and "app_ok J S E P rnd getContext scale SC w"
  shows "app_ok J S E P rnd getContext scale SC w'"
  using assms(1)
proof (cases rule: app_step.cases)
  case (as_accept ec)
  with assms(2) show ?thesis by (simp add: app_ok_def ws_keep)
next
  case (as_posted sid)
  with assms(2) show ?thesis by (simp add: app_ok_def ws_keep)
next
  case (as_written sid ec found)
  with assms(2) show ?thesis by (simp add: app_ok_def ws_keep)
next
  case as_broadcast
  with assms(2) show ?thesis by (simp add: app_ok_def ws_keep)
next
  case (as_read sid received)
  with ws_read_ok [OF assms(2)] show ?thesis by blast
next
  case as_call
  with run_next_ok [OF assms(2)] show ?thesis by fastforce
next
  case (as_click c)
  with tray_click_ok [OF assms(2), of c] show ?thesis by fastforce
next
  case (as_open_pairing n ip)
  with open_pairing_ok [OF assms(2)] show ?thesis by blast
next
  case as_close_pairing
  with assms(2) show ?thesis by (simp add: app_ok_def close_pairing_def ws_keep)
next
  case (as_send paths)
  with send_files_ok [OF assms(2)] show ?thesis by blast
next
  case as_downloads
  with assms(2) show ?thesis by (auto simp: open_downloads_def app_ok_def ws_keep split: option.splits)
next
  case (as_net quiet ss r rest s)
  have "receiver_flip (r\<lparr>rx := s\<rparr>) = receiver_flip r"
    using receive_turn_flip [OF as_net(2)] by (simp add: receiver_flip_def split: option.split)
  with stream_ok [OF assms(2) as_net(3), of "\<lambda>r. r\<lparr>rx := s\<rparr>"] rc_net [OF as_net(2)] as_net(1) show ?thesis by simp
next
  case (as_client active)
  with post_ok [OF assms(2)] show ?thesis by simp
next
  case (as_decode r fs r')
  with stream_ok [OF assms(2) as_decode(2), of "\<lambda>_. r'"] rc_decode [OF as_decode(3,4)] receiver_decode_flip [OF as_decode(4)]
  show ?thesis by simp
next
  case as_adb
  with adb_turn_ok [OF assms(2)] show ?thesis by simp
next
  case (as_quit ends)
  with quit_ok [OF assms(2)] show ?thesis by blast
qed

section \<open>Properties\<close>

text \<open>A start on the library models, with the flip saved as off, and a click on the flip entry.\<close>

definition demo_adb_api :: "unit adb_api" where
  "demo_adb_api = \<lparr>localAppData = ''C:'', adb_process = (\<lambda>w cmd. (None, w))\<rparr>"

definition demo_qfile :: "files qfile_api" where
  "demo_qfile = \<lparr>q_mkpath = (\<lambda>f d. f), q_exists = (\<lambda>f p. True), q_copy = (\<lambda>f a b. (True, f)),
     q_setPermissions = (\<lambda>f p. f)\<rparr>"

definition demo_boot :: "(files, unit) boot_env" where
  "demo_boot = \<lparr>be_sodium = 0, be_keys = demo_keys, be_garbage = 0, be_usb = (), be_ws_bound = True, be_codec = True,
     be_stream_bound = True, be_files_bound = True\<rparr>"

definition demo_settings :: QSettings where
  "demo_settings = \<lparr>pairedDeviceId = None, pairedDeviceName = None, saved_flip = Some False\<rparr>"

definition demo_app :: "(files, unit) App" where
  "demo_app = snd (projr (app_init sodium_model demo_adb_api demo_qfile demo_boot (new_app [] demo_settings)))"

lemma json_model_throw_laws: "json_throw_laws json_model"
proof -
  have "jtree_value jtree_string j k d = Inl e \<Longrightarrow> e = JsonTypeError" for j k d e
    by (cases j) (auto split: option.splits elim: jtree_string.elims)
  moreover have "jtree_value jtree_bool j k d = Inl e \<Longrightarrow> e = JsonTypeError" for j k d e
    by (cases j) (auto split: option.splits elim: jtree_bool.elims)
  ultimately show ?thesis by (simp add: json_throw_laws_def)
qed

lemma demo_app_init:
  "app_init sodium_model demo_adb_api demo_qfile demo_boot (new_app [] demo_settings) = Inr (True, demo_app)"
  by (simp add: demo_app_def app_init_defs demo_boot_def Let_def)

section \<open>Pairing from the WebSocket to the next start\<close>

definition pair_request_text :: "'j json_api \<Rightarrow> string \<Rightarrow> string \<Rightarrow> string \<Rightarrow> string \<Rightarrow> string" where
  "pair_request_text J p pk did dname = json_dump J (json_object J
     [(''type'', json_string J ''pair_request''), (''pin'', json_string J p), (''pk'', json_string J pk),
      (''deviceId'', json_string J did), (''deviceName'', json_string J dname)])"

lemma pair_request_dispatch:
  assumes "json_value_laws J" and "json_text_laws J"
  shows "ws_read J (app_callbacks J S E P) sid (Some (pair_request_text J p pk did dname)) w =
    (case a_pairing (app w) of
       None \<Rightarrow> Inl NullDeref
     | Some pm \<Rightarrow> bindE (handlePairRequest S p pk did dname pm) (\<lambda>(ok, pm', dev).
         Inr (ws_sendTo sid (pair_reply J ok)
           (case dev of None \<Rightarrow> on_app (\<lambda>a. a\<lparr>a_pairing := Some pm'\<rparr>) w
            | Some d \<Rightarrow> on_paired d (on_app (\<lambda>a. a\<lparr>a_pairing := Some pm'\<rparr>) w)))))"
proof -
  let ?kvs = "[(''type'', json_string J ''pair_request''), (''pin'', json_string J p), (''pk'', json_string J pk),
      (''deviceId'', json_string J did), (''deviceName'', json_string J dname)]"
  have parse: "json_parse J (pair_request_text J p pk did dname) = Some (json_object J ?kvs)"
    using assms(2) unfolding json_text_laws_def pair_request_text_def by (simp add: json_scalar_def)
  have vals: "value_string J (json_object J ?kvs) ''type'' d = Inr ''pair_request''"
    "value_string J (json_object J ?kvs) ''pin'' d = Inr p" "value_string J (json_object J ?kvs) ''pk'' d = Inr pk"
    "value_string J (json_object J ?kvs) ''deviceId'' d = Inr did"
    "value_string J (json_object J ?kvs) ''deviceName'' d = Inr dname" for d
    by (simp_all add: json_value_string [OF assms(1)])
  have msg: "parseMessage J (pair_request_text J p pk did dname) =
      \<lparr>cm_type = PairRequest, cm_payload = Some (json_object J ?kvs)\<rparr>"
    by (simp add: parseMessage_def parse vals msgTypeFromString_def)
  show ?thesis
    by (simp add: ws_read_def onRead_def handleMessage_def msg Let_def session_callbacks_def app_callbacks_def
        call2_def on_pair_request_def vals bindE_def split: option.split sum.split prod.split)
qed

text \<open>Before \<^verbatim>\<open>init\<close> has made the pairing manager, the server already takes messages.\<close>

lemma early_pair_request_crashes:
  assumes "json_value_laws J" and "json_text_laws J"
  shows "ws_read J (app_callbacks J S E P) sid (Some (pair_request_text J p pk did dname))
    (ws_accept False (snd (ws_start True (new_app f s)))) = Inl NullDeref"
  unfolding pair_request_dispatch [OF assms] by (simp add: new_app_def newWsServer_def ws_start_def)

text \<open>Without the codec the stream reports a flip that is neither the setting nor the tray's.\<close>

lemma flip_lost_without_codec:
  assumes "\<not> be_codec b" and "app_init S A Q b (new_app f (s\<lparr>saved_flip := Some False\<rparr>)) = Inr (True, w)"
  shows "\<exists>r t. a_stream (app w) = Some r \<and> a_tray (app w) = Some t \<and> receiver_flip r \<and> \<not> flip_checked t"
  using assms
  by (auto simp: app_init_defs
      new_app_def newWsServer_def on_app_def setting_flip_def receiver_start_flip Let_def split: if_splits prod.splits)

lemma restart_knows_device:
  assumes "app_init S A Q b (new_app f s) = Inr (True, w)" and "pairedDeviceId s = Some did" and "did \<noteq> []"
    and "pairedDeviceName s = Some dname"
  shows "\<exists>pm. a_pairing (app w) = Some pm \<and>
    getDevice did pm = Some \<lparr>pd_deviceId = did, pd_deviceName = dname, pd_peerPubKey = None, pd_sharedSecret = None\<rparr>"
  using assms
  by (auto simp: app_init_defs
      new_app_def newWsServer_def on_app_def setting_string_def getDevice_def restoreDevice_def Let_def
      split: if_splits prod.splits)

text \<open>
  C12: a pairing reaches the phone, the settings and the next start. When a phone sends a
  \<^verbatim>\<open>pair_request\<close> with the active PIN and a key of 32 bytes that libsodium accepts, its session, and
  no other, gets exactly one \<^verbatim>\<open>pair_accepted\<close>, the device is stored with key and secret, the PIN
  is spent, the settings name the device, and the dialog is told; a program started later on these
  settings knows the device, though without key or secret. With any other PIN the one effect is a
  \<^verbatim>\<open>pair_rejected\<close> to that session.
\<close>

theorem pairing_end_to_end:
  assumes "json_value_laws J" and "json_text_laws J" and "base64_laws S" and "memcmp_laws S"
    and "a_pairing (app w) = Some pm" and "um_find (ws_sessions w) sid = Some ses"
    and "length key = 32" and "deriveShared S (m_activeKeyPair pm) key = Inr secret"
    and "q \<noteq> m_activePin pm" and "did \<noteq> []"
  shows "\<exists>w' pm'. ws_read J (app_callbacks J S E P) sid
        (Some (pair_request_text J (m_activePin pm) (toBase64 S key) did dname)) w = Inr w' \<and>
      (\<forall>k. um_find (ws_sessions w') k =
        (if k = sid then Some (ws_send (pair_reply J True) ses) else um_find (ws_sessions w) k)) \<and>
      a_pairing (app w') = Some pm' \<and> m_activePin pm' = [] \<and>
      getDevice did pm' = Some \<lparr>pd_deviceId = did, pd_deviceName = dname, pd_peerPubKey = Some key,
                                pd_sharedSecret = Some secret\<rparr> \<and>
      call_queue (app w') = call_queue (app w) @ [CallPairingComplete dname] \<and>
      settings (app w') = (settings (app w))\<lparr>pairedDeviceId := Some did, pairedDeviceName := Some dname\<rparr> \<and>
      (\<forall>(S' :: 'x sodium_api) (A :: 'v adb_api) (Q :: 'g qfile_api) b f w2. app_init S' A Q b (new_app f (settings (app w'))) = Inr (True, w2) \<longrightarrow>
        (\<exists>pm2. a_pairing (app w2) = Some pm2 \<and>
           getDevice did pm2 = Some \<lparr>pd_deviceId = did, pd_deviceName = dname, pd_peerPubKey = None,
                                     pd_sharedSecret = None\<rparr>)) \<and>
      ws_read J (app_callbacks J S E P) sid (Some (pair_request_text J q pk did dname)) w =
        Inr (ws_sendTo sid (pair_reply J False) w)"
proof -
  let ?dev = "\<lparr>pd_deviceId = did, pd_deviceName = dname, pd_peerPubKey = Some key, pd_sharedSecret = Some secret\<rparr>"
  let ?pm' = "pm\<lparr>m_devices := um_put did ?dev (m_devices pm), m_activePin := []\<rparr>"
  let ?w' = "ws_sendTo sid (pair_reply J True) (on_paired ?dev (on_app (\<lambda>a. a\<lparr>a_pairing := Some ?pm'\<rparr>) w))"
  have ok: "handlePairRequest S (m_activePin pm) (toBase64 S key) did dname pm = Inr (True, ?pm', Some ?dev)"
    using assms(7,8) by (simp add: handlePairRequest_cases [OF assms(4)] fromBase64_toBase64 [OF assms(3)] Let_def)
  have read: "ws_read J (app_callbacks J S E P) sid
      (Some (pair_request_text J (m_activePin pm) (toBase64 S key) did dname)) w = Inr ?w'"
    unfolding pair_request_dispatch [OF assms(1,2)] by (simp add: assms(5) ok)
  have sessions: "um_find (ws_sessions ?w') k =
      (if k = sid then Some (ws_send (pair_reply J True) ses) else um_find (ws_sessions w) k)" for k
    by (simp add: ws_sendTo_def on_session_find on_paired_def post_def on_app_def assms(6))
  have saved: "settings (app ?w') = (settings (app w))\<lparr>pairedDeviceId := Some did, pairedDeviceName := Some dname\<rparr>"
    by (simp add: on_paired_def post_def)
  have "(app w)\<lparr>a_pairing := Some pm\<rparr> = app w" using assms(5) by (intro AppState.equality) simp_all
  then have same: "on_app (\<lambda>a. a\<lparr>a_pairing := Some pm\<rparr>) w = w"
    by (simp add: on_app_def)
  have refused: "ws_read J (app_callbacks J S E P) sid (Some (pair_request_text J q pk did dname)) w =
      Inr (ws_sendTo sid (pair_reply J False) w)"
    unfolding pair_request_dispatch [OF assms(1,2)]
    using assms(5,9) by (simp add: handlePairRequest_cases [OF assms(4)] same)
  show ?thesis
  proof (rule exI [of _ ?w'], rule exI [of _ ?pm'], intro conjI allI impI read sessions saved refused)
    fix S' :: "'x sodium_api" and A :: "'v adb_api" and Q :: "'g qfile_api" and b f w2
    assume "app_init S' A Q b (new_app f (settings (app ?w'))) = Inr (True, w2)"
    then show "\<exists>pm2. a_pairing (app w2) = Some pm2 \<and>
        getDevice did pm2 = Some \<lparr>pd_deviceId = did, pd_deviceName = dname, pd_peerPubKey = None, pd_sharedSecret = None\<rparr>"
      by (rule restart_knows_device) (simp_all add: on_paired_def post_def assms(10))
  qed (simp_all add: on_paired_def post_def getDevice_def)
qed

theorem pairing_end_to_end_witness:
  "\<exists>(w :: (files, unit) App) w'. ws_read json_model (app_callbacks json_model sodium_model os_model demo_platform) 1
     (Some (pair_request_text json_model (generatePin 42) (toBase64 sodium_model (replicate 32 7)) ''phone'' ''Pixel'')) w
       = Inr w' \<and>
     a_pairing (app w) = Some demo_pm \<and> pairedDeviceId (settings (app w')) = Some ''phone'' \<and>
     posted (the (um_find (ws_sessions w') 1)) = [pair_reply json_model True]"
proof -
  let ?w = "on_app (\<lambda>a. a\<lparr>a_pairing := Some demo_pm\<rparr>) (ws_accept False (demo_app))"
  have running: "ws_running demo_app" "m_nextId demo_app = 1" "ws_sessions demo_app = []"
    by (simp_all add: demo_app_def app_init_defs demo_boot_def new_app_def newWsServer_def on_app_def Let_def)
  have pm: "a_pairing (app ?w) = Some demo_pm" by simp
  have ses: "um_find (ws_sessions ?w) 1 = Some (new_ws_session 1)"
    using running by (simp add: on_app_def ws_accept_def)
  have key: "length (replicate 32 7 :: bytes) = 32" by simp
  have secret: "deriveShared sodium_model (m_activeKeyPair demo_pm) (replicate 32 7) = Inr (replicate 32 3)"
    by (rule demo_deriveShared) simp
  have "length (m_activePin demo_pm) = 6" by (simp add: demo_pm_sels generatePin_digits(1))
  then have other: "''x'' \<noteq> m_activePin demo_pm" "''phone'' \<noteq> []" by (cases "m_activePin demo_pm") auto
  from pairing_end_to_end [OF json_model_value_laws json_model_text_laws sodium_model_base64_laws
      sodium_model_memcmp_laws pm ses key secret other, where E = os_model and P = demo_platform and dname = "''Pixel''" and pk = "[]"
      and 'x = hash_state and 'v = unit and 'g = files]
  show ?thesis
  proof (elim exE conjE, goal_cases)
    case (1 w' pm')
    from 1(2) have "posted (the (um_find (ws_sessions w') 1)) = [pair_reply json_model True]"
      by (simp add: ws_send_def new_ws_session_def)
    moreover have "pairedDeviceId (settings (app w')) = Some ''phone''" unfolding 1(7) by simp
    ultimately show ?case using 1(1) pm unfolding demo_pm_sels by blast
  qed
qed

section \<open>The flip from the phone to the next start\<close>

definition set_flip_text :: "'j json_api \<Rightarrow> bool \<Rightarrow> string" where
  "set_flip_text J flip = json_dump J (json_object J [(''type'', json_string J ''set_flip''), (''flip'', json_bool J flip)])"

lemma set_flip_dispatch:
  assumes "json_value_laws J" and "json_text_laws J"
  shows "ws_read J (app_callbacks J S E P) sid (Some (set_flip_text J flip)) w = Inr (post (CallSetFlip flip) w)"
proof -
  let ?kvs = "[(''type'', json_string J ''set_flip''), (''flip'', json_bool J flip)]"
  have parse: "json_parse J (set_flip_text J flip) = Some (json_object J ?kvs)"
    using assms(2) unfolding json_text_laws_def set_flip_text_def by (simp add: json_scalar_def)
  have vals: "value_string J (json_object J ?kvs) ''type'' d = Inr ''set_flip''"
    "value_bool J (json_object J ?kvs) ''flip'' d' = Inr flip" for d d'
    by (simp_all add: json_value_string [OF assms(1)] json_value_bool [OF assms(1)])
  have msg: "parseMessage J (set_flip_text J flip) = \<lparr>cm_type = SetFlip, cm_payload = Some (json_object J ?kvs)\<rparr>"
    by (simp add: parseMessage_def parse vals msgTypeFromString_def)
  show ?thesis
    by (simp add: ws_read_def onRead_def handleMessage_def msg Let_def session_callbacks_def app_callbacks_def
        call2_def vals bindE_def)
qed

text \<open>When the server's thread has run every posted broadcast, each session has them all, in order.\<close>

lemma run_broadcasts:
  assumes "ws_running w" and "broadcasts w = texts"
  shows "um_find (ws_sessions ((ws_run_broadcast ^^ length texts) w)) k =
    map_option (fold ws_send texts) (um_find (ws_sessions w) k)"
  using assms
proof (induction texts arbitrary: w)
  case (Cons message texts)
  let ?w = "ws_run_broadcast w"
  have "ws_running ?w" "broadcasts ?w = texts"
    "um_find (ws_sessions ?w) k = map_option (ws_send message) (um_find (ws_sessions w) k)"
    using Cons.prems by (simp_all add: ws_run_broadcast_def um_find_map)
  with Cons.IH [of ?w] show ?case
    by (simp add: funpow_Suc_right option.map_comp comp_def del: funpow.simps)
qed (simp add: option.map_id)

lemma receiver_setFlip_flip [simp]: "receiver_flip (receiver_setFlip flip r) = flip"
  by (simp add: receiver_flip_def receiver_setFlip_def setFlipHorizontal_def Let_def split: option.split)

lemma restart_keeps_flip:
  assumes "app_init S A Q b (new_app f s) = Inr (True, w)" and "be_codec b"
  shows "\<exists>r t. a_stream (app w) = Some r \<and> a_tray (app w) = Some t \<and>
    receiver_flip r = setting_flip s \<and> flip_checked t = setting_flip s"
  using assms
  by (auto simp: app_init_defs
      new_app_def newWsServer_def on_app_def receiver_start_flip Let_def split: if_splits prod.splits)

text \<open>
  C13: a flip set on the phone is the flip everywhere. A \<^verbatim>\<open>set_flip\<close> is queued for the main thread
  with no other effect; when the calls queued before it have run, its call mirrors the stream, ticks
  the menu, is written to the settings and posted as a broadcast: the server's thread sends every
  session what was to be broadcast before and then the new flip, once. From then on a new
  session's \<^verbatim>\<open>welcome\<close> tells it, and so do stream and menu after the next start, if the
  decoder finds its codec then (without it the stream's own flip comes up as on). A click on the menu
  entry that turns the flip over does the same.
\<close>

theorem flip_end_to_end:
  assumes "json_value_laws J" and "json_text_laws J"
    and "a_stream (app w) = Some r" and "a_tray (app w) = Some t" and "call_queue (app w) = []"
  shows "\<exists>w1 w2 r2 t2. ws_read J (app_callbacks J S E P) sid (Some (set_flip_text J flip)) w = Inr w1 \<and>
      w1 = on_app (\<lambda>a. a\<lparr>call_queue := [CallSetFlip flip]\<rparr>) w \<and> run_next J w1 = Inr w2 \<and>
      a_stream (app w2) = Some r2 \<and> receiver_flip r2 = flip \<and> a_tray (app w2) = Some t2 \<and> flip_checked t2 = flip \<and>
      settings (app w2) = (settings (app w))\<lparr>saved_flip := Some flip\<rparr> \<and> call_queue (app w2) = [] \<and>
      (ws_running w \<longrightarrow> (\<forall>k. um_find (ws_sessions ((ws_run_broadcast ^^ Suc (length (broadcasts w))) w2)) k =
        map_option (ws_send (flip_message J flip) \<circ> fold ws_send (broadcasts w)) (um_find (ws_sessions w) k))) \<and>
      map_option (\<lambda>g. g w2) (sc_getFlipHorizontal (app_callbacks J S E P)) = Some flip \<and>
      (flip_checked t = (\<not> flip) \<longrightarrow> tray_click_step J ClickFlip w = Inr w2) \<and>
      (\<forall>(S' :: 'x sodium_api) (A :: 'v adb_api) (Q :: 'g qfile_api) b f w3.
        app_init S' A Q b (new_app f (settings (app w2))) = Inr (True, w3) \<longrightarrow> be_codec b \<longrightarrow>
        (\<exists>r3 t3. a_stream (app w3) = Some r3 \<and> a_tray (app w3) = Some t3 \<and> receiver_flip r3 = flip \<and> flip_checked t3 = flip))"
proof -
  let ?w1 = "post (CallSetFlip flip) w"
  let ?w2 = "set_flip J flip (on_app (\<lambda>a. a\<lparr>call_queue := []\<rparr>) ?w1)"
  have w1: "?w1 = on_app (\<lambda>a. a\<lparr>call_queue := [CallSetFlip flip]\<rparr>) w"
    using assms(5) by (simp add: post_def on_app_def)
  have run: "run_next J ?w1 = Inr ?w2"
    unfolding w1 by (simp add: run_next_def on_app_def)
  have sets: "settings (app ?w2) = (settings (app w))\<lparr>saved_flip := Some flip\<rparr>"
    by (simp add: apply_flip_def if_tray_def post_def on_app_def ws_broadcast_def)
  have server: "ws_running ?w2 = ws_running w" "ws_sessions ?w2 = ws_sessions w"
    "broadcasts ?w2 = broadcasts w @ [flip_message J flip]"
    by (simp_all add: apply_flip_def ws_broadcast_def if_tray_def post_def on_app_def)
  have find: "um_find (ws_sessions ((ws_run_broadcast ^^ Suc (length (broadcasts w))) ?w2)) k =
      map_option (ws_send (flip_message J flip) \<circ> fold ws_send (broadcasts w)) (um_find (ws_sessions w) k)"
    if "ws_running w" for k
    using run_broadcasts [OF _ server(3), of k] that
    by (simp add: server(1,2) comp_def del: set_flip_def funpow.simps)
  have parts: "a_stream (app ?w2) = Some (receiver_setFlip flip r)" "a_tray (app ?w2) = Some (tray_setFlip flip t)"
    "call_queue (app ?w2) = []"
    using assms(3,4) by (simp_all add: apply_flip_def if_tray_def post_def on_app_def ws_broadcast_def)
  have click: "tray_click_step J ClickFlip w = Inr ?w2" if "flip_checked t = (\<not> flip)"
    using assms(3-5) that
    by (simp add: tray_click_step_def Let_def apply_flip_def if_tray_def post_def on_app_def ws_broadcast_def tray_setFlip_def)
  have restart: "\<exists>r3 t3. a_stream (app w3) = Some r3 \<and> a_tray (app w3) = Some t3 \<and> receiver_flip r3 = flip \<and> flip_checked t3 = flip"
    if "app_init S' A Q b (new_app f (settings (app ?w2))) = Inr (True, w3)" "be_codec b"
    for S' :: "'x sodium_api" and A :: "'v adb_api" and Q :: "'g qfile_api" and b f w3
    using restart_keeps_flip [OF that] unfolding sets setting_flip_def by simp
  have asked: "map_option (\<lambda>g. g ?w2) (sc_getFlipHorizontal (app_callbacks J S E P)) = Some flip"
    using parts(1) by (simp add: app_callbacks_def del: set_flip_def)
  show ?thesis
    by (rule exI [of _ ?w1], rule exI [of _ ?w2], rule exI [of _ "receiver_setFlip flip r"], rule exI [of _ "tray_setFlip flip t"],
        intro conjI allI impI)
      (rule set_flip_dispatch [OF assms(1,2)] w1 run parts sets find asked click restart receiver_setFlip_flip tray_flip_ops |
       assumption)+
qed

theorem flip_end_to_end_witness:
  "\<exists>(w :: (files, unit) App) w1 w2. ws_sessions w \<noteq> [] \<and>
     ws_read json_model (app_callbacks json_model sodium_model os_model demo_platform) 1
       (Some (set_flip_text json_model True)) w = Inr w1 \<and>
     run_next json_model w1 = Inr w2 \<and> saved_flip (settings (app w)) = Some False \<and>
     saved_flip (settings (app w2)) = Some True \<and>
     posted (the (um_find (ws_sessions (ws_run_broadcast w2)) 1)) = [flip_message json_model True]"
proof -
  let ?w = "ws_accept False demo_app"
  have running: "ws_running demo_app" "broadcasts demo_app = []" "m_nextId demo_app = 1" "ws_sessions demo_app = []" "call_queue (app demo_app) = []"
    "saved_flip (settings (app demo_app)) = Some False"
    by (simp_all add: demo_app_def app_init_defs demo_boot_def new_app_def newWsServer_def on_app_def demo_settings_def Let_def split: prod.split)
  have ses: "um_find (ws_sessions ?w) 1 = Some (new_ws_session 1)" and same: "app ?w = app demo_app"
    using running by (simp_all add: ws_accept_def)
  obtain r t where parts: "a_stream (app ?w) = Some r" "a_tray (app ?w) = Some t"
    unfolding same using demo_app_init
    by (auto simp: demo_app_def app_init_defs demo_boot_def
        on_app_def Let_def)
  have idle: "call_queue (app ?w) = []" unfolding same by (rule running(5))
  from flip_end_to_end [OF json_model_value_laws json_model_text_laws parts idle, where S = sodium_model and E = os_model
      and P = demo_platform and sid = 1 and flip = True and 'x = hash_state and 'v = unit and 'g = files]
  show ?thesis
  proof (elim exE conjE, goal_cases)
    case (1 w1 w2 r2 t2)
    have "ws_running ?w" "broadcasts ?w = []" using running by (simp_all add: ws_accept_def)
    with 1(10) ses have "posted (the (um_find (ws_sessions (ws_run_broadcast w2)) 1)) = [flip_message json_model True]"
      by (simp add: ws_send_def new_ws_session_def)
    moreover have "saved_flip (settings (app w2)) = Some True" using 1(8) by simp
    moreover have "ws_sessions ?w \<noteq> []" using ses by auto
    ultimately show ?case using 1(1,3) running(6) unfolding same [symmetric] by blast
  qed
qed

end
