(* ===== verification/ApplicationTransfers.thy ===== *)
theory ApplicationTransfers
  imports ApplicationProperties
begin

text \<open>
  A file from the phone through the whole program: the offer as a text on the WebSocket, the
  answers to the phone's session, the connection to the transfer port, and what the user is told.
\<close>

section \<open>The transfer manager behind the server\<close>

lemma finished_calls_append [simp]: "finished_calls (xs @ ys) = finished_calls xs @ finished_calls ys"
  by (induction xs rule: finished_calls.induct) simp_all

lemma finished_calls_progress: "list_all is_progress_signal sgs \<Longrightarrow> finished_calls sgs = []"
  by (induction sgs rule: finished_calls.induct) simp_all

lemma sendTo_app [simp]: "app (ws_sendTo sid message w) = app w"
  by (simp add: ws_sendTo_def on_session_def split: option.split)

lemma fold_sendTo_app [simp]: "app (fold (\<lambda>(sid, text). ws_sendTo sid text) msgs w) = app w"
  by (induction msgs arbitrary: w) (auto simp: case_prod_beta)

lemma deliver_files_app:
  assumes "outbox m' = outbox m @ msgs" and "signals m' = signals m @ sgs"
  shows "app (deliver_files m m' w) =
    (app w)\<lparr>a_files := Some m', call_queue := call_queue (app w) @ finished_calls sgs\<rparr>"
  using assms by (simp add: deliver_files_def on_app_def)

text \<open>What is sent to one session arrives there in order, and nowhere else.\<close>

lemma fold_sendTo_find:
  "um_find (ws_sessions (fold (\<lambda>(k, text). ws_sendTo k text) (map (Pair sid) msgs) w)) k =
     (if k = sid then map_option (\<lambda>s. s\<lparr>posted := posted s @ msgs\<rparr>) (um_find (ws_sessions w) sid)
      else um_find (ws_sessions w) k)"
proof (induction msgs arbitrary: w)
  case Nil
  then show ?case by (cases "um_find (ws_sessions w) sid") simp_all
next
  case (Cons msg msgs)
  then show ?case
    by (cases "um_find (ws_sessions w) sid") (auto simp: ws_sendTo_def on_session_find ws_send_def)
qed

lemma deliver_files_find:
  assumes "outbox m' = outbox m @ map (Pair sid) msgs"
  shows "um_find (ws_sessions (deliver_files m m' w)) k =
     (if k = sid then map_option (\<lambda>s. s\<lparr>posted := posted s @ msgs\<rparr>) (um_find (ws_sessions w) sid)
      else um_find (ws_sessions w) k)"
  using assms by (simp add: deliver_files_def fold_sendTo_find) (simp add: on_app_def)

lemma offer_dispatch:
  assumes "json_value_laws J" and "json_text_laws J"
  shows "ws_read J (app_callbacks J S E P) sid (Some (json_dump J (to_json J offer))) w =
    run_files (\<lambda>m. Inr (handleFileOffer J S E P sid (to_json J offer) m)) w"
  by (simp add: ws_read_def onRead_def handleMessage_def parse_offer [OF assms] Let_def session_callbacks_def
      app_callbacks_def call2_def bindE_def split: sum.split)

text \<open>What the offer leads to at once: the two answers on the phone's session.\<close>

lemma offer_answered:
  assumes "json_value_laws J" and "json_text_laws J" and "a_files (app w) = Some m" and "call_queue (app w) = []"
    and "um_find (ws_sessions w) sid = Some ses" and "tid = fo_transferId offer" and "tok = token_bytes P (m_rng m)"
    and "m1 = handleFileOffer J S E P sid (to_json J offer) m"
  shows "ws_read J (app_callbacks J S E P) sid (Some (json_dump J (to_json J offer))) w = Inr (deliver_files m m1 w)"
    and "app (deliver_files m m1 w) = (app w)\<lparr>a_files := Some m1, call_queue := []\<rparr>"
    and "um_find (ws_sessions (deliver_files m m1 w)) k = (if k = sid
      then Some (ses\<lparr>posted := posted ses @ [accept_message J tid, ready_message J tid (toBase64 S tok)]\<rparr>)
      else um_find (ws_sessions w) k)"
proof -
  note off = handleFileOffer_sels [OF from_json_to_json [OF assms(1), of offer], of S E P sid m,
    folded assms(6,7,8)]
  show "ws_read J (app_callbacks J S E P) sid (Some (json_dump J (to_json J offer))) w = Inr (deliver_files m m1 w)"
    unfolding offer_dispatch [OF assms(1,2)] by (simp add: run_files_def assms(3) bindE_def assms(8))
  show "app (deliver_files m m1 w) = (app w)\<lparr>a_files := Some m1, call_queue := []\<rparr>"
    using off(3,4) by (subst deliver_files_app [where sgs = "[]"]) (simp_all add: assms(4))
  show "um_find (ws_sessions (deliver_files m m1 w)) k = (if k = sid
      then Some (ses\<lparr>posted := posted ses @ [accept_message J tid, ready_message J tid (toBase64 S tok)]\<rparr>)
      else um_find (ws_sessions w) k)"
    using off(3) assms(5)
    by (subst deliver_files_find [of m1 m sid "[accept_message J tid, ready_message J tid (toBase64 S tok)]"])
      simp_all
qed

section \<open>Properties\<close>

text \<open>
  C1: an offered file arrives, end to end. When the phone sends a \<^verbatim>\<open>file_offer\<close> on its session, it
  gets \<^verbatim>\<open>file_accept\<close> and \<^verbatim>\<open>file_ready\<close> with a token there, and nobody else gets anything; a
  connection to the transfer port with that token and the announced content stores the file in the
  download folder under a free name; then the same session gets exactly one \<^verbatim>\<open>file_complete\<close>, and the
  next call of the main thread shows the user the notification with the file's name. The name is one
  that the stream and Qt read alike.
\<close>

theorem offer_end_to_end:
  assumes "path_laws E" and "fs_laws E V" and "fs_reliable E V" and "sha256_laws S"
    and "json_value_laws J" and "json_text_laws J"
    and "a_files (app w) = Some m" and "manager_inv m" and "m_running (m_server m)"
    and "a_tray (app w) = Some t" and "call_queue (app w) = []"
    and "um_find (ws_sessions w) sid = Some ses" and "sid \<noteq> 0"
    and "fo_transferId offer = uuid_string uid" and "length uid = 16"
    and "chunks_ok cs" and "length (concat cs) = unat (fo_size offer)"
    and "fo_sha256 offer = [] \<or> hexString (sha256 S (concat cs)) = fo_sha256 offer"
    and "target = upload_path E P offer" and "plain_target E target" and "no_directory_at E V target"
    and "stream_named E (target @ ''.part'')" and "tok = token_bytes P (m_rng m)"
    and "avail (incoming c) = handshake uid tok 0 @ stream_of cs @ tail"
  shows "\<exists>w1 m1 c' m2 w3 p.
    ws_read J (app_callbacks J S E P) sid (Some (json_dump J (to_json J offer))) w = Inr w1 \<and>
    a_files (app w1) = Some m1 \<and> manager_connection J S E c m1 = Some (c', m2) \<and>
    run_next J (deliver_files m1 m2 w1) = Inr w3 \<and>
    first_free E (V (disk (m_server m))) (target @ ''.part'') target p \<and>
    a_files (app w3) = Some m2 \<and>
    V (disk (m_server m2)) = (V (disk (m_server m)))(target @ ''.part'' := None, p := Some (concat cs)) \<and>
    a_tray (app w3) = Some (showNotification ''Iriseus'' (''Arquivo recebido com sucesso: '' @ fo_name offer) t) \<and>
    (\<forall>k. um_find (ws_sessions w3) k = (if k = sid
       then Some (ses\<lparr>posted := posted ses @ [accept_message J (uuid_string uid),
         ready_message J (uuid_string uid) (toBase64 S tok),
         json_dump J (json_object J [(''type'', json_string J ''file_complete''),
           (''transferId'', json_string J (uuid_string uid)), (''ok'', json_bool J True)])]\<rparr>)
       else um_find (ws_sessions w) k))"
proof -
  let ?tid = "uuid_string uid"
  let ?done = "json_dump J (json_object J [(''type'', json_string J ''file_complete''),
    (''transferId'', json_string J ?tid), (''ok'', json_bool J True)])"
  note offer = from_json_to_json [OF assms(5), of offer]
  define m1 where "m1 = handleFileOffer J S E P sid (to_json J offer) m"
  define w1 where "w1 = deliver_files m m1 w"
  note answered = offer_answered [OF assms(5,6,7,11,12) assms(14) [symmetric] assms(23) m1_def, folded w1_def]
  note read = answered(1) and app1 = answered(2)
  obtain c' m2 p sgs where conn: "manager_connection J S E c m1 = Some (c', m2)"
    and p: "first_free E (V (disk (m_server m))) (target @ ''.part'') target p"
    and disk: "V (disk (m_server m2)) = (V (disk (m_server m)))(target @ ''.part'' := None, p := Some (concat cs))"
    and out: "outbox m2 = outbox m1 @ [(sid, ?done)]"
    and sgs: "list_all is_progress_signal sgs"
      "signals m2 = signals m1 @ sgs @ [TransferFinished ?tid (fo_name offer) True []]"
    using offered_file_stored [OF assms(1-4,8,9) offer assms(14,15,13,16-22) m1_def, of c tail] assms(23,24) by blast
  define w2 where "w2 = deliver_files m1 m2 w1"
  have app2: "app w2 = (app w)\<lparr>a_files := Some m2, call_queue := [CallTransferFinished ?tid (fo_name offer) True []]\<rparr>"
    unfolding w2_def deliver_files_app [OF out sgs(2)] app1 by (simp add: finished_calls_progress [OF sgs(1)])
  define w3 where "w3 = on_app (\<lambda>a. a\<lparr>a_tray := Some (showNotification ''Iriseus''
     (''Arquivo recebido com sucesso: '' @ fo_name offer) t)\<rparr>) (on_app (\<lambda>a. a\<lparr>call_queue := []\<rparr>) w2)"
  have run: "run_next J w2 = Inr w3"
    using assms(10) by (simp add: run_next_def app2 on_tray_def w3_def)
  have "ws_sessions w3 = ws_sessions w2" by (simp add: w3_def on_app_def)
  then have sessions: "um_find (ws_sessions w3) k = (if k = sid
      then Some (ses\<lparr>posted := posted ses @ [accept_message J ?tid, ready_message J ?tid (toBase64 S tok), ?done]\<rparr>)
      else um_find (ws_sessions w) k)" for k
    using out by (simp add: w2_def deliver_files_find [of m2 m1 sid "[?done]"] answered(3))
  have tray: "a_files (app w3) = Some m2"
    "a_tray (app w3) = Some (showNotification ''Iriseus'' (''Arquivo recebido com sucesso: '' @ fo_name offer) t)"
    by (simp_all add: w3_def on_app_def app2)
  have files1: "a_files (app w1) = Some m1" by (simp add: app1)
  show ?thesis
    by (intro exI [of _ w1] exI [of _ m1] exI [of _ c'] exI [of _ m2] exI [of _ w3] exI [of _ p] conjI allI
        read files1 conn run [unfolded w2_def] p disk tray sessions)
qed

theorem offer_end_to_end_witness:
  "\<exists>(w :: (files, unit) App) w1 m1 c' m2 w3 p.
     ws_read json_model (app_callbacks json_model sodium_model os_model demo_platform) 1
       (Some (json_dump json_model (to_json json_model demo_offer))) w = Inr w1 \<and>
     a_files (app w1) = Some m1 \<and>
     manager_connection json_model sodium_model os_model
       \<lparr>incoming = [handshake demo_uid (token_bytes demo_platform 0) 0 @ stream_of demo_chunks], silent = False, sent = [], room = 0\<rparr>
       m1 = Some (c', m2) \<and>
     run_next json_model (deliver_files m1 m2 w1) = Inr w3 \<and>
     um_find (disk (m_server m2)) p = Some [1, 2, 3, 4, 5] \<and>
     length (posted (the (um_find (ws_sessions w3) 1))) = 3"
proof -
  let ?w = "on_app (\<lambda>a. a\<lparr>a_files := Some demo_manager, a_tray := Some newTrayIcon\<rparr>)
    (ws_accept False demo_app)"
  let ?c = "\<lparr>incoming = [handshake demo_uid (token_bytes demo_platform 0) 0 @ stream_of demo_chunks], silent = False, sent = [], room = 0\<rparr>"
  have running: "ws_running demo_app" "m_nextId demo_app = 1" "ws_sessions demo_app = []" "call_queue (app demo_app) = []"
    by (simp_all add: demo_app_def app_init_defs demo_boot_def new_app_def newWsServer_def on_app_def Let_def split: prod.split)
  have state: "a_files (app ?w) = Some demo_manager" "a_tray (app ?w) = Some newTrayIcon" "call_queue (app ?w) = []"
    "um_find (ws_sessions ?w) 1 = Some (new_ws_session 1)"
    using running by (simp_all add: on_app_def ws_accept_def)
  have path: "''D/Iriseus/b.txt'' = upload_path os_model demo_platform demo_offer"
    by (rule demo_upload_path [symmetric])
  have plain: "plain_target os_model ''D/Iriseus/b.txt''"
    by (simp add: plain_target_def plain_name_def before_last_dot_def after_last_dot_def last_part_def)
  have avail: "avail (incoming ?c) = handshake demo_uid (token_bytes demo_platform 0) 0 @ stream_of demo_chunks @ []"
    by (simp add: handshake_def demo_uid_def)
  have tok: "token_bytes demo_platform 0 = token_bytes demo_platform (m_rng demo_manager)" by simp
  have size: "length (concat demo_chunks) = unat (fo_size demo_offer)" by (simp add: demo_chunks_ok(2))
  have hash: "fo_sha256 demo_offer = [] \<or> hexString (sha256 sodium_model (concat demo_chunks)) = fo_sha256 demo_offer"
    by (simp add: demo_chunks_ok(2))
  from offer_end_to_end [OF os_model_path_laws os_model_fs_laws os_model_fs_reliable sodium_model_sha256_laws
      json_model_value_laws json_model_text_laws state(1) demo_manager_inv demo_manager_sels(1) state(2-4) one_neq_zero
      demo_offer_sels(1) demo_lengths(1) demo_chunks_ok(1) size hash path plain os_model_no_directory
      os_model_stream_named tok avail]
  show ?thesis
  proof (elim exE conjE, goal_cases)
    case (1 w1 m1 c' m2 w3 p)
    from 1(7) have "um_find (disk (m_server m2)) p = Some [1, 2, 3, 4, 5]" by (simp add: demo_chunks_ok(2))
    moreover have "length (posted (the (um_find (ws_sessions w3) 1))) = 3"
      using 1(9) by (simp add: new_ws_session_def)
    ultimately show ?case using 1(1-4) by blast
  qed
qed

end
