(* ===== verification/TransferThreads.thy ===== *)
theory TransferThreads
  imports TransferUpload TransferTable
begin

text \<open>
  The transfer server with all its threads: \<^verbatim>\<open>acceptLoop\<close> starts one detached thread per
  connection, and the owner registers, makes folders, cancels and stops while they run. The steps of the
  threads and of the owner interleave in any order; a step is what the code does between two
  visits of the shared state. Shown: what every interleaving keeps, and that an upload which
  has its temporary file to itself is not disturbed by anything else that goes on.
\<close>

section \<open>The pool\<close>

record ('h, 'f) pool =
  threads :: "'h thread list"
  server :: "'f FileTransferServer"

datatype pool_move =
    Accepted connection
  | Turn nat
  | Registered string string bytes string u64 string transfer_direction
  | MakesPath string
  | Cancels string
  | Stops

definition acceptLoop :: "connection \<Rightarrow> ('h, 'f) pool \<Rightarrow> ('h, 'f) pool option" where
  "acceptLoop c p =
     (if m_running (server p)
      then Some (p\<lparr>threads := threads p @ [\<lparr>th_phase = Handshaking, th_conn = c\<rparr>]\<rparr>) else None)"

definition thread_turn ::
  "'h sodium_api \<Rightarrow> 'f os_api \<Rightarrow> nat \<Rightarrow> ('h, 'f) pool \<Rightarrow> ('h, 'f) pool option" where
  "thread_turn S E i p =
     (if i < length (threads p) then
        map_option (\<lambda>(ph, c, sv). \<lparr>threads = (threads p)[i := \<lparr>th_phase = ph, th_conn = c\<rparr>], server = sv\<rparr>)
          (conn_step S E (th_phase (threads p ! i)) (th_conn (threads p ! i)) (server p))
      else None)"

fun pool_step ::
  "'h sodium_api \<Rightarrow> 'f os_api \<Rightarrow> pool_move \<Rightarrow> ('h, 'f) pool \<Rightarrow> ('h, 'f) pool option" where
  "pool_step S E (Accepted c) p = acceptLoop c p"
| "pool_step S E (Turn i) p = thread_turn S E i p"
| "pool_step S E (Registered k b64 tok path n h d) p =
     Some (p\<lparr>server := registerTransfer k b64 tok path n h d (server p)\<rparr>)"
| "pool_step S E (MakesPath d) p = Some (p\<lparr>server := (server p)\<lparr>disk := fs_mkpath E (disk (server p)) d\<rparr>\<rparr>)"
| "pool_step S E (Cancels k) p = Some (p\<lparr>server := cancelTransfer E k (server p)\<rparr>)"
| "pool_step S E Stops p = Some (p\<lparr>server := server_stop E (server p)\<rparr>)"

fun pool_run ::
  "'h sodium_api \<Rightarrow> 'f os_api \<Rightarrow> pool_move list \<Rightarrow> ('h, 'f) pool \<Rightarrow> ('h, 'f) pool option" where
  "pool_run S E [] p = Some p"
| "pool_run S E (m # ms) p = Option.bind (pool_step S E m p) (pool_run S E ms)"

lemma thread_turnE:
  assumes "thread_turn S E i p = Some p'"
  obtains ph c where "i < length (threads p)"
    and "conn_step S E (th_phase (threads p ! i)) (th_conn (threads p ! i)) (server p) = Some (ph, c, server p')"
    and "threads p' = (threads p)[i := \<lparr>th_phase = ph, th_conn = c\<rparr>]"
  using assms by (auto simp: thread_turn_def split: if_splits)

section \<open>The store only grows\<close>

text \<open>
  What is never undone: sessions stay at their address with the same id, token, paths and
  size, and a cancelled session stays cancelled.
\<close>

definition registered_as :: "ActiveTransferSession \<Rightarrow> ActiveTransferSession" where
  "registered_as s = static (s\<lparr>cancelled := False\<rparr>)"

lemma registered_as_simps [simp]:
  "registered_as (s\<lparr>cancelled := b\<rparr>) = registered_as s"
  "registered_as (s\<lparr>bytesTransferred := n\<rparr>) = registered_as s"
  by (simp_all add: registered_as_def static_def)

lemma registered_as_fields:
  assumes "registered_as a = registered_as b"
  shows "transferId a = transferId b" "tokenBytes a = tokenBytes b"
    "targetFilePath a = targetFilePath b" "tempFilePath a = tempFilePath b"
    "expectedSize a = expectedSize b" "expectedSha256 a = expectedSha256 b"
  using assms unfolding registered_as_def static_def by (cases a; cases b; simp)+

lemma registered_as_static: "static a = static b \<Longrightarrow> registered_as a = registered_as b"
  unfolding registered_as_def static_def by (cases a; cases b; simp)

definition grows :: "'f FileTransferServer \<Rightarrow> 'f FileTransferServer \<Rightarrow> bool" where
  "grows sv sv' \<longleftrightarrow> length (m_store sv) \<le> length (m_store sv') \<and>
     (\<forall>r < length (m_store sv). registered_as (session_at sv' r) = registered_as (session_at sv r) \<and>
        (cancelled (session_at sv r) \<longrightarrow> cancelled (session_at sv' r)))"

lemma grows_refl [simp]: "grows sv sv"
  by (simp add: grows_def)

lemma grows_trans: "grows a b \<Longrightarrow> grows b c \<Longrightarrow> grows a c"
  unfolding grows_def by (auto dest: order_less_le_trans)

lemma grows_kept: "kept sv sv' \<Longrightarrow> grows sv sv'"
  by (auto simp: grows_def kept_def dest: static_fields(8) intro: registered_as_static)

lemma grows_register: "grows sv (registerTransfer k b64 tok path n h d sv)"
  by (auto simp: grows_def session_at_def nth_append)

lemma grows_cancel_session: "grows sv (cancel_session E r sv)"
  by (auto simp: grows_def)

lemma grows_fold_cancel: "grows sv (fold (cancel_session E) rs sv)"
  by (induction rs arbitrary: sv) (auto intro: grows_trans grows_cancel_session)

lemma session_at_more [simp]:
  "session_at (sv\<lparr>m_sessions := t\<rparr>) r = session_at sv r"
  "session_at (sv\<lparr>m_running := b\<rparr>) r = session_at sv r"
  by (simp_all add: session_at_def)

lemma grows_cancel: "grows sv (cancelTransfer E k sv)"
  using grows_cancel_session [of sv E]
  by (auto simp: cancelTransfer_def Let_def grows_def split: option.split)

lemma grows_stop: "grows sv (server_stop E sv)"
  using grows_fold_cancel [of "sv\<lparr>m_running := False\<rparr>" E]
  by (auto simp: server_stop_def Let_def grows_def)

lemma grows_disk: "grows sv (sv\<lparr>disk := f\<rparr>)"
  by (simp add: grows_def)

lemma pool_step_grows: "pool_step S E m p = Some p' \<Longrightarrow> grows (server p) (server p')"
  by (cases m)
    (auto simp: acceptLoop_def grows_register grows_disk grows_cancel grows_stop
      elim!: thread_turnE intro: grows_kept conn_step_kept split: if_splits)

lemma pool_run_grows: "pool_run S E ms p = Some p' \<Longrightarrow> grows (server p) (server p')"
  by (induction ms arbitrary: p)
    (auto simp: bind_eq_Some_conv intro: grows_trans dest: pool_step_grows)

section \<open>The invariant of the pool\<close>

definition pool_inv :: "'f os_api \<Rightarrow> ('h, 'f) pool \<Rightarrow> bool" where
  "pool_inv E p \<longleftrightarrow> server_inv (server p) \<and> plain_targets E (server p) \<and>
     list_all (\<lambda>th. phase_ok (server p) (th_phase th)) (threads p)"

fun move_ok :: "'f os_api \<Rightarrow> pool_move \<Rightarrow> bool" where
  "move_ok E (Registered k b64 tok path n h d) \<longleftrightarrow> plain_target E path"
| "move_ok E _ \<longleftrightarrow> True"

lemma phase_ok_Handshaking [simp]: "phase_ok sv Handshaking"
  by (simp add: phase_ok_def)

lemma phase_ok_grows: "grows sv sv' \<Longrightarrow> phase_ok sv ph \<Longrightarrow> phase_ok sv' ph"
  by (auto simp: grows_def phase_ok_def split: option.splits)

lemma plain_targets_grows:
  assumes "grows sv sv'" and "length (m_store sv') = length (m_store sv)" and "plain_targets E sv"
  shows "plain_targets E sv'"
  using assms registered_as_fields(3) unfolding grows_def plain_targets_def by metis

lemma owner_store_length:
  "length (m_store (cancelTransfer E k sv)) = length (m_store sv)"
  "length (m_store (server_stop E sv)) = length (m_store sv)"
  by (simp_all add: cancelTransfer_def server_stop_def Let_def split: option.split)

definition pool_safe :: "('h, 'f) pool \<Rightarrow> bool" where
  "pool_safe p \<longleftrightarrow> server_inv (server p) \<and> list_all (\<lambda>th. phase_ok (server p) (th_phase th)) (threads p)"

lemma pool_inv_safe: "pool_inv E p \<longleftrightarrow> pool_safe p \<and> plain_targets E (server p)"
  by (auto simp: pool_inv_def pool_safe_def)

lemma server_inv_disk [simp]: "server_inv (sv\<lparr>disk := f\<rparr>) = server_inv sv"
  by (simp add: server_inv_def)

lemma pool_step_safe:
  assumes "pool_step S E m p = Some p'" and safe: "pool_safe p"
  shows "pool_safe p'"
proof -
  have sv: "server_inv (server p)"
    and ok: "list_all (\<lambda>th. phase_ok (server p) (th_phase th)) (threads p)"
    using safe by (simp_all add: pool_safe_def)
  have phases: "list_all (\<lambda>th. phase_ok (server p') (th_phase th)) (threads p)"
    using ok phase_ok_grows [OF pool_step_grows [OF assms(1)]] by (auto simp: list_all_iff)
  show ?thesis
  proof (cases m)
    case (Turn i)
    with assms(1) obtain ph c where i: "i < length (threads p)"
      and step: "conn_step S E (th_phase (threads p ! i)) (th_conn (threads p ! i)) (server p) = Some (ph, c, server p')"
      and ths: "threads p' = (threads p)[i := \<lparr>th_phase = ph, th_conn = c\<rparr>]"
      by (auto elim: thread_turnE)
    have "phase_ok (server p) (th_phase (threads p ! i))"
      using ok i by (simp add: list_all_length)
    with step sv have "phase_ok (server p') ph" by (rule conn_step_phase_ok)
    with phases have "list_all (\<lambda>th. phase_ok (server p') (th_phase th)) (threads p')"
      unfolding ths using i by (auto simp: list_all_length nth_list_update)
    with conn_step_inv [OF step sv] show ?thesis by (simp add: pool_safe_def)
  qed (use assms phases sv in
      \<open>auto simp: acceptLoop_def pool_safe_def server_inv_register server_inv_cancel server_inv_stop split: if_splits\<close>)
qed

lemma pool_step_plain:
  assumes "pool_step S E m p = Some p'" and "move_ok E m" and "plain_targets E (server p)"
  shows "plain_targets E (server p')"
proof (cases m)
  case (Turn i)
  with assms(1,3) show ?thesis by (auto elim!: thread_turnE intro: plain_targets_kept [OF conn_step_kept])
next
  case (Registered k b64 tok path n h d)
  with assms show ?thesis
    by (auto simp: plain_targets_def session_at_def nth_append new_session_def less_Suc_eq)
next
  case (Cancels k)
  with assms(1) plain_targets_grows [OF grows_cancel _ assms(3)] show ?thesis by (auto simp: owner_store_length)
next
  case Stops
  with assms(1) plain_targets_grows [OF grows_stop _ assms(3)] show ?thesis by (auto simp: owner_store_length)
qed (use assms in \<open>auto simp: acceptLoop_def plain_targets_def split: if_splits\<close>)

lemma pool_step_inv: "pool_step S E m p = Some p' \<Longrightarrow> move_ok E m \<Longrightarrow> pool_inv E p \<Longrightarrow> pool_inv E p'"
  using pool_step_safe pool_step_plain by (auto simp: pool_inv_safe)

lemma thread_turn_returns:
  assumes "path_laws E" and "fs_laws E V" and "pool_inv E p" and "i < length (threads p)"
  shows "(\<exists>p'. thread_turn S E i p = Some p') \<longleftrightarrow> \<not> waiting (th_phase (threads p ! i)) (th_conn (threads p ! i))"
proof -
  have "phase_ok (server p) (th_phase (threads p ! i))"
    using assms(3,4) by (simp add: pool_inv_def list_all_length)
  from conn_step_returns [OF assms(1,2) _ this, of S "th_conn (threads p ! i)"] assms(3,4) show ?thesis
    unfolding thread_turn_def pool_inv_def by auto
qed

text \<open>A waiting thread stays where it is, whatever happens around it.\<close>

lemma waiting_turn: "waiting (th_phase (threads p ! i)) (th_conn (threads p ! i)) \<Longrightarrow> thread_turn S E i p = None"
  by (simp add: thread_turn_def conn_step_waits)

section \<open>Files under interleaving\<close>

lemma fold_cancel_touches:
  assumes "fs_laws E V"
  shows "\<forall>r \<in> set rs. tempFilePath (session_at sv r) \<in> T \<Longrightarrow>
    spares V T (disk sv) (disk (fold (cancel_session E) rs sv))"
proof (induction rs arbitrary: sv)
  case (Cons r rs)
  have "\<forall>r' \<in> set rs. tempFilePath (session_at (cancel_session E r sv) r') \<in> T"
    using Cons.prems by auto
  from Cons.IH [OF this] cancel_session_spares [OF assms, of sv r T] Cons.prems show ?case
    by (auto intro: spares_trans)
qed simp

lemma cancel_touches:
  assumes "fs_laws E V" and "\<And>r. um_find (m_sessions sv) k = Some r \<Longrightarrow> tempFilePath (session_at sv r) \<in> T"
  shows "spares V T (disk sv) (disk (cancelTransfer E k sv))"
  using assms(2) cancel_session_spares [OF assms(1)]
  by (auto simp: cancelTransfer_def Let_def split: option.split)

lemma stop_touches:
  assumes "fs_laws E V" and "\<forall>r \<in> snd ` set (m_sessions sv). tempFilePath (session_at sv r) \<in> T"
  shows "spares V T (disk sv) (disk (server_stop E sv))"
  using assms(2) fold_cancel_touches [OF assms(1), of "map snd (m_sessions sv)" "sv\<lparr>m_running := False\<rparr>" T]
  by (auto simp: server_stop_def Let_def)

lemma server_inv_entries:
  assumes "server_inv sv" and "r \<in> snd ` set (m_sessions sv)"
  shows "r < length (m_store sv)"
proof -
  from assms(2) obtain k where "(k, r) \<in> set (m_sessions sv)" by auto
  with assms(1) have "um_find (m_sessions sv) k = Some r"
    by (simp add: server_inv_def um_in_set_find)
  with server_inv_lookup(1) [OF assms(1)] show ?thesis .
qed

lemma pool_step_spares:
  assumes "fs_laws E V" and "pool_step S E m p = Some p'" and inv: "pool_safe p"
  shows "spares V (temp_paths E (server p)) (disk (server p)) (disk (server p'))"
proof -
  have sv: "server_inv (server p)" using inv by (simp add: pool_safe_def)
  show ?thesis
  proof (cases m)
    case (Turn i)
    with assms(2) obtain ph c where i: "i < length (threads p)"
      and step: "conn_step S E (th_phase (threads p ! i)) (th_conn (threads p ! i)) (server p) = Some (ph, c, server p')"
      by (auto elim: thread_turnE)
    moreover have "phase_ok (server p) (th_phase (threads p ! i))"
      using inv i by (simp add: pool_safe_def list_all_length)
    ultimately show ?thesis by (intro conn_step_spares [OF step assms(1) sv])
  next
    case (Cancels k)
    have "tempFilePath (session_at (server p) r) \<in> temp_paths E (server p)"
      if "um_find (m_sessions (server p)) k = Some r" for r
      by (rule temp_path_at [OF server_inv_lookup(1) [OF sv that]])
    from cancel_touches [OF assms(1) this] Cancels assms(2) show ?thesis by auto
  next
    case Stops
    have "\<forall>r \<in> snd ` set (m_sessions (server p)). tempFilePath (session_at (server p) r) \<in> temp_paths E (server p)"
      using server_inv_entries [OF sv] by (blast intro: temp_path_at)
    from stop_touches [OF assms(1) this] Stops assms(2) show ?thesis by auto
  qed (use assms(2) spares_mkpath [OF assms(1)] in \<open>auto simp: acceptLoop_def split: if_splits\<close>)
qed

lemma temp_paths_grows: "grows sv sv' \<Longrightarrow> temp_paths E sv \<subseteq> temp_paths E sv'"
proof
  fix q assume g: "grows sv sv'" and "q \<in> temp_paths E sv"
  then obtain r where r: "r < length (m_store sv)" "q \<in> temp_names E (session_at sv r)"
    by (auto simp: temp_paths_def session_at_def in_set_conv_nth)
  with g have same: "registered_as (session_at sv' r) = registered_as (session_at sv r)"
    and "r < length (m_store sv')" by (auto simp: grows_def)
  from temp_paths_at [OF this(2)] temp_names_cong [OF registered_as_fields(4) [OF same]] r(2)
  show "q \<in> temp_paths E sv'" by blast
qed

lemma pool_run_safe: "pool_run S E ms p = Some q \<Longrightarrow> pool_safe p \<Longrightarrow> pool_safe q"
  by (induction ms arbitrary: p) (auto simp: bind_eq_Some_conv dest: pool_step_safe)

lemma pool_run_spares:
  assumes "fs_laws E V"
  shows "pool_run S E ms p = Some p' \<Longrightarrow> pool_safe p \<Longrightarrow>
    spares V (temp_paths E (server p')) (disk (server p)) (disk (server p'))"
proof (induction ms arbitrary: p)
  case (Cons m ms)
  then obtain q where step: "pool_step S E m p = Some q" and run: "pool_run S E ms q = Some p'"
    by (auto simp: bind_eq_Some_conv)
  have "spares V (temp_paths E (server p')) (disk (server q)) (disk (server p'))"
    by (rule Cons.IH [OF run pool_step_safe [OF step Cons.prems(2)]])
  moreover have "temp_paths E (server p) \<subseteq> temp_paths E (server p')"
    by (rule temp_paths_grows [OF grows_trans [OF pool_step_grows [OF step] pool_run_grows [OF run]]])
  ultimately show ?case
    using spares_mono [OF pool_step_spares [OF assms step Cons.prems(2)]] by (blast intro: spares_trans)
qed simp

lemma pool_run_inv:
  "pool_run S E ms p = Some q \<Longrightarrow> list_all (move_ok E) ms \<Longrightarrow> pool_inv E p \<Longrightarrow> pool_inv E q"
  by (induction ms arbitrary: p) (auto simp: bind_eq_Some_conv dest: pool_step_inv)

text \<open>
  A thread past its handshake ends after a bounded number of its own turns, whatever the others
  do: only its own turns change its \<open>work\<close>, and each of them takes some of it.
\<close>

lemma others_keep_thread:
  assumes "pool_step S E m p = Some p'" and "m \<noteq> Turn i" and "i < length (threads p)"
  shows "i < length (threads p') \<and> threads p' ! i = threads p ! i"
  using assms by (cases m) (auto simp: acceptLoop_def nth_append split: if_splits elim!: thread_turnE)

definition work_of :: "nat \<Rightarrow> ('h, 'f) pool \<Rightarrow> nat" where
  "work_of i p = work (server p) (th_phase (threads p ! i)) (th_conn (threads p ! i))"

lemma others_keep_work:
  assumes "pool_step S E m p = Some p'" and "m \<noteq> Turn i" and "i < length (threads p)" and "pool_safe p"
  shows "work_of i p' = work_of i p"
proof -
  have "phase_ok (server p) (th_phase (threads p ! i))"
    using assms(3,4) by (simp add: pool_safe_def list_all_length)
  then have "work (server p') (th_phase (threads p ! i)) c = work (server p) (th_phase (threads p ! i)) c" for c
    using pool_step_grows [OF assms(1)]
    by (intro work_cong registered_as_fields(5)) (simp add: phase_ok_def grows_def)
  with others_keep_thread [OF assms(1-3)] show ?thesis by (simp add: work_of_def)
qed

lemma own_turn_works:
  assumes "thread_turn S E i p = Some p'" and "th_phase (threads p ! i) \<noteq> Handshaking"
  shows "i < length (threads p') \<and> th_phase (threads p' ! i) \<noteq> Handshaking \<and> work_of i p' \<le> work_of i p - 1"
proof -
  from assms(1) obtain ph c where i: "i < length (threads p)"
    and step: "conn_step S E (th_phase (threads p ! i)) (th_conn (threads p ! i)) (server p) = Some (ph, c, server p')"
    and ths: "threads p' = (threads p)[i := \<lparr>th_phase = ph, th_conn = c\<rparr>]"
    by (auto elim: thread_turnE)
  show ?thesis
  proof (cases "th_phase (threads p ! i) = Closed")
    case True
    with i step ths show ?thesis by (auto simp: work_of_def)
  next
    case False
    from conn_step_work [OF step assms(2) False] i ths show ?thesis by (auto simp: work_of_def)
  qed
qed

lemma work_over: "work sv ph c = 0 \<Longrightarrow> ph \<noteq> Handshaking \<Longrightarrow> ph = Closed"
  by (cases ph) auto

lemma pool_thread_finishes:
  "pool_run S E ms p = Some q \<Longrightarrow> pool_safe p \<Longrightarrow> i < length (threads p) \<Longrightarrow>
   th_phase (threads p ! i) \<noteq> Handshaking \<Longrightarrow> work_of i p \<le> count_list ms (Turn i) \<Longrightarrow>
   th_phase (threads q ! i) = Closed"
proof (induction ms arbitrary: p)
  case Nil
  then show ?case by (auto simp: work_of_def intro: work_over)
next
  case (Cons m ms)
  then obtain p1 where step: "pool_step S E m p = Some p1" and run: "pool_run S E ms p1 = Some q"
    by (auto simp: bind_eq_Some_conv)
  have safe: "pool_safe p1" by (rule pool_step_safe [OF step Cons.prems(2)])
  show ?case
  proof (cases "m = Turn i")
    case True
    with own_turn_works [of S E i p p1] step Cons.prems(4,5) show ?thesis
      by (intro Cons.IH [OF run safe]) auto
  next
    case False
    with others_keep_thread [OF step False Cons.prems(3)] others_keep_work [OF step False Cons.prems(3,2)]
      Cons.prems(4,5) show ?thesis
      by (intro Cons.IH [OF run safe]) auto
  qed
qed

section \<open>An upload that has its temporary file to itself\<close>

text \<open>
  \<open>alone E i r\<close>: no thread but \<open>i\<close> works for the session at \<open>r\<close> and no other session has its
  temporary file under either of its names. Two sessions with one path, or one token used twice,
  are what it excludes.
\<close>

definition alone :: "'f os_api \<Rightarrow> nat \<Rightarrow> nat \<Rightarrow> ('h, 'f) pool \<Rightarrow> bool" where
  "alone E i r p \<longleftrightarrow>
     (\<forall>j < length (threads p). j \<noteq> i \<longrightarrow> phase_ref (th_phase (threads p ! j)) \<noteq> Some r) \<and>
     (\<forall>r' < length (m_store (server p)). r' \<noteq> r \<longrightarrow>
        tempFilePath (session_at (server p) r) \<notin> temp_names E (session_at (server p) r'))"

definition taken ::
  "'h sodium_api \<Rightarrow> ('f \<Rightarrow> string \<Rightarrow> bytes option) \<Rightarrow> ActiveTransferSession \<Rightarrow> bytes list \<Rightarrow> 'h \<Rightarrow> u64 \<Rightarrow>
   'f FileTransferServer \<Rightarrow> bool" where
  "taken S V s cs h t sv \<longleftrightarrow> V (disk sv) (tempFilePath s) = Some (concat cs) \<and>
     h = sha256_update S (sha256_init S) (concat cs) \<and> t = of_nat (length (concat cs))"

definition upload_intact ::
  "'h sodium_api \<Rightarrow> ('f \<Rightarrow> string \<Rightarrow> bytes option) \<Rightarrow> ActiveTransferSession \<Rightarrow> bytes \<Rightarrow> nat \<Rightarrow> nat \<Rightarrow>
   ('h, 'f) pool \<Rightarrow> bool" where
  "upload_intact S V s data i r p \<longleftrightarrow>
     i < length (threads p) \<and> r < length (m_store (server p)) \<and>
     registered_as (session_at (server p) r) = registered_as s \<and>
     (case th_phase (threads p ! i) of
        Receiving r' h t \<Rightarrow> r' = r \<and> (cancelled (session_at (server p) r) \<or>
          (\<exists>cs. taken S V s cs h t (server p) \<and>
            data = stream_of cs @ avail (incoming (th_conn (threads p ! i)))))
      | Reading r' h t \<Rightarrow> r' = r \<and> (cancelled (session_at (server p) r) \<or>
          (\<exists>cs. taken S V s cs h t (server p) \<and>
            data = stream_of cs @ avail (incoming (th_conn (threads p ! i)))))
      | Received r' err h t \<Rightarrow> r' = r \<and> (cancelled (session_at (server p) r) \<or>
          (\<exists>cs rest. taken S V s cs h t (server p) \<and> data = stream_of cs @ rest))
      | Closed \<Rightarrow> True
      | _ \<Rightarrow> False)"

lemma spares_content: "spares V T f f' \<Longrightarrow> q \<notin> T \<Longrightarrow> V f q = Some x \<Longrightarrow> V f' q = Some x"
  by (simp add: spares_def)

lemma turn_keeps_temp:
  assumes fs: "fs_laws E V" and turn: "thread_turn S E j p = Some p'" and "j \<noteq> i"
    and inv: "pool_safe p" and alone: "alone E i r p" "alone E i r p'"
    and x: "V (disk (server p)) (tempFilePath (session_at (server p) r)) = Some x"
  shows "V (disk (server p')) (tempFilePath (session_at (server p) r)) = Some x"
proof -
  have sv: "server_inv (server p)" using inv by (simp add: pool_safe_def)
  let ?temp = "\<lambda>r. tempFilePath (session_at (server p) r)"
  from turn obtain ph c where j: "j < length (threads p)"
    and cs: "conn_step S E (th_phase (threads p ! j)) (th_conn (threads p ! j)) (server p) = Some (ph, c, server p')"
    and ths: "threads p' = (threads p)[j := \<lparr>th_phase = ph, th_conn = c\<rparr>]"
    by (auto elim: thread_turnE)
  have ok: "phase_ok (server p) (th_phase (threads p ! j))"
    using inv j by (simp add: pool_safe_def list_all_length)
  then have "phase_ok (server p) ph"
    using conn_step_phase_ok [OF cs sv] conn_step_kept [OF cs]
    by (simp add: phase_ok_def kept_def split: option.splits)
  moreover have "phase_ref (th_phase (threads p ! j)) \<noteq> Some r" "phase_ref ph \<noteq> Some r"
    using alone assms(3) j ths unfolding alone_def
    by (metis, metis length_list_update nth_list_update_eq thread.select_convs(1))
  moreover have "?temp r \<notin> temp_names E (session_at (server p) r')" if "r' < length (m_store (server p))" "r' \<noteq> r" for r'
    using alone(1) that by (simp add: alone_def)
  ultimately have "?temp r \<notin> own_temps E (server p) (th_phase (threads p ! j)) ph"
    using ok unfolding own_temps_def phase_ok_def by (auto split: option.splits)
  with spares_content [OF conn_step_touches [OF cs fs] _ x] show ?thesis by simp
qed

lemma others_keep_temp:
  assumes fs: "fs_laws E V" and step: "pool_step S E m p = Some p'" and m: "m \<noteq> Turn i"
    and inv: "pool_safe p" and alone: "alone E i r p" "alone E i r p'" and r: "r < length (m_store (server p))"
    and x: "V (disk (server p)) (tempFilePath (session_at (server p) r)) = Some x"
  shows "cancelled (session_at (server p') r) \<or>
    V (disk (server p')) (tempFilePath (session_at (server p) r)) = Some x"
proof -
  have sv: "server_inv (server p)" using inv by (simp add: pool_safe_def)
  let ?temp = "\<lambda>r. tempFilePath (session_at (server p) r)"
  have other: "?temp r' \<noteq> ?temp r" if "r' < length (m_store (server p))" "r' \<noteq> r" for r'
    using alone(1) that unfolding alone_def by (metis temp_names_own(1))
  show ?thesis
  proof (cases m)
    case (Turn j)
    with step m turn_keeps_temp [OF fs _ _ inv alone x, of S j] show ?thesis by auto
  next
    case (Cancels k)
    show ?thesis
    proof (cases "um_find (m_sessions (server p)) k = Some r")
      case True
      with Cancels step r show ?thesis by (auto simp: cancelTransfer_def Let_def)
    next
      case False
      have "spares V (- {?temp r}) (disk (server p)) (disk (cancelTransfer E k (server p)))"
        using other server_inv_lookup(1) [OF sv] False by (intro cancel_touches [OF fs]) auto
      from spares_content [OF this _ x] Cancels step show ?thesis by auto
    qed
  next
    case Stops
    show ?thesis
    proof (cases "m_running (server p) \<and> r \<in> snd ` set (m_sessions (server p))")
      case True
      with r have "cancelled (session_at (fold (cancel_session E) (map snd (m_sessions (server p)))
          (server p\<lparr>m_running := False\<rparr>)) r)"
        by (subst fold_cancel_session_at) simp_all
      with True Stops step show ?thesis by (auto simp: server_stop_def Let_def)
    next
      case False
      have "spares V (- {?temp r}) (disk (server p)) (disk (server_stop E (server p)))"
      proof (cases "m_running (server p)")
        case True
        with False show ?thesis
          using other server_inv_entries [OF sv] by (intro stop_touches [OF fs]) auto
      qed (simp add: server_stop_def)
      from spares_content [OF this _ x] Stops step show ?thesis by auto
    qed
  qed (use step x fs_lawsD(5) [OF fs] in \<open>auto simp: acceptLoop_def split: if_splits\<close>)
qed

lemma others_keep_intact:
  assumes fs: "fs_laws E V" and step: "pool_step S E m p = Some p'" and m: "m \<noteq> Turn i"
    and inv: "pool_safe p" and alone: "alone E i r p" "alone E i r p'"
    and intact: "upload_intact S V s data i r p"
  shows "upload_intact S V s data i r p'"
proof -
  have i: "i < length (threads p)" and r: "r < length (m_store (server p))"
    and s: "registered_as (session_at (server p) r) = registered_as s"
    using intact by (auto simp: upload_intact_def)
  have grows: "grows (server p) (server p')" by (rule pool_step_grows [OF step])
  have same: "i < length (threads p')" "threads p' ! i = threads p ! i"
    using others_keep_thread [OF step m i] by simp_all
  have temp: "tempFilePath (session_at (server p) r) = tempFilePath s"
    using registered_as_fields(4) [OF s] .
  have kept: "taken S V s cs h t (server p')"
    if "taken S V s cs h t (server p)" "\<not> cancelled (session_at (server p') r)" for cs h t
    using others_keep_temp [OF fs step m inv alone r] that by (auto simp: taken_def temp)
  from grows r s have "r < length (m_store (server p'))"
    "registered_as (session_at (server p') r) = registered_as s"
    "cancelled (session_at (server p) r) \<Longrightarrow> cancelled (session_at (server p') r)"
    by (auto simp: grows_def)
  with intact same kept show ?thesis
    unfolding upload_intact_def by (cases "th_phase (threads p ! i)"; simp; blast)
qed

lemma taken_chunk:
  assumes fs: "fs_laws E V" "fs_reliable E V" and sha: "sha256_laws S" and "taken S V s cs h t sv"
    and "stream_named E (tempFilePath s)" and "V (disk sv') = V (fs_append E (disk sv) (tempFilePath s) p)"
  shows "taken S V s (cs @ [p]) (sha256_update S h p) (t + of_nat (length p)) sv'"
  using assms(4-6) append_view [OF fs] by (simp add: taken_def stream_named_def sha256_lawsD(1) [OF sha])

lemma step_read_cases:
  assumes "step_read S E r h t c sv = Some (ph, c', sv')"
  obtains (out) "ph = Received r True h t" "sv' = sv"
  | (chunk) q rest where "read_frame (readExact (silent c)) kMaxChunk (incoming c) = Some (Frame q, rest)"
    "ph = Receiving r (sha256_update S h q) (t + of_nat (length q))" "incoming c' = rest"
    "disk sv' = fs_append E (disk sv) (tempFilePath (session_at sv r)) q"
    "events sv' = events sv @ [OnProgress (transferId (session_at sv r)) (t + of_nat (length q))
       (expectedSize (session_at sv r))]"
  using assms
  by (auto simp: step_read_def Let_def split: option.splits prod.splits frame_result.splits)

lemma own_turn_intact:
  assumes fs: "fs_laws E V" "fs_reliable E V" and sha: "sha256_laws S" and named: "stream_named E (tempFilePath s)"
    and turn: "thread_turn S E i p = Some p'" and intact: "upload_intact S V s data i r p"
  shows "upload_intact S V s data i r p'"
proof -
  let ?th = "threads p ! i"
  have r: "r < length (m_store (server p))" "registered_as (session_at (server p) r) = registered_as s"
    using intact by (auto simp: upload_intact_def)
  from turn obtain ph c where i: "i < length (threads p)"
    and step: "conn_step S E (th_phase ?th) (th_conn ?th) (server p) = Some (ph, c, server p')"
    and ths: "threads p' = (threads p)[i := \<lparr>th_phase = ph, th_conn = c\<rparr>]"
    by (auto elim: thread_turnE)
  have now: "threads p' ! i = \<lparr>th_phase = ph, th_conn = c\<rparr>" "i < length (threads p')"
    using i ths by simp_all
  have kept: "kept (server p) (server p')" by (rule conn_step_kept [OF step])
  note same = kept_fields [OF kept_static [OF kept, of r]]
  have r': "r < length (m_store (server p'))" "registered_as (session_at (server p') r) = registered_as s"
    using r kept registered_as_static [OF kept_static [OF kept, of r]] by (simp_all add: kept_def)
  note temp = registered_as_fields(4) [OF r(2)]
  show ?thesis
  proof (cases "th_phase ?th")
    case (Receiving r0 h t)
    with intact have r0: "r0 = r" by (auto simp: upload_intact_def)
    from step Receiving r0 have eq: "ph = step_receive r h t (server p)" "c = th_conn ?th" "server p' = server p" by auto
    then have "ph = Reading r h t \<or> ph = Received r False h t" by (simp add: step_receive_def Let_def)
    with intact Receiving now r' eq(2,3) show ?thesis by (auto simp: upload_intact_def; blast)
  next
    case (Reading r0 h t)
    with intact have r0: "r0 = r" and st: "cancelled (session_at (server p) r) \<or>
        (\<exists>cs. taken S V s cs h t (server p) \<and> data = stream_of cs @ avail (incoming (th_conn ?th)))"
      by (auto simp: upload_intact_def)
    from step Reading r0 have "step_read S E r h t (th_conn ?th) (server p) = Some (ph, c, server p')" by simp
    then show ?thesis
    proof (cases rule: step_read_cases)
      case out
      with st now r' show ?thesis by (auto simp: upload_intact_def)
    next
      case (chunk q rest)
      show ?thesis
      proof (cases "cancelled (session_at (server p) r)")
        case True
        with chunk now r' same show ?thesis by (auto simp: upload_intact_def)
      next
      case False
      with st obtain cs where cs: "taken S V s cs h t (server p)"
        "data = stream_of cs @ avail (incoming (th_conn ?th))" by auto
      have "taken S V s (cs @ [q]) (sha256_update S h q) (t + of_nat (length q)) (server p')"
        by (rule taken_chunk [OF fs sha cs(1) named]) (simp add: chunk(4) temp)
      moreover have "data = stream_of (cs @ [q]) @ avail rest"
        using cs(2) sock.read_frame_view(1) [OF chunk(1)] by simp
      ultimately show ?thesis
        using chunk now r' unfolding upload_intact_def by auto
      qed
    qed
  qed (use intact step now r' in \<open>auto simp: upload_intact_def\<close>)
qed

lemma step_received_success:
  assumes "step_received S E r err h t sv = Some sv'"
    and "events sv' = events sv @ [OnFinished tid True why]"
  obtains q where "fs_rename E (disk sv) (tempFilePath (session_at sv r)) q = (True, disk sv')"
    "\<not> cancelled (session_at sv r)" "t = expectedSize (session_at sv r)"
    "expectedSha256 (session_at sv r) = [] \<or>
      hexString (sha256_final S h) = expectedSha256 (session_at sv r)"
  using assms
  by (auto simp: step_received_def Let_def split: if_splits option.splits prod.splits bool.splits)

text \<open>The last step of the thread: a success is reported for the bytes that it took.\<close>

lemma success_stores:
  assumes fs: "fs_laws E V" and turn: "thread_turn S E i p = Some p'"
    and intact: "upload_intact S V s data i r p"
    and ev: "events (server p') = events (server p) @ [OnFinished tid True why]"
  shows "\<exists>cs rest q. data = stream_of cs @ rest \<and> of_nat (length (concat cs)) = expectedSize s \<and>
    (expectedSha256 s = [] \<or> hexString (sha256 S (concat cs)) = expectedSha256 s) \<and>
    V (disk (server p)) q = None \<and>
    V (disk (server p')) = (V (disk (server p)))(tempFilePath s := None, q := Some (concat cs))"
proof -
  let ?th = "threads p ! i"
  from turn obtain ph c where i: "i < length (threads p)"
    and step: "conn_step S E (th_phase ?th) (th_conn ?th) (server p) = Some (ph, c, server p')"
    by (auto elim: thread_turnE)
  from intact have s: "registered_as (session_at (server p) r) = registered_as s"
    by (simp add: upload_intact_def)
  note same = registered_as_fields [OF s]
  obtain err h t where ph: "th_phase ?th = Received r err h t"
    and st: "cancelled (session_at (server p) r) \<or>
      (\<exists>cs rest. taken S V s cs h t (server p) \<and> data = stream_of cs @ rest)"
    using intact step ev
    by (cases "th_phase ?th") (auto simp: upload_intact_def elim: step_read_cases)
  from step ph have rec: "step_received S E r err h t (server p) = Some (server p')" by auto
  from rec ev obtain q where q: "fs_rename E (disk (server p)) (tempFilePath s) q = (True, disk (server p'))"
    and ok: "\<not> cancelled (session_at (server p) r)" "t = expectedSize s"
      "expectedSha256 s = [] \<or> hexString (sha256_final S h) = expectedSha256 s"
    by (rule step_received_success) (simp_all add: same)
  from st ok(1) obtain cs rest where cs: "taken S V s cs h t (server p)" "data = stream_of cs @ rest" by blast
  from fs_lawsD(7) [OF fs q] have "\<not> fs_exists E (disk (server p)) q"
    "V (disk (server p')) =
      (V (disk (server p)))(tempFilePath s := None, q := V (disk (server p)) (tempFilePath s))" by auto
  moreover from this(1) have "V (disk (server p)) q = None" using fs_lawsD(1) [OF fs] by blast
  ultimately show ?thesis
    using cs ok by (intro exI [of _ cs] exI [of _ rest] exI [of _ q]) (auto simp: taken_def sha256_def)
qed

text \<open>Runs in which the upload of thread \<open>i\<close> is alone in every state.\<close>

fun runs_alone ::
  "'h sodium_api \<Rightarrow> 'f os_api \<Rightarrow> nat \<Rightarrow> nat \<Rightarrow> pool_move list \<Rightarrow> ('h, 'f) pool \<Rightarrow> bool" where
  "runs_alone S E i r [] p \<longleftrightarrow> alone E i r p"
| "runs_alone S E i r (m # ms) p \<longleftrightarrow> alone E i r p \<and>
     (case pool_step S E m p of None \<Rightarrow> False | Some q \<Rightarrow> runs_alone S E i r ms q)"

lemma runs_alone_start: "runs_alone S E i r ms p \<Longrightarrow> alone E i r p"
  by (cases ms) simp_all

lemma run_keeps_intact:
  assumes fs: "fs_laws E V" "fs_reliable E V" and sha: "sha256_laws S" and named: "stream_named E (tempFilePath s)"
  shows "pool_run S E ms p = Some q \<Longrightarrow> runs_alone S E i r ms p \<Longrightarrow>
    pool_safe p \<Longrightarrow> upload_intact S V s data i r p \<Longrightarrow> upload_intact S V s data i r q"
proof (induction ms arbitrary: p)
  case (Cons m ms)
  then obtain p1 where step: "pool_step S E m p = Some p1" and run: "pool_run S E ms p1 = Some q"
    by (auto simp: bind_eq_Some_conv)
  have alone: "alone E i r p" "alone E i r p1" "runs_alone S E i r ms p1"
    using Cons.prems(2) step runs_alone_start by auto
  have "upload_intact S V s data i r p1"
  proof (cases "m = Turn i")
    case True
    with own_turn_intact [OF fs sha named _ Cons.prems(4)] step show ?thesis by simp
  next
    case False
    show ?thesis
      by (rule others_keep_intact [OF fs(1) step False Cons.prems(3) alone(1,2) Cons.prems(4)])
  qed
  with Cons.IH [OF run alone(3) pool_step_safe [OF step Cons.prems(3)]] show ?case .
qed simp

lemma upload_begins:
  assumes fs: "fs_laws E V" and sha: "sha256_laws S" and named: "stream_named E (tempFilePath (session_at (server p) r))"
    and uid: "length uid = 16" "length tok = 32"
    and i: "i < length (threads p)" "th_phase (threads p ! i) = Handshaking"
    and c: "avail (incoming (th_conn (threads p ! i))) = handshake uid tok 0 @ data"
    and sess: "find_session (server p) (uuid_string uid) = Some r" "token_ok (session_at (server p) r) tok"
    and inv: "pool_safe p" and turn: "thread_turn S E i p = Some p'"
  shows "upload_intact S V (session_at (server p) r) data i r p'"
proof -
  let ?s = "session_at (server p) r"
  from turn i(2) obtain ph c' where step: "step_handshake S E (th_conn (threads p ! i)) (server p) = Some (ph, c', server p')"
    and ths: "threads p' = (threads p)[i := \<lparr>th_phase = ph, th_conn = c'\<rparr>]"
    by (auto elim!: thread_turnE)
  have "r < length (m_store (server p))"
    using find_session_valid(1) [OF _ sess(1)] inv by (simp add: pool_safe_def)
  moreover have "kept (server p) (server p')"
    using turn by (auto elim!: thread_turnE intro: conn_step_kept)
  ultimately have "r < length (m_store (server p'))"
    "registered_as (session_at (server p') r) = registered_as ?s"
    by (auto simp: kept_def intro: registered_as_static)
  moreover have "ph = Closed \<or> ph = Receiving r (sha256_init S) 0 \<and> avail (incoming c') = data \<and>
      V (disk (server p')) (tempFilePath ?s) = Some []"
    using step_handshake_eq [OF uid c, of S E "server p"] step sess fs_lawsD(6) [OF fs] named
    by (auto simp: Let_def stream_named_def split: option.splits)
  ultimately show ?thesis
    using i(1) ths unfolding upload_intact_def
    by (auto simp: taken_def sha256_lawsD(2) [OF sha] intro!: exI [of _ "[]"])
qed

section \<open>A pool for the witnesses\<close>

text \<open>
  Two clients at once: the first sends three bytes for \<^verbatim>\<open>a.txt\<close>, the second something for
  \<open>path\<close>.
\<close>

definition second_uid :: bytes where "second_uid = replicate 15 0xA0 @ [8]"

definition shared_server :: "string \<Rightarrow> files FileTransferServer" where
  "shared_server path =
     registerTransfer (uuid_string second_uid) ''token'' demo_token path 3 [] MobileUploadToPc
     (registerTransfer (uuid_string demo_uid) ''token'' demo_token ''a.txt'' 3
       (hexString (sha256 sodium_model [1, 2, 3])) MobileUploadToPc (empty_server []))"

definition client :: "bytes \<Rightarrow> bytes \<Rightarrow> connection" where
  "client uid data = \<lparr>incoming = [handshake uid demo_token 0 @ data], silent = False, sent = [], room = 0\<rparr>"

definition shared_pool :: "string \<Rightarrow> bytes \<Rightarrow> (hash_state, files) pool" where
  "shared_pool path data =
     \<lparr>threads = [\<lparr>th_phase = Handshaking, th_conn = client demo_uid (frame [1, 2, 3])\<rparr>,
                 \<lparr>th_phase = Handshaking, th_conn = client second_uid data\<rparr>],
      server = shared_server path\<rparr>"

definition mixed_moves :: "pool_move list" where
  "mixed_moves = [Turn 1, Turn 0, Turn 1, Turn 0, Turn 1, Cancels (uuid_string second_uid), Turn 0]"

lemma shared_pool_inv:
  assumes "plain_target os_model path"
  shows "pool_inv os_model (shared_pool path data)"
proof -
  have "server_inv (shared_server path)"
    by (simp add: shared_server_def server_inv_register server_inv_empty)
  moreover have "plain_targets os_model (shared_server path)"
    using assms demo_plain
    by (simp add: plain_targets_def shared_server_def registerTransfer_def empty_server_def
        session_at_def less_Suc_eq)
  ultimately show ?thesis by (simp add: pool_inv_def shared_pool_def)
qed

lemma plain_b_txt: "plain_target os_model ''b.txt''"
  by (simp add: plain_target_def plain_name_def before_last_dot_def after_last_dot_def last_part_def)

lemma mixed_run:
  "\<exists>q q'. pool_run sodium_model os_model (Turn 0 # mixed_moves) (shared_pool ''b.txt'' (frame [7, 8, 9])) = Some q \<and>
     thread_turn sodium_model os_model 0 q = Some q' \<and>
     events (server q') = events (server q) @ [OnFinished (uuid_string demo_uid) True []]"
proof -
  have "case pool_run sodium_model os_model (Turn 0 # mixed_moves) (shared_pool ''b.txt'' (frame [7, 8, 9])) of
      None \<Rightarrow> False
    | Some q \<Rightarrow> (case thread_turn sodium_model os_model 0 q of
        None \<Rightarrow> False
      | Some q' \<Rightarrow> events (server q') = events (server q) @ [OnFinished (uuid_string demo_uid) True []])"
    by code_simp
  then show ?thesis by (auto split: option.splits)
qed

lemma mixed_alone:
  "runs_alone sodium_model os_model 0 0 (Turn 0 # mixed_moves) (shared_pool ''b.txt'' (frame [7, 8, 9]))"
  by code_simp

text \<open>
  What \<open>alone\<close> is for: two offers of one file name get the same path, so the same temporary
  file. The first client sends its three bytes and its thread has left the loop; the second
  connects, which empties the file, and goes away; the first is told that everything is stored,
  and the file is empty.
\<close>

lemma same_name_uploads_collide:
  "map_option (\<lambda>q. (disk (server q), events (server q)))
     (pool_run sodium_model os_model [Turn 0, Turn 0, Turn 0, Turn 0, Turn 1, Turn 0] (shared_pool ''a.txt'' [])) =
   Some ([(''a.txt'', [])],
     [OnProgress (uuid_string demo_uid) 3 3, OnFinished (uuid_string demo_uid) True []])"
  by code_simp

section \<open>Properties\<close>

text \<open>
  C4: an upload is not disturbed by what goes on beside it. A thread begins with the handshake
  of a session and from there on the steps of any other connections, new connections, and
  registrations, cancellations and a stop of the owner come in between in any order; as long
  as nobody else works for that session or has its temporary file, whose name the stream and Qt
  read alike, a success that the thread reports is true: the frames it took off its own stream have the announced length and hash,
  and exactly they are now stored, under a name that no file had.
\<close>

theorem upload_undisturbed:
  assumes "fs_laws E V" and "fs_reliable E V" and "sha256_laws S"
    and "pool_inv E p" and "i < length (threads p)" and "th_phase (threads p ! i) = Handshaking"
    and "length uid = 16" and "length tok = 32"
    and "avail (incoming (th_conn (threads p ! i))) = handshake uid tok 0 @ data"
    and "find_session (server p) (uuid_string uid) = Some r" and "s = session_at (server p) r"
    and "token_ok s tok" and "stream_named E (tempFilePath s)"
    and "pool_run S E (Turn i # ms) p = Some q" and "list_all (move_ok E) ms"
    and "runs_alone S E i r (Turn i # ms) p"
    and "thread_turn S E i q = Some q'"
    and "events (server q') = events (server q) @ [OnFinished tid True why]"
  shows "\<exists>cs rest path. data = stream_of cs @ rest \<and> of_nat (length (concat cs)) = expectedSize s \<and>
    (expectedSha256 s = [] \<or> hexString (sha256 S (concat cs)) = expectedSha256 s) \<and>
    V (disk (server q)) path = None \<and>
    V (disk (server q')) = (V (disk (server q)))(tempFilePath s := None, path := Some (concat cs))"
proof -
  from assms(14) obtain p1 where turn: "thread_turn S E i p = Some p1" and run: "pool_run S E ms p1 = Some q"
    by (auto simp: bind_eq_Some_conv)
  have "upload_intact S V s data i r p1"
    unfolding assms(11)
    by (rule upload_begins [OF assms(1,3) _ assms(7,8,5,6,9,10) _ _ turn]) (use assms(4,11-13) in \<open>simp_all add: pool_inv_safe\<close>)
  moreover have "pool_safe p1" using pool_step_safe [of S E "Turn i" p p1] turn assms(4) by (simp add: pool_inv_safe)
  moreover have "runs_alone S E i r ms p1" using assms(16) turn by simp
  ultimately have "upload_intact S V s data i r q"
    by (intro run_keeps_intact [OF assms(1-3,13) run])
  with success_stores [OF assms(1,17) _ assms(18)] show ?thesis by blast
qed

theorem upload_undisturbed_witness:
  "\<exists>q q' path. pool_run sodium_model os_model (Turn 0 # mixed_moves)
       (shared_pool ''b.txt'' (frame [7, 8, 9])) = Some q \<and>
     thread_turn sodium_model os_model 0 q = Some q' \<and>
     um_find (disk (server q)) path = None \<and>
     (\<exists>content. um_find (disk (server q')) path = Some content \<and> of_nat (length content) = (3 :: u64))"
proof -
  obtain q q' where run: "pool_run sodium_model os_model (Turn 0 # mixed_moves)
      (shared_pool ''b.txt'' (frame [7, 8, 9])) = Some q" "thread_turn sodium_model os_model 0 q = Some q'"
    and ev: "events (server q') = events (server q) @ [OnFinished (uuid_string demo_uid) True []]"
    using mixed_run by blast
  let ?p = "shared_pool ''b.txt'' (frame [7, 8, 9])"
  have start: "0 < length (threads ?p)" "th_phase (threads ?p ! 0) = Handshaking"
    "avail (incoming (th_conn (threads ?p ! 0))) = handshake demo_uid demo_token 0 @ frame [1, 2, 3]"
    by (simp_all add: shared_pool_def client_def handshake_def demo_uid_def)
  have sess: "find_session (server ?p) (uuid_string demo_uid) = Some 0"
    "token_ok (session_at (server ?p) 0) demo_token" "expectedSize (session_at (server ?p) 0) = 3"
    by code_simp+
  have moves: "list_all (move_ok os_model) mixed_moves" by (simp add: mixed_moves_def)
  from upload_undisturbed [OF os_model_fs_laws os_model_fs_reliable sodium_model_sha256_laws
      shared_pool_inv [OF plain_b_txt] start(1,2) demo_lengths start(3) sess(1) refl sess(2)
      os_model_stream_named run(1) moves mixed_alone run(2) ev] run sess(3)
  show ?thesis by (auto simp del: pool_run.simps)
qed

text \<open>
  The threads together. In every interleaving of any number of connection threads with
  the accept loop and with the owner's registrations, cancellations and stops, on any file
  system: the server keeps its invariant; every file that existed is there with its content,
  the temporary files of the sessions apart; no thread is ever stuck but one that waits for a silent
  peer; and a thread past its handshake is closed after as many turns of its own as it has \<open>work\<close>,
  whatever the others do.
\<close>

lemma interleaved_threads:
  assumes "path_laws E" and "fs_laws E V" and "pool_inv E p"
    and "pool_run S E ms p = Some q" and "list_all (move_ok E) ms"
  shows "pool_inv E q \<and>
    (\<forall>path content. V (disk (server p)) path = Some content \<and>
       path \<notin> temp_paths E (server q) \<longrightarrow> V (disk (server q)) path = Some content) \<and>
    (\<forall>i < length (threads q). (\<exists>q'. thread_turn S E i q = Some q') \<longleftrightarrow>
       \<not> waiting (th_phase (threads q ! i)) (th_conn (threads q ! i))) \<and>
    (\<forall>i < length (threads p). th_phase (threads p ! i) \<noteq> Handshaking \<longrightarrow>
       work_of i p \<le> count_list ms (Turn i) \<longrightarrow>
       th_phase (threads q ! i) = Closed)"
proof -
  have inv: "pool_inv E q" by (rule pool_run_inv [OF assms(4,5,3)])
  have sp: "spares V (temp_paths E (server q)) (disk (server p)) (disk (server q))"
    by (rule pool_run_spares [OF assms(2,4)]) (use assms(3) in \<open>simp add: pool_inv_safe\<close>)
  have safe: "pool_safe p" using assms(3) by (simp add: pool_inv_safe)
  from sp inv thread_turn_returns [OF assms(1,2) inv] pool_thread_finishes [OF assms(4) safe] show ?thesis
    by (auto simp: spares_def)
qed

end
