(* ===== verification/TransferLiveness.thy ===== *)
theory TransferLiveness
  imports TransferThreads
begin

text \<open>
  What the threads of the transfer server achieve when they run side by side: an upload whose
  client sends what it announced is stored and reported, whatever the other threads and the owner
  do meanwhile, as long as the server runs, the session is not cancelled and nobody else has its
  temporary file. The theory \<open>TransferThreads\<close> shows that a reported success is true; this one
  that there is a report.
\<close>

section \<open>What no step undoes\<close>

lemma fold_cancel_more [simp]:
  "events (fold (cancel_session E) rs sv) = events sv"
  "m_running (fold (cancel_session E) rs sv) = m_running sv"
  by (induction rs arbitrary: sv) (simp_all add: cancel_session_def Let_def)

lemma owner_events:
  "events (cancelTransfer E k sv) = events sv"
  "events (server_stop E sv) = events sv"
  "events (registerTransfer k b64 tok path n h d sv) = events sv"
  by (simp_all add: cancelTransfer_def server_stop_def registerTransfer_def cancel_session_def Let_def split: option.split)

lemma owner_running:
  "m_running (cancelTransfer E k sv) = m_running sv"
  "\<not> m_running (server_stop E sv)"
  "m_running (registerTransfer k b64 tok path n h d sv) = m_running sv"
  by (simp_all add: cancelTransfer_def server_stop_def registerTransfer_def cancel_session_def Let_def split: option.split)

lemma pool_step_events:
  assumes "pool_step S E m p = Some p'"
  shows "\<exists>evs. events (server p') = events (server p) @ evs"
  using assms
  by (cases m) (auto simp: acceptLoop_def owner_events split: if_splits elim!: thread_turnE intro: conn_step_events)

lemma pool_step_running:
  assumes "pool_step S E m p = Some p'" and "m_running (server p')"
  shows "m_running (server p)"
  using assms
  by (cases m)
    (auto simp: acceptLoop_def owner_running split: if_splits elim!: thread_turnE dest: kept_running [OF conn_step_kept])

section \<open>An upload on its way\<close>

text \<open>
  Of the chunks \<open>cs\<close> that the client sends, some are taken and the others are still to come; at
  the end the success is among the events from the \<open>n\<close>-th on and the file is in place.
\<close>

definition live :: "nat \<Rightarrow> 'f FileTransferServer \<Rightarrow> bool" where
  "live r sv \<longleftrightarrow> m_running sv \<and> \<not> cancelled (session_at sv r)"

definition stored ::
  "'f os_api \<Rightarrow> ('f \<Rightarrow> string \<Rightarrow> bytes option) \<Rightarrow> ActiveTransferSession \<Rightarrow> bytes \<Rightarrow> nat \<Rightarrow>
   'f FileTransferServer \<Rightarrow> bool" where
  "stored E V s content n sv \<longleftrightarrow>
     OnFinished (transferId s) True [] \<in> set (drop n (events sv)) \<and>
     (names_tried E (targetFilePath s) \<inter> temp_paths E sv = {} \<longrightarrow>
        (\<exists>path \<in> names_tried E (targetFilePath s). V (disk sv) path = Some content))"

fun phase_on_track ::
  "'h sodium_api \<Rightarrow> 'f os_api \<Rightarrow> ('f \<Rightarrow> string \<Rightarrow> bytes option) \<Rightarrow> ActiveTransferSession \<Rightarrow> bytes list \<Rightarrow> bytes \<Rightarrow>
   nat \<Rightarrow> nat \<Rightarrow> 'h phase \<Rightarrow> connection \<Rightarrow> 'f FileTransferServer \<Rightarrow> bool" where
  "phase_on_track S E V s cs tail n r (Receiving r' h t) c sv \<longleftrightarrow> r' = r \<and>
     (\<exists>ds es. cs = ds @ es \<and> taken S V s ds h t sv \<and> avail (incoming c) = stream_of es @ tail)"
| "phase_on_track S E V s cs tail n r (Reading r' h t) c sv \<longleftrightarrow> r' = r \<and>
     (\<exists>ds q es. cs = ds @ q # es \<and> taken S V s ds h t sv \<and> avail (incoming c) = stream_of (q # es) @ tail)"
| "phase_on_track S E V s cs tail n r (Received r' err h t) c sv \<longleftrightarrow> r' = r \<and> \<not> err \<and> taken S V s cs h t sv"
| "phase_on_track S E V s cs tail n r Closed c sv \<longleftrightarrow> stored E V s (concat cs) n sv"
| "phase_on_track S E V s cs tail n r _ c sv \<longleftrightarrow> False"

definition upload_on_track ::
  "'h sodium_api \<Rightarrow> 'f os_api \<Rightarrow> ('f \<Rightarrow> string \<Rightarrow> bytes option) \<Rightarrow> ActiveTransferSession \<Rightarrow> bytes list \<Rightarrow> bytes \<Rightarrow>
   nat \<Rightarrow> nat \<Rightarrow> nat \<Rightarrow> ('h, 'f) pool \<Rightarrow> bool" where
  "upload_on_track S E V s cs tail n i r p \<longleftrightarrow>
     i < length (threads p) \<and> r < length (m_store (server p)) \<and>
     registered_as (session_at (server p) r) = registered_as s \<and> n \<le> length (events (server p)) \<and>
     (live r (server p) \<longrightarrow>
        phase_on_track S E V s cs tail n r (th_phase (threads p ! i)) (th_conn (threads p ! i)) (server p))"

definition fits_session :: "'h sodium_api \<Rightarrow> ActiveTransferSession \<Rightarrow> bytes list \<Rightarrow> bool" where
  "fits_session S s cs \<longleftrightarrow> chunks_ok cs \<and> length (concat cs) = unat (expectedSize s) \<and>
     (expectedSha256 s = [] \<or> hexString (sha256 S (concat cs)) = expectedSha256 s)"

section \<open>The thread's own turns\<close>

lemma chunk_expected:
  assumes "fits_session S s (ds @ q # es)" and "t = of_nat (length (concat ds))"
  shows "t < expectedSize s" and "0 < length q" and "length q \<le> unat kMaxChunk"
proof -
  show q: "0 < length q" "length q \<le> unat kMaxChunk"
    using assms(1) by (simp_all add: fits_session_def chunks_ok_def)
  have "length (concat (ds @ q # es)) = unat (expectedSize s)" using assms(1) by (simp add: fits_session_def)
  then have "length (concat ds) < unat (expectedSize s)"
    using q(1) unfolding concat_append length_append concat.simps by linarith
  then show "t < expectedSize s"
    unfolding assms(2) by (simp add: word_less_nat_alt unat_of_nat le_less_trans [OF mod_less_eq_dividend])
qed

lemma receive_on_track:
  assumes fit: "fits_session S s cs" and s: "registered_as (session_at sv r) = registered_as s" and live: "live r sv"
    and track: "phase_on_track S E V s cs tail n r (Receiving r h t) c sv"
  shows "phase_on_track S E V s cs tail n r (step_receive r h t sv) c sv"
proof -
  from track obtain ds es where split: "cs = ds @ es" "taken S V s ds h t sv" "avail (incoming c) = stream_of es @ tail"
    by auto
  have t: "t = of_nat (length (concat ds))" using split(2) by (simp add: taken_def)
  note same = registered_as_fields [OF s]
  show ?thesis
  proof (cases es)
    case Nil
    with split(1) fit t have "t = expectedSize s" by (simp add: fits_session_def)
    with Nil split same show ?thesis by (simp add: step_receive_def Let_def)
  next
    case (Cons q es')
    with chunk_expected(1) [OF fit [unfolded split(1) Cons] t] live split show ?thesis
      by (auto simp: step_receive_def Let_def live_def same)
  qed
qed

lemma read_on_track:
  assumes fs: "fs_laws E V" "fs_reliable E V" and sha: "sha256_laws S" and fit: "fits_session S s cs"
    and named: "stream_named E (tempFilePath s)" and s: "registered_as (session_at sv r) = registered_as s"
    and track: "phase_on_track S E V s cs tail n r (Reading r h t) c sv"
  shows "\<exists>ph c' sv'. conn_step S E (Reading r h t) c sv = Some (ph, c', sv') \<and>
    phase_on_track S E V s cs tail n r ph c' sv'"
proof -
  from track obtain ds q es where split: "cs = ds @ q # es" "taken S V s ds h t sv"
    "avail (incoming c) = frame q @ stream_of es @ tail" by auto
  have t: "t = of_nat (length (concat ds))" using split(2) by (simp add: taken_def)
  note same = registered_as_fields [OF s] and q = chunk_expected [OF fit [unfolded split(1)] t]
  from sock.read_frame_step [OF split(3) q(2,3), of "silent c"]
  obtain rest where frame: "read_frame (readExact (silent c)) kMaxChunk (incoming c) = Some (Frame q, rest)"
    and rest: "avail rest = stream_of es @ tail" by auto
  define sv' where "sv' = emit (OnProgress (transferId s) (t + of_nat (length q)) (expectedSize s))
    (update_session r (\<lambda>s. s\<lparr>bytesTransferred := t + of_nat (length q)\<rparr>)
      (sv\<lparr>disk := fs_append E (disk sv) (tempFilePath s) q\<rparr>))"
  have "conn_step S E (Reading r h t) c sv =
      Some (Receiving r (sha256_update S h q) (t + of_nat (length q)), c\<lparr>incoming := rest\<rparr>, sv')"
    using frame by (simp add: step_read_def Let_def same sv'_def)
  moreover have "taken S V s (ds @ [q]) (sha256_update S h q) (t + of_nat (length q)) sv'"
    by (rule taken_chunk [OF fs sha split(2) named]) (simp add: sv'_def)
  then have "phase_on_track S E V s cs tail n r (Receiving r (sha256_update S h q) (t + of_nat (length q)))
      (c\<lparr>incoming := rest\<rparr>) sv'"
    using split(1) rest unfolding phase_on_track.simps
    by - (intro conjI refl, rule exI [of _ "ds @ [q]"], rule exI [of _ es], simp)
  ultimately show ?thesis by (intro exI conjI)
qed

lemma received_on_track:
  assumes path: "path_laws E" and fs: "fs_laws E V" "fs_reliable E V" and fit: "fits_session S s cs"
    and plain: "plain_target E (targetFilePath s)" and n: "n \<le> length (events sv)"
    and s: "registered_as (session_at sv r) = registered_as s" and live: "live r sv"
    and track: "phase_on_track S E V s cs tail n r (Received r err h t) c sv"
  shows "\<exists>sv'. conn_step S E (Received r err h t) c sv = Some (Closed, c, sv') \<and> stored E V s (concat cs) n sv'"
proof -
  note same = registered_as_fields [OF s]
  from track have err: "\<not> err" and taken: "V (disk sv) (tempFilePath s) = Some (concat cs)"
    "h = sha256_update S (sha256_init S) (concat cs)" "t = expectedSize s"
    using fit by (auto simp: taken_def fits_session_def)
  from resolve_name_returns [OF path plain fs_lawsD(2) [OF fs(1)], of "disk sv"] obtain q where
    q: "resolve_name E (disk sv) (targetFilePath s) (targetFilePath s) 1 = Some q" "\<not> fs_exists E (disk sv) q"
    "q \<in> names_tried E (targetFilePath s)" by (auto simp: names_tried_def)
  obtain f where f: "fs_rename E (disk sv) (tempFilePath s) q = (True, f)"
    using fs_reliableD(4) [OF fs(2) _ q(2), of "tempFilePath s"] taken(1)
    by (cases "fs_rename E (disk sv) (tempFilePath s) q") auto
  have V: "V f q = Some (concat cs)" using fs_lawsD(7) [OF fs(1) f] taken(1) by simp
  have "step_received S E r err h t sv = Some (emit (OnFinished (transferId s) True []) (sv\<lparr>disk := f\<rparr>))"
    using err taken live fit q(1) f by (auto simp: step_received_def Let_def same live_def fits_session_def sha256_def)
  moreover have "stored E V s (concat cs) n (emit (OnFinished (transferId s) True []) (sv\<lparr>disk := f\<rparr>))"
    using n V q(3) by (auto simp: stored_def)
  ultimately show ?thesis by auto
qed

lemma own_turn_on_track:
  assumes path: "path_laws E" and fs: "fs_laws E V" "fs_reliable E V" and sha: "sha256_laws S"
    and fit: "fits_session S s cs" and named: "stream_named E (tempFilePath s)"
    and plain: "plain_target E (targetFilePath s)" and turn: "thread_turn S E i p = Some p'"
    and track: "upload_on_track S E V s cs tail n i r p"
  shows "upload_on_track S E V s cs tail n i r p'"
proof -
  let ?th = "threads p ! i"
  have r: "r < length (m_store (server p))" "registered_as (session_at (server p) r) = registered_as s"
    and n: "n \<le> length (events (server p))"
    using track by (simp_all add: upload_on_track_def)
  from turn obtain ph c where i: "i < length (threads p)"
    and step: "conn_step S E (th_phase ?th) (th_conn ?th) (server p) = Some (ph, c, server p')"
    and ths: "threads p' = (threads p)[i := \<lparr>th_phase = ph, th_conn = c\<rparr>]"
    by (auto elim: thread_turnE)
  have kept: "kept (server p) (server p')" by (rule conn_step_kept [OF step])
  have "phase_on_track S E V s cs tail n r ph c (server p')" if "live r (server p')"
  proof -
    have live: "live r (server p)"
      using that kept_running [OF kept] kept_fields(8) [OF kept_static [OF kept, of r]] by (simp add: live_def)
    then have now: "phase_on_track S E V s cs tail n r (th_phase ?th) (th_conn ?th) (server p)"
      using track by (simp add: upload_on_track_def)
    then show ?thesis
    proof (cases "th_phase ?th")
      case (Receiving r' h t)
      with now have r': "r' = r" by simp
      from receive_on_track [OF fit r(2) live now [unfolded Receiving r']] step
      show ?thesis by (auto simp: Receiving r' simp del: phase_on_track.simps)
    next
      case (Reading r' h t)
      with now have r': "r' = r" by simp
      from read_on_track [OF fs sha fit named r(2) now [unfolded Reading r']] step
      show ?thesis by (auto simp: Reading r' simp del: phase_on_track.simps)
    next
      case (Received r' err h t)
      with now have r': "r' = r" by simp
      from received_on_track [OF path fs fit plain n r(2) live now [unfolded Received r']] step
      show ?thesis by (auto simp: Received r')
    qed (use step in auto)
  qed
  moreover have "n \<le> length (events (server p'))"
    using conn_step_events [OF step] n by auto
  moreover have "r < length (m_store (server p'))" "registered_as (session_at (server p') r) = registered_as s"
    using r kept registered_as_static [OF kept_static [OF kept, of r]] by (simp_all add: kept_def)
  ultimately show ?thesis using i ths by (simp add: upload_on_track_def)
qed

section \<open>The turns of the others\<close>

lemma stored_grows:
  assumes "stored E V s content n sv" and "n \<le> length (events sv)" and "events sv' = events sv @ evs"
    and "temp_paths E sv \<subseteq> temp_paths E sv'" and "spares V (temp_paths E sv) (disk sv) (disk sv')"
  shows "stored E V s content n sv'"
proof -
  have "\<exists>path \<in> names_tried E (targetFilePath s). V (disk sv') path = Some content"
    if free: "names_tried E (targetFilePath s) \<inter> temp_paths E sv' = {}"
  proof -
    from free assms(1,4) obtain path where "path \<in> names_tried E (targetFilePath s)" "V (disk sv) path = Some content"
      unfolding stored_def by blast
    moreover from this free assms(4) have "path \<notin> temp_paths E sv" by blast
    ultimately show ?thesis using spares_content [OF assms(5)] by blast
  qed
  with assms(1-3) show ?thesis by (auto simp: stored_def)
qed

lemma others_on_track:
  assumes fs: "fs_laws E V" and step: "pool_step S E m p = Some p'" and m: "m \<noteq> Turn i"
    and safe: "pool_safe p" and alone: "alone E i r p" "alone E i r p'"
    and track: "upload_on_track S E V s cs tail n i r p"
  shows "upload_on_track S E V s cs tail n i r p'"
proof -
  let ?ph = "th_phase (threads p ! i)" and ?c = "th_conn (threads p ! i)"
  have i: "i < length (threads p)" and r: "r < length (m_store (server p))"
    and s: "registered_as (session_at (server p) r) = registered_as s" and n: "n \<le> length (events (server p))"
    using track by (simp_all add: upload_on_track_def)
  have grows: "grows (server p) (server p')" by (rule pool_step_grows [OF step])
  have same: "i < length (threads p')" "threads p' ! i = threads p ! i"
    using others_keep_thread [OF step m i] by simp_all
  from pool_step_events [OF step] obtain evs where evs: "events (server p') = events (server p) @ evs" ..
  have "phase_on_track S E V s cs tail n r ?ph ?c (server p')" if "live r (server p')"
  proof -
    have "live r (server p)"
      using that pool_step_running [OF step] grows r by (auto simp: live_def grows_def)
    then have now: "phase_on_track S E V s cs tail n r ?ph ?c (server p)"
      using track by (simp add: upload_on_track_def)
    have kept: "taken S V s ds h t (server p')" if "taken S V s ds h t (server p)" for ds h t
      using others_keep_temp [OF fs step m safe alone r] that \<open>live r (server p')\<close> registered_as_fields(4) [OF s]
      by (auto simp: taken_def live_def)
    have "stored E V s (concat cs) n (server p')" if "stored E V s (concat cs) n (server p)"
      by (rule stored_grows [OF that n evs temp_paths_grows [OF grows] pool_step_spares [OF fs step safe]])
    with now kept show ?thesis by (cases ?ph; simp; blast)
  qed
  moreover have "r < length (m_store (server p'))" "registered_as (session_at (server p') r) = registered_as s"
    using grows r s by (auto simp: grows_def)
  ultimately show ?thesis using same n evs by (simp add: upload_on_track_def)
qed

lemma run_on_track:
  assumes path: "path_laws E" and fs: "fs_laws E V" "fs_reliable E V" and sha: "sha256_laws S"
    and fit: "fits_session S s cs" and named: "stream_named E (tempFilePath s)" and plain: "plain_target E (targetFilePath s)"
  shows "pool_run S E ms p = Some q \<Longrightarrow> runs_alone S E i r ms p \<Longrightarrow>
    pool_safe p \<Longrightarrow> upload_on_track S E V s cs tail n i r p \<Longrightarrow> upload_on_track S E V s cs tail n i r q"
proof (induction ms arbitrary: p)
  case (Cons m ms)
  then obtain p1 where step: "pool_step S E m p = Some p1" and run: "pool_run S E ms p1 = Some q"
    by (auto simp: bind_eq_Some_conv)
  have alone: "alone E i r p" "alone E i r p1" "runs_alone S E i r ms p1"
    using Cons.prems(2) step runs_alone_start by auto
  have "upload_on_track S E V s cs tail n i r p1"
  proof (cases "m = Turn i")
    case True
    with own_turn_on_track [OF path fs sha fit named plain _ Cons.prems(4)] step show ?thesis by simp
  next
    case False
    show ?thesis by (rule others_on_track [OF fs(1) step False Cons.prems(3) alone(1,2) Cons.prems(4)])
  qed
  with Cons.IH [OF run alone(3) pool_step_safe [OF step Cons.prems(3)]] show ?case .
qed simp

lemma handshake_on_track:
  assumes fs: "fs_laws E V" "fs_reliable E V" and sha: "sha256_laws S"
    and named: "stream_named E (tempFilePath (session_at (server p) r))"
    and uid: "length uid = 16" "length tok = 32"
    and i: "i < length (threads p)" "th_phase (threads p ! i) = Handshaking"
    and c: "avail (incoming (th_conn (threads p ! i))) = handshake uid tok 0 @ stream_of cs @ tail"
    and sess: "find_session (server p) (uuid_string uid) = Some r" "token_ok (session_at (server p) r) tok"
    and inv: "pool_safe p" and turn: "thread_turn S E i p = Some p'"
  shows "upload_on_track S E V (session_at (server p) r) cs tail (length (events (server p))) i r p'"
    and "th_phase (threads p' ! i) \<noteq> Handshaking"
    and "work_of i p' \<le> 3 + length (stream_of cs @ tail)"
proof -
  let ?s = "session_at (server p) r"
  from turn i(2) obtain ph c' where step: "step_handshake S E (th_conn (threads p ! i)) (server p) = Some (ph, c', server p')"
    and ths: "threads p' = (threads p)[i := \<lparr>th_phase = ph, th_conn = c'\<rparr>]"
    by (auto elim!: thread_turnE)
  have "r < length (m_store (server p))"
    using find_session_valid(1) [OF _ sess(1)] inv by (simp add: pool_safe_def)
  moreover have "kept (server p) (server p')"
    using turn by (auto elim!: thread_turnE intro: conn_step_kept)
  ultimately have same: "r < length (m_store (server p'))" "registered_as (session_at (server p') r) = registered_as ?s"
    by (auto simp: kept_def intro: registered_as_static)
  obtain disk2 where "fs_create E (fs_mkpath E (disk (server p)) (absolutePath E (tempFilePath ?s))) (tempFilePath ?s) = Some disk2"
    using fs_reliableD(3) [OF fs(2)] by blast
  with step_handshake_eq [OF uid c, of S E "server p"] step sess have
    now: "ph = Receiving r (sha256_init S) 0" "avail (incoming c') = stream_of cs @ tail" "server p' = (server p)\<lparr>disk := disk2\<rparr>"
    and created: "V disk2 (tempFilePath ?s) = Some []"
    using fs_lawsD(6) [OF fs(1)] named by (auto simp: Let_def stream_named_def)
  have "phase_on_track S E V ?s cs tail (length (events (server p))) r ph c' (server p')"
    unfolding now phase_on_track.simps
    by (intro conjI refl, rule exI [of _ "[]"], rule exI [of _ cs])
      (simp add: now created taken_def sha256_lawsD(2) [OF sha])
  with i(1) ths same now show "upload_on_track S E V ?s cs tail (length (events (server p))) i r p'"
    by (simp add: upload_on_track_def)
  show "th_phase (threads p' ! i) \<noteq> Handshaking"
    "work_of i p' \<le> 3 + length (stream_of cs @ tail)"
    using i(1) ths now by (simp_all add: work_of_def)
qed

section \<open>Properties\<close>

text \<open>
  An upload gets through. A thread whose client sends the handshake of a session and then frames
  of the announced length and hash has, after as many turns of its own as bytes were sent and three
  more, closed its connection, reported success and left the file with exactly those bytes under
  the announced name or a numbered one; and this in every interleaving with other connections, new
  connections, registrations, cancellations of other sessions and folders being made, as long as
  the server runs, the session is not cancelled and its temporary file is its own.
\<close>

lemma upload_completes:
  assumes "path_laws E" and "fs_laws E V" and "fs_reliable E V" and "sha256_laws S"
    and "pool_safe p" and "i < length (threads p)" and "th_phase (threads p ! i) = Handshaking"
    and "length uid = 16" and "length tok = 32"
    and "avail (incoming (th_conn (threads p ! i))) = handshake uid tok 0 @ stream_of cs @ tail"
    and "find_session (server p) (uuid_string uid) = Some r" and "s = session_at (server p) r"
    and "token_ok s tok" and "fits_session S s cs"
    and "stream_named E (tempFilePath s)" and "plain_target E (targetFilePath s)"
    and "pool_run S E (Turn i # ms) p = Some q"
    and "runs_alone S E i r (Turn i # ms) p"
    and "3 + length (stream_of cs @ tail) \<le> count_list ms (Turn i)"
    and "m_running (server q) \<and> \<not> cancelled (session_at (server q) r)"
    and "names_tried E (targetFilePath s) \<inter> temp_paths E (server q) = {}"
  shows "th_phase (threads q ! i) = Closed \<and>
    OnFinished (transferId s) True [] \<in> set (drop (length (events (server p))) (events (server q))) \<and>
    (\<exists>path \<in> names_tried E (targetFilePath s). V (disk (server q)) path = Some (concat cs))"
proof -
  from assms(17) obtain p1 where turn: "thread_turn S E i p = Some p1" and run: "pool_run S E ms p1 = Some q"
    by (auto simp: bind_eq_Some_conv)
  note start = handshake_on_track [OF assms(2-4) _ assms(8,9,6,7,10,11) _ assms(5) turn, folded assms(12), OF assms(15,13)]
  have "pool_safe p1" using pool_step_safe [of S E "Turn i" p p1] turn assms(5) by simp
  moreover have "runs_alone S E i r ms p1" using assms(18) turn by simp
  ultimately have track: "upload_on_track S E V s cs tail (length (events (server p))) i r q"
    using run_on_track [OF assms(1-4,14-16) run] start(1) by blast
  have "i < length (threads p1)" using start(1) by (simp add: upload_on_track_def)
  from pool_thread_finishes [OF run \<open>pool_safe p1\<close> this start(2)] start(3) assms(19)
  have "th_phase (threads q ! i) = Closed" by simp
  with track assms(20,21) show ?thesis by (simp add: upload_on_track_def live_def stored_def)
qed

end
