(* ===== verification/TransferServing.thy ===== *)
theory TransferServing
  imports TransferLiveness TransferDownload
begin

text \<open>
  Downloads among other threads: a thread that sends a file reads it chunk by chunk while the others
  go on. No step of the program changes a file but the temporary ones of the sessions, so when the file
  is none of these, every chunk is that of the file as it was opened. The thread ends with the frames of
  the announced part of the file on the wire and a report of success, as long as the server runs, the
  session is not cancelled and the phone takes the bytes.
\<close>

section \<open>A download on its way\<close>

text \<open>
  \<open>out\<close> is all that the connection will have been sent; of the open file the bytes behind the
  position are left, and the frames of what is still announced of them fit into the connection.
\<close>

fun phase_serving ::
  "bytes \<Rightarrow> ActiveTransferSession \<Rightarrow> bytes \<Rightarrow> nat \<Rightarrow> nat \<Rightarrow> 'h phase \<Rightarrow> connection \<Rightarrow> 'f FileTransferServer \<Rightarrow> bool" where
  "phase_serving content s out n r (Sending r' at t) c sv \<longleftrightarrow> r' = r \<and> t \<le> expectedSize s \<and>
     (let left = unat (expectedSize s - t); rest = file_rest content at in left \<le> length rest \<and>
        length (file_stream left rest) \<le> room c \<and> sent c @ file_stream left rest = out)"
| "phase_serving content s out n r (Writing r' chunk at t) c sv \<longleftrightarrow> r' = r \<and> t + of_nat (length chunk) \<le> expectedSize s \<and>
     (let left = unat (expectedSize s - (t + of_nat (length chunk))); rest = file_rest content at in left \<le> length rest \<and>
        length (frame chunk @ file_stream left rest) \<le> room c \<and> sent c @ frame chunk @ file_stream left rest = out)"
| "phase_serving content s out n r (Sent r' err t) c sv \<longleftrightarrow> r' = r \<and> \<not> err \<and> t = expectedSize s \<and> sent c = out"
| "phase_serving content s out n r Closed c sv \<longleftrightarrow> sent c = out \<and> OnFinished (transferId s) True [] \<in> set (drop n (events sv))"
| "phase_serving content s out n r _ c sv \<longleftrightarrow> False"

definition download_serving ::
  "bytes \<Rightarrow> ActiveTransferSession \<Rightarrow> bytes \<Rightarrow> nat \<Rightarrow> nat \<Rightarrow> nat \<Rightarrow> ('h, 'f) pool \<Rightarrow> bool" where
  "download_serving content s out n i r p \<longleftrightarrow>
     i < length (threads p) \<and> r < length (m_store (server p)) \<and>
     registered_as (session_at (server p) r) = registered_as s \<and> n \<le> length (events (server p)) \<and>
     (live r (server p) \<longrightarrow>
        phase_serving content s out n r (th_phase (threads p ! i)) (th_conn (threads p ! i)) (server p))"

lemma file_stream_0 [simp]: "file_stream 0 content = []"
  by (simp add: file_stream_def)

lemma send_serving:
  assumes fs: "fs_laws E V" and held: "V (disk sv) (stream_path E (targetFilePath s)) = Some content"
    and s: "registered_as (session_at sv r) = registered_as s" and live: "live r sv"
    and serving: "phase_serving content s out n r (Sending r at t) c sv"
    and step: "conn_step S E (Sending r at t) c sv = Some (ph, c', sv')"
  shows "phase_serving content s out n r ph c' sv'"
proof -
  define left where "left = unat (expectedSize s - t)"
  let ?rest = "file_rest content at"
  from serving have t: "t \<le> expectedSize s" and fits: "left \<le> length ?rest" "length (file_stream left ?rest) \<le> room c"
    and out: "sent c @ file_stream left ?rest = out" by (auto simp: left_def Let_def)
  note same = registered_as_fields [OF s]
  show ?thesis
  proof (cases "t = expectedSize s")
    case True
    with out same step show ?thesis by (auto simp: step_send_def Let_def left_def)
  next
    case False
    with t have less: "t < expectedSize s" by simp
    have pos: "0 < left" using less unat_sub [OF t] by (simp add: left_def word_less_nat_alt)
    with fits(1) have rest: "?rest \<noteq> []" by auto
    define toRead chunk where "toRead = min kChunkPlaintextSize left" and "chunk = take toRead ?rest"
    note stream = file_stream_step [OF pos rest, folded toRead_def, folded chunk_def]
    have read: "fs_read E (disk sv) (targetFilePath (session_at sv r)) pos = drop pos content" for pos
      using fs_lawsD(10) [OF fs held] by (simp add: same)
    obtain at' where now: "conn_step S E (Sending r at t) c sv = Some (Writing r chunk at' t, c, sv)"
      and at': "file_rest content at' = drop toRead ?rest"
      using send_chunk_step [OF _ _ _ read, where t = t and n = left and at = at and toRead = toRead
          and chunk = chunk and S = S and c = c] live less rest
      by (auto simp: live_def same left_def toRead_def chunk_def)
    note left = remaining_step [OF less, of "length chunk", folded left_def, OF stream(3)]
    from step now show ?thesis
      using fits out stream(4) left unfolding stream(2) by (auto simp: Let_def at')
  qed
qed

lemma write_serving:
  assumes s: "registered_as (session_at sv r) = registered_as s"
    and serving: "phase_serving content s out n r (Writing r chunk at t) c sv"
    and step: "conn_step S E (Writing r chunk at t) c sv = Some (ph, c', sv')"
  shows "phase_serving content s out n r ph c' sv'"
proof (cases rule: step_write_cases [of chunk c S E r at t sv, case_names full cut waits])
  case full
  with serving step show ?thesis by (auto simp: Let_def)
qed (use serving step in \<open>auto simp: Let_def\<close>)

lemma sent_serving:
  assumes "registered_as (session_at sv r) = registered_as s" and "live r sv" and "n \<le> length (events sv)"
    and "phase_serving content s out n r (Sent r err t) c sv"
  shows "phase_serving content s out n r Closed c (step_sent r err t sv)"
  using assms registered_as_fields [OF assms(1)] by (auto simp: step_sent_def Let_def live_def)

lemma own_turn_serving:
  assumes fs: "fs_laws E V" and held: "V (disk (server p)) (stream_path E (targetFilePath s)) = Some content"
    and turn: "thread_turn S E i p = Some p'" and serving: "download_serving content s out n i r p"
  shows "download_serving content s out n i r p'"
proof -
  let ?th = "threads p ! i"
  have r: "r < length (m_store (server p))" "registered_as (session_at (server p) r) = registered_as s"
    and n: "n \<le> length (events (server p))"
    using serving by (simp_all add: download_serving_def)
  from turn obtain ph c where i: "i < length (threads p)"
    and step: "conn_step S E (th_phase ?th) (th_conn ?th) (server p) = Some (ph, c, server p')"
    and ths: "threads p' = (threads p)[i := \<lparr>th_phase = ph, th_conn = c\<rparr>]"
    by (auto elim: thread_turnE)
  have kept: "kept (server p) (server p')" by (rule conn_step_kept [OF step])
  have "phase_serving content s out n r ph c (server p')" if "live r (server p')"
  proof -
    have live: "live r (server p)"
      using that kept_running [OF kept] kept_fields(8) [OF kept_static [OF kept, of r]] by (simp add: live_def)
    then have now: "phase_serving content s out n r (th_phase ?th) (th_conn ?th) (server p)"
      using serving by (simp add: download_serving_def)
    show ?thesis
    proof (cases "th_phase ?th")
      case (Sending r' at t)
      with now have r': "r' = r" by simp
      from send_serving [OF fs held r(2) live now [unfolded Sending r'] step [unfolded Sending r']] show ?thesis .
    next
      case (Writing r' chunk at t)
      with now have r': "r' = r" by simp
      from write_serving [OF r(2) now [unfolded Writing r'] step [unfolded Writing r']] show ?thesis .
    next
      case (Sent r' err t)
      with now have r': "r' = r" by simp
      from sent_serving [OF r(2) live n now [unfolded Sent r']] step show ?thesis by (simp add: Sent r')
    qed (use step now in auto)
  qed
  moreover have "n \<le> length (events (server p'))" using conn_step_events [OF step] n by auto
  moreover have "r < length (m_store (server p'))" "registered_as (session_at (server p') r) = registered_as s"
    using r kept registered_as_static [OF kept_static [OF kept, of r]] by (simp_all add: kept_def)
  ultimately show ?thesis using i ths by (simp add: download_serving_def)
qed

text \<open>Whatever the others do leaves the download alone.\<close>

lemma others_serving:
  assumes step: "pool_step S E m p = Some p'" and m: "m \<noteq> Turn i" and serving: "download_serving content s out n i r p"
  shows "download_serving content s out n i r p'"
proof -
  have i: "i < length (threads p)" and r: "r < length (m_store (server p))"
    and n: "n \<le> length (events (server p))" using serving by (simp_all add: download_serving_def)
  have grows: "grows (server p) (server p')" by (rule pool_step_grows [OF step])
  have same: "i < length (threads p')" "threads p' ! i = threads p ! i"
    using others_keep_thread [OF step m i] by simp_all
  from pool_step_events [OF step] obtain evs where evs: "events (server p') = events (server p) @ evs" ..
  have live: "live r (server p)" if "live r (server p')"
    using that pool_step_running [OF step] grows r by (auto simp: live_def grows_def)
  have later: "phase_serving content s out n r ph c (server p')" if "phase_serving content s out n r ph c (server p)" for ph c
    using that n by (cases ph) (auto simp: evs Let_def)
  have "r < length (m_store (server p'))" "registered_as (session_at (server p') r) = registered_as s"
    using grows r serving by (simp_all add: grows_def download_serving_def)
  moreover have "phase_serving content s out n r (th_phase (threads p ! i)) (th_conn (threads p ! i)) (server p')"
    if "live r (server p')"
    using later live that serving unfolding download_serving_def by blast
  ultimately show ?thesis using same n evs by (simp add: download_serving_def)
qed

lemma run_serving:
  assumes fs: "fs_laws E V"
  shows "pool_run S E ms p = Some q \<Longrightarrow> pool_safe p \<Longrightarrow> stream_path E (targetFilePath s) \<notin> temp_paths E (server q) \<Longrightarrow>
    V (disk (server p)) (stream_path E (targetFilePath s)) = Some content \<Longrightarrow>
    download_serving content s out n i r p \<Longrightarrow> download_serving content s out n i r q"
proof (induction ms arbitrary: p)
  case (Cons m ms)
  then obtain p1 where step: "pool_step S E m p = Some p1" and run: "pool_run S E ms p1 = Some q"
    by (auto simp: bind_eq_Some_conv)
  have "temp_paths E (server p) \<subseteq> temp_paths E (server q)"
    by (rule temp_paths_grows [OF grows_trans [OF pool_step_grows [OF step] pool_run_grows [OF run]]])
  with Cons.prems(3) have "V (disk (server p1)) (stream_path E (targetFilePath s)) = Some content"
    using spares_content [OF pool_step_spares [OF fs step Cons.prems(2)] _ Cons.prems(4)] by blast
  moreover have "download_serving content s out n i r p1"
    using own_turn_serving [OF fs Cons.prems(4), of S i p1] others_serving [OF step, of i] step Cons.prems(5)
    by (cases "m = Turn i") auto
  ultimately show ?case using Cons.IH [OF run pool_step_safe [OF step Cons.prems(2)] Cons.prems(3)] by blast
qed simp

lemma handshake_serving:
  assumes uid: "length uid = 16" "length tok = 32"
    and i: "i < length (threads p)" "th_phase (threads p ! i) = Handshaking"
    and c: "avail (incoming (th_conn (threads p ! i))) = handshake uid tok 1 @ tail"
    and sess: "find_session (server p) (uuid_string uid) = Some r" "s = session_at (server p) r" "token_ok s tok"
    and data: "fs_open_read E (disk (server p)) (targetFilePath s) = Some content" "unat (expectedSize s) \<le> length content"
    and room: "length (file_stream (unat (expectedSize s)) content) \<le> room (th_conn (threads p ! i))"
    and inv: "server_inv (server p)" and turn: "thread_turn S E i p = Some p'"
  shows "download_serving content s (sent (th_conn (threads p ! i)) @ file_stream (unat (expectedSize s)) content)
      (length (events (server p))) i r p'"
    and "th_phase (threads p' ! i) \<noteq> Handshaking"
    and "work_of i p' = 2 + 2 * unat (expectedSize s)"
    and "server p' = server p"
proof -
  let ?c = "th_conn (threads p ! i)"
  from turn i(2) obtain ph c' where step: "step_handshake S E ?c (server p) = Some (ph, c', server p')"
    and ths: "threads p' = (threads p)[i := \<lparr>th_phase = ph, th_conn = c'\<rparr>]"
    by (auto elim!: thread_turnE)
  have r: "r < length (m_store (server p))" by (rule find_session_valid(1) [OF inv sess(1)])
  from step_handshake_eq [OF uid c, of S E "server p"] step sess data(1) have
    now: "ph = Sending r (Some 0) 0" "server p' = server p" "sent c' = sent ?c" "room c' = room ?c"
    by (auto simp: Let_def)
  show "download_serving content s (sent ?c @ file_stream (unat (expectedSize s)) content) (length (events (server p))) i r p'"
    using i(1) ths r now data(2) room sess(2) by (simp add: download_serving_def file_rest_def Let_def)
  show "th_phase (threads p' ! i) \<noteq> Handshaking" "work_of i p' = 2 + 2 * unat (expectedSize s)" "server p' = server p"
    using i(1) ths now sess(2) by (simp_all add: work_of_def)
qed

text \<open>
  A download gets through: after two turns of its own for each byte announced, and two more, the
  thread has sent the frames of the announced part of the file and reported success.
\<close>

lemma download_completes:
  assumes "fs_laws E V" and "pool_safe p" and "i < length (threads p)" and "th_phase (threads p ! i) = Handshaking"
    and "length uid = 16" and "length tok = 32"
    and "avail (incoming (th_conn (threads p ! i))) = handshake uid tok 1 @ tail"
    and "find_session (server p) (uuid_string uid) = Some r" and "s = session_at (server p) r"
    and "token_ok s tok" and "fs_open_read E (disk (server p)) (targetFilePath s) = Some content"
    and "unat (expectedSize s) \<le> length content"
    and "length (file_stream (unat (expectedSize s)) content) \<le> room (th_conn (threads p ! i))"
    and "pool_run S E (Turn i # ms) p = Some q" and "2 + 2 * unat (expectedSize s) \<le> count_list ms (Turn i)"
    and "live r (server q)" and "stream_path E (targetFilePath s) \<notin> temp_paths E (server q)"
  shows "th_phase (threads q ! i) = Closed \<and>
    sent (th_conn (threads q ! i)) = sent (th_conn (threads p ! i)) @ file_stream (unat (expectedSize s)) content \<and>
    OnFinished (transferId s) True [] \<in> set (drop (length (events (server p))) (events (server q)))"
proof -
  from assms(14) obtain p1 where turn: "thread_turn S E i p = Some p1" and run: "pool_run S E ms p1 = Some q"
    by (auto simp: bind_eq_Some_conv)
  have "server_inv (server p)" using assms(2) by (simp add: pool_safe_def)
  note start = handshake_serving [OF assms(5,6,3,4,7,8,9,10,11,12,13) this turn]
  have safe: "pool_safe p1" using pool_step_safe [of S E "Turn i" p p1] turn assms(2) by simp
  have held: "V (disk (server p1)) (stream_path E (targetFilePath s)) = Some content"
    unfolding start(4) by (rule fs_lawsD(9) [OF assms(1,11)])
  have "i < length (threads p1)" using start(1) by (simp add: download_serving_def)
  from pool_thread_finishes [OF run safe this start(2)] start(3) assms(15)
  have "th_phase (threads q ! i) = Closed" by simp
  with run_serving [OF assms(1) run safe assms(17) held start(1)] assms(16) show ?thesis
    by (simp add: download_serving_def)
qed

end
