(* ===== verification/Program.thy ===== *)
theory Program
  imports ApplicationTransfers TransferServing
begin

text \<open>
  The running program with all its threads: the steps of the application interleave with the
  connection threads of the file transfers, which call back into the transfer manager and through
  it into the WebSocket server and the main thread's queue. Every step keeps the program sound;
  its transfer server with its threads does nothing but the moves of the pool (theory
  \<open>TransferThreads\<close>), so what holds of the pool holds in the program; and every end of a
  transfer is signalled. The properties are in the theory \<open>ProgramProperties\<close>.
\<close>

section \<open>The program\<close>

record ('h, 'f, 'w) program =
  connections :: "'h thread list"
  whole :: "('f, 'w) App"

text \<open>The accept loop of the transfer server starts a thread; a thread takes a turn.\<close>

definition accept_transfer :: "connection \<Rightarrow> ('h, 'f, 'w) program \<Rightarrow> ('h, 'f, 'w) program option" where
  "accept_transfer c x =
     (case a_files (app (whole x)) of
        None \<Rightarrow> None
      | Some m \<Rightarrow>
          if m_running (m_server m)
          then Some (x\<lparr>connections := connections x @ [\<lparr>th_phase = Handshaking, th_conn = c\<rparr>]\<rparr>) else None)"

definition transfer_turn ::
  "'j json_api \<Rightarrow> 'h sodium_api \<Rightarrow> 'f os_api \<Rightarrow> nat \<Rightarrow> ('h, 'f, 'w) program \<Rightarrow> ('h, 'f, 'w) program option" where
  "transfer_turn J S E i x =
     (case a_files (app (whole x)) of
        None \<Rightarrow> None
      | Some m \<Rightarrow>
          if i < length (connections x) then
            map_option (\<lambda>(ph, c, m').
                \<lparr>connections = (connections x)[i := \<lparr>th_phase = ph, th_conn = c\<rparr>], whole = deliver_files m m' (whole x)\<rparr>)
              (manager_turn J S E (th_phase (connections x ! i)) (th_conn (connections x ! i)) m)
          else None)"

datatype prog_label = InApp | Connects connection | TransferTurn nat

inductive prog_step ::
  "'j json_api \<Rightarrow> 'h sodium_api \<Rightarrow> 'f os_api \<Rightarrow> 'f platform_api \<Rightarrow> 'w adb_api \<Rightarrow> (rat \<Rightarrow> rat) \<Rightarrow>
   (VideoDecoder \<Rightarrow> bool) \<Rightarrow> (picture \<Rightarrow> int \<Rightarrow> int \<Rightarrow> pixel list list) \<Rightarrow> (softcam \<Rightarrow> bool) \<Rightarrow>
   prog_label \<Rightarrow> ('h, 'f, 'w) program \<Rightarrow> ('h, 'f, 'w) program \<Rightarrow> bool" for J S E P A rnd getContext scale SC where
  pg_app: "app_step J S E P A rnd getContext scale SC (whole x) w \<Longrightarrow>
    prog_step J S E P A rnd getContext scale SC InApp x (x\<lparr>whole := w\<rparr>)"
| pg_accept: "accept_transfer c x = Some y \<Longrightarrow>
    prog_step J S E P A rnd getContext scale SC (Connects c) x y"
| pg_turn: "transfer_turn J S E i x = Some y \<Longrightarrow>
    prog_step J S E P A rnd getContext scale SC (TransferTurn i) x y"

text \<open>A run in which \<open>Q\<close> holds in every state, with what was done.\<close>

inductive prog_run ::
  "'j json_api \<Rightarrow> 'h sodium_api \<Rightarrow> 'f os_api \<Rightarrow> 'f platform_api \<Rightarrow> 'w adb_api \<Rightarrow> (rat \<Rightarrow> rat) \<Rightarrow>
   (VideoDecoder \<Rightarrow> bool) \<Rightarrow> (picture \<Rightarrow> int \<Rightarrow> int \<Rightarrow> pixel list list) \<Rightarrow> (softcam \<Rightarrow> bool) \<Rightarrow>
   (('h, 'f, 'w) program \<Rightarrow> bool) \<Rightarrow> ('h, 'f, 'w) program \<Rightarrow> prog_label list \<Rightarrow> ('h, 'f, 'w) program \<Rightarrow> bool"
  for J S E P A rnd getContext scale SC Q where
  pg_refl: "Q x \<Longrightarrow> prog_run J S E P A rnd getContext scale SC Q x [] x"
| pg_step: "prog_run J S E P A rnd getContext scale SC Q x ls y \<Longrightarrow>
    prog_step J S E P A rnd getContext scale SC l y z \<Longrightarrow> Q z \<Longrightarrow>
    prog_run J S E P A rnd getContext scale SC Q x (ls @ [l]) z"

definition started :: "('f, 'w) App \<Rightarrow> ('h, 'f, 'w) program" where
  "started w = \<lparr>connections = [], whole = w\<rparr>"

section \<open>Every step keeps the program sound\<close>

definition prog_ok ::
  "'j json_api \<Rightarrow> 'h sodium_api \<Rightarrow> 'f os_api \<Rightarrow> 'f platform_api \<Rightarrow> (rat \<Rightarrow> rat) \<Rightarrow> (VideoDecoder \<Rightarrow> bool) \<Rightarrow>
   (picture \<Rightarrow> int \<Rightarrow> int \<Rightarrow> pixel list list) \<Rightarrow> (softcam \<Rightarrow> bool) \<Rightarrow> ('h, 'f, 'w) program \<Rightarrow> bool" where
  "prog_ok J S E P rnd getContext scale SC x \<longleftrightarrow> app_ok J S E P rnd getContext scale SC (whole x)"

lemma transfer_turnE:
  assumes "transfer_turn J S E i x = Some y"
  obtains m ph c m' where "a_files (app (whole x)) = Some m" and "i < length (connections x)"
    and "manager_turn J S E (th_phase (connections x ! i)) (th_conn (connections x ! i)) m = Some (ph, c, m')"
    and "connections y = (connections x)[i := \<lparr>th_phase = ph, th_conn = c\<rparr>]" and "whole y = deliver_files m m' (whole x)"
  using assms by (auto simp: transfer_turn_def split: option.splits if_splits)

lemma prog_step_ok:
  assumes "prog_step J S E P A rnd getContext scale SC l x y" and "prog_ok J S E P rnd getContext scale SC x"
  shows "prog_ok J S E P rnd getContext scale SC y"
  using assms(1)
proof (cases rule: prog_step.cases)
  case (pg_app w)
  with app_step_ok [OF pg_app(3)] assms(2) show ?thesis by (simp add: prog_ok_def)
next
  case (pg_accept c)
  with assms(2) show ?thesis by (auto simp: accept_transfer_def prog_ok_def split: option.splits if_splits)
next
  case (pg_turn i)
  from pg_turn(2) obtain m ph c m' where m: "a_files (app (whole x)) = Some m"
    "manager_turn J S E (th_phase (connections x ! i)) (th_conn (connections x ! i)) m = Some (ph, c, m')"
    "whole y = deliver_files m m' (whole x)" by (rule transfer_turnE)
  from deliver_ok [OF assms(2) [unfolded prog_ok_def] m(1) ms_turn [OF m(2)]] m(3) show ?thesis
    by (simp add: prog_ok_def)
qed

lemma prog_run_ok:
  "prog_run J S E P A rnd getContext scale SC Q x ls y \<Longrightarrow> prog_ok J S E P rnd getContext scale SC x \<Longrightarrow>
   prog_ok J S E P rnd getContext scale SC y"
  by (induction rule: prog_run.induct) (auto intro: prog_step_ok)

section \<open>What the owner of the transfer server does to it\<close>

fun owner_move :: "pool_move \<Rightarrow> bool" where
  "owner_move (Accepted c) = False"
| "owner_move (Turn i) = False"
| "owner_move _ = True"

text \<open>Moves of the owner depend on the server alone and leave the threads alone.\<close>

definition owner_reaches ::
  "'h sodium_api \<Rightarrow> 'f os_api \<Rightarrow> 'f FileTransferServer \<Rightarrow> 'f FileTransferServer \<Rightarrow> bool" where
  "owner_reaches S E sv sv' \<longleftrightarrow>
     (\<exists>ms. list_all owner_move ms \<and>
        (\<forall>ths. pool_run S E ms \<lparr>threads = ths, server = sv\<rparr> = Some \<lparr>threads = ths, server = sv'\<rparr>))"

lemma pool_run_append:
  "pool_run S E (ms @ ns) p = Option.bind (pool_run S E ms p) (pool_run S E ns)"
proof (induction ms arbitrary: p)
  case (Cons m ms)
  then show ?case by (cases "pool_step S E m p") simp_all
qed simp

lemma owner_refl [simp]: "owner_reaches S E sv sv"
  unfolding owner_reaches_def by (rule exI [of _ "[]"]) simp

lemma owner_trans: "owner_reaches S E a b \<Longrightarrow> owner_reaches S E b c \<Longrightarrow> owner_reaches S E a c"
proof -
  assume "owner_reaches S E a b" "owner_reaches S E b c"
  then obtain ms ns where "list_all owner_move (ms @ ns)"
    "\<forall>ths. pool_run S E (ms @ ns) \<lparr>threads = ths, server = a\<rparr> = Some \<lparr>threads = ths, server = c\<rparr>"
    by (auto simp: owner_reaches_def pool_run_append)
  then show "owner_reaches S E a c" unfolding owner_reaches_def by blast
qed

lemma owner_one:
  assumes "owner_move mv" and "\<And>ths. pool_step S E mv \<lparr>threads = ths, server = sv\<rparr> = Some \<lparr>threads = ths, server = sv'\<rparr>"
  shows "owner_reaches S E sv sv'"
  unfolding owner_reaches_def using assms by (intro exI [of _ "[mv]"]) simp

lemma owner_moves:
  "owner_reaches S E sv (registerTransfer k b tok path n h d sv)"
  "owner_reaches S E sv (sv\<lparr>disk := fs_mkpath E (disk sv) dir\<rparr>)"
  "owner_reaches S E sv (cancelTransfer E k sv)"
  "owner_reaches S E sv (server_stop E sv)"
  by (rule owner_one [of "Registered k b tok path n h d"], simp, simp)
    (rule owner_one [of "MakesPath dir"], simp, simp,
     rule owner_one [of "Cancels k"], simp, simp, rule owner_one [of Stops], simp, simp)

lemma handleFileOffer_moves: "owner_reaches S E (m_server m) (m_server (handleFileOffer J S E P sid payload m))"
  by (auto simp: handleFileOffer_def generateToken_eq Let_def split: sum.split
      intro: owner_trans [OF owner_moves(2) owner_moves(1)])

lemma send_one_moves: "owner_reaches S E (m_server m) (m_server (send_one J S E P sid path m))"
  by (auto simp: send_one_def randombytes_buf_def generateToken_eq Let_def owner_moves split: option.split)

lemma sendFiles_moves: "owner_reaches S E (m_server m) (m_server (sendFiles J S E P sid paths m))"
proof -
  have "owner_reaches S E (m_server m) (m_server (fold (send_one J S E P sid') paths m))" for sid'
    by (induction paths arbitrary: m) (auto intro: owner_trans send_one_moves)
  then show ?thesis by (simp add: sendFiles_def Let_def)
qed

lemma handlers_move:
  "handleFileAccept J S P sid payload m = Inr m' \<Longrightarrow> owner_reaches S E (m_server m) (m_server m')"
  "handleFileReject J E sid payload m = Inr m' \<Longrightarrow> owner_reaches S E (m_server m) (m_server m')"
  "handleFileComplete J sid payload m = Inr m' \<Longrightarrow> owner_reaches S E (m_server m) (m_server m')"
  "handleFileCancel J E sid payload m = Inr m' \<Longrightarrow> owner_reaches S E (m_server m) (m_server m')"
  by (auto simp: handleFileAccept_def handleFileReject_def handleFileComplete_def handleFileCancel_def bindE_Inr_iff
      generateToken_eq Let_def owner_moves split: option.splits if_splits)

text \<open>The application over its transfer server, wherever that has got to from \<open>sv\<close>.\<close>

definition server_from :: "'h sodium_api \<Rightarrow> 'f os_api \<Rightarrow> 'f FileTransferServer \<Rightarrow> ('f, 'w) App \<Rightarrow> bool" where
  "server_from S E sv w \<longleftrightarrow> (\<exists>m. a_files (app w) = Some m \<and> owner_reaches S E sv (m_server m))"

lemma server_from_same:
  "a_files (app w') = a_files (app w) \<Longrightarrow> server_from S E sv w \<Longrightarrow> server_from S E sv w'"
  by (simp add: server_from_def)

lemma run_files_from:
  assumes "server_from S E sv w" and "run_files g w = Inr w'"
    and "\<And>m m'. g m = Inr m' \<Longrightarrow> owner_reaches S E (m_server m) (m_server m')"
  shows "server_from S E sv w'"
proof -
  from assms(1) obtain m where m: "a_files (app w) = Some m" "owner_reaches S E sv (m_server m)"
    by (auto simp: server_from_def)
  with assms(2) obtain m' where m': "g m = Inr m'" "w' = deliver_files m m' w"
    by (auto simp: run_files_def bindE_Inr_iff)
  from owner_trans [OF m(2) assms(3) [OF m'(1)]] show ?thesis
    by (simp add: server_from_def m'(2) deliver_files_def)
qed

lemma callbacks_from:
  "callbacks_keep (server_from S E sv) (session_callbacks (app_callbacks J S E P))"
proof -
  let ?from = "server_from S E sv"
  have files: "?from w'" if "?from w" "run_files (\<lambda>m. Inr (g m)) w = Inr w'" "\<And>m. owner_reaches S E (m_server m) (m_server (g m))"
    for g w w'
    by (rule run_files_from [OF that(1,2)]) (use that(3) in auto)
  have connect: "?from w'" if "?from w" "on_device_connected sid name w = Inr w'" for sid name w w'
    by (rule files [OF that(1) that(2) [unfolded on_device_connected_def]]) (simp add: setCurrentSession_def)
  have disconnect: "?from w'" if "?from w" "on_device_disconnected sid w = Inr w'" for sid w w'
    by (rule files [OF that(1) that(2) [unfolded on_device_disconnected_def]]) (simp add: setCurrentSession_def)
  have removed: "?from (removeSession sid w)" if "?from w" for sid w
    using that by (simp add: server_from_def)
  have posted: "?from (post c w)" if "?from w" for c w
    using that by (simp add: server_from_def post_def)
  have pair: "?from w'" if "?from w" "on_pair_request J S sid payload w = Inr w'" for sid payload w w'
    using that
    by (auto simp: on_pair_request_def on_paired_def post_def server_from_def bindE_Inr_iff Let_def split: option.splits)
  have offer: "?from w'" if "?from w" "run_files (\<lambda>m. Inr (handleFileOffer J S E P sid payload m)) w = Inr w'"
    for sid payload w w'
    by (rule files [OF that]) (rule handleFileOffer_moves)
  have others: "?from w'" if "?from w"
      "run_files (handleFileAccept J S P sid payload) w = Inr w' \<or> run_files (handleFileReject J E sid payload) w = Inr w' \<or>
       run_files (handleFileComplete J sid payload) w = Inr w' \<or> run_files (handleFileCancel J E sid payload) w = Inr w'"
    for sid payload w w'
    using that(2) by (elim disjE) (erule run_files_from [OF that(1)], rule handlers_move, assumption)+
  show ?thesis
    unfolding callbacks_keep_def keeps1_def keeps2_def session_callbacks_def app_callbacks_def
    by (auto simp: call1_def call2_def intro: posted pair connect disconnect removed offer others)
qed

text \<open>What the main thread does without the transfer manager.\<close>

lemma run_call_files: "run_call J c w = Inr w' \<Longrightarrow> a_files (app w') = a_files (app w)"
  by (cases c) (auto simp: on_tray_def if_tray_def apply_flip_def split: option.splits)

lemma tray_click_files: "tray_click_step J c w = Inr w' \<Longrightarrow> a_files (app w') = a_files (app w)"
  by (cases c) (auto simp: tray_click_step_def apply_flip_def Let_def split: option.splits)

lemma app_step_from:
  assumes "app_step J S E P A rnd getContext scale SC w w'" and "server_from S E sv w"
  shows "server_from S E sv w'"
  using assms(1)
proof (cases rule: app_step.cases)
  case (as_read sid received)
  then obtain w1 msgs again where r: "onRead J (session_callbacks (app_callbacks J S E P)) sid received w = Inr (w1, msgs, again)"
    "w' = fold (ws_sendTo sid) msgs w1" by (auto simp: ws_read_def bindE_Inr_iff)
  have "server_from S E sv w1" by (rule onRead_keeps [OF callbacks_from r(1) assms(2)])
  then show ?thesis by (simp add: r(2) server_from_def)
next
  case as_call
  then have "a_files (app w') = a_files (app w)"
    by (auto simp: run_next_def dest: run_call_files split: list.splits)
  then show ?thesis using assms(2) by (rule server_from_same)
next
  case (as_click c)
  with tray_click_files assms(2) show ?thesis by (blast intro: server_from_same)
next
  case (as_send paths)
  show ?thesis
  proof (cases "paths = []")
    case False
    with as_send have "run_files (\<lambda>m. Inr (sendFiles J S E P 0 paths m)) w = Inr w'" by (simp add: send_files_def)
    then show ?thesis by (rule run_files_from [OF assms(2)]) (use sendFiles_moves in auto)
  qed (use as_send assms(2) in \<open>simp add: send_files_def\<close>)
next
  case (as_quit ends)
  obtain m where "a_files (app w) = Some m" "a_files (app w') = Some (manager_stop E m)"
    by (rule about_to_quitE [OF as_quit]) simp
  with assms(2) show ?thesis
    by (auto simp: server_from_def manager_stop_def intro: owner_trans owner_moves(4))
qed (use assms(2) in \<open>auto simp: server_from_def open_pairing_def close_pairing_def open_downloads_def on_stream_def
      post_def adb_turn_def split: option.splits prod.splits if_splits\<close>)

section \<open>The program refines the pool\<close>

definition the_server :: "('h, 'f, 'w) program \<Rightarrow> 'f FileTransferServer" where
  "the_server x = m_server (the (a_files (app (whole x))))"

definition pool_of :: "('h, 'f, 'w) program \<Rightarrow> ('h, 'f) pool" where
  "pool_of x = \<lparr>threads = connections x, server = the_server x\<rparr>"

fun shown :: "prog_label \<Rightarrow> pool_move list" where
  "shown InApp = []"
| "shown (Connects c) = [Accepted c]"
| "shown (TransferTurn i) = [Turn i]"

text \<open>A step is some moves: the one its label shows, or moves of the owner only.\<close>

lemma prog_step_moves:
  assumes "prog_step J S E P A rnd getContext scale SC l x y" and "a_files (app (whole x)) \<noteq> None"
  shows "a_files (app (whole y)) \<noteq> None \<and>
    (\<exists>ms. pool_run S E ms (pool_of x) = Some (pool_of y) \<and> filter (\<lambda>m. \<not> owner_move m) ms = shown l \<and>
      (list_all owner_move ms \<or> ms = shown l))"
  using assms(1)
proof (cases rule: prog_step.cases)
  case (pg_app w)
  have "server_from S E (the_server x) (whole x)" using assms(2) by (auto simp: server_from_def the_server_def)
  from app_step_from [OF pg_app(3) this] obtain m ms where m: "a_files (app w) = Some m" "list_all owner_move ms"
    "\<forall>ths. pool_run S E ms \<lparr>threads = ths, server = the_server x\<rparr> = Some \<lparr>threads = ths, server = m_server m\<rparr>"
    by (auto simp: server_from_def owner_reaches_def)
  moreover have "filter (\<lambda>m. \<not> owner_move m) ms = []" using m(2) by (auto simp: filter_empty_conv list_all_iff)
  ultimately show ?thesis using pg_app(1,2) by (auto simp: pool_of_def the_server_def)
next
  case (pg_accept c)
  from pg_accept(2) obtain m where "a_files (app (whole x)) = Some m" "m_running (m_server m)"
    "y = x\<lparr>connections := connections x @ [\<lparr>th_phase = Handshaking, th_conn = c\<rparr>]\<rparr>"
    by (auto simp: accept_transfer_def split: option.splits if_splits)
  with pg_accept(1) show ?thesis
    by (intro conjI exI [of _ "[Accepted c]"]) (simp_all add: pool_of_def the_server_def acceptLoop_def)
next
  case (pg_turn i)
  from pg_turn(2) obtain m ph c m' where m: "a_files (app (whole x)) = Some m" "i < length (connections x)"
    "manager_turn J S E (th_phase (connections x ! i)) (th_conn (connections x ! i)) m = Some (ph, c, m')"
    "connections y = (connections x)[i := \<lparr>th_phase = ph, th_conn = c\<rparr>]" "whole y = deliver_files m m' (whole x)"
    by (rule transfer_turnE)
  from m(3) have "conn_step S E (th_phase (connections x ! i)) (th_conn (connections x ! i)) (m_server m) = Some (ph, c, m_server m')"
    by (auto simp: manager_turn_eq)
  with m pg_turn(1) show ?thesis
    by (intro conjI exI [of _ "[Turn i]"]) (simp_all add: pool_of_def the_server_def thread_turn_def deliver_files_def)
qed

lemma prog_run_moves:
  assumes "prog_run J S E P A rnd getContext scale SC Q x ls y" and "a_files (app (whole x)) \<noteq> None"
  shows "a_files (app (whole y)) \<noteq> None \<and>
    (\<exists>ms. pool_run S E ms (pool_of x) = Some (pool_of y) \<and> filter (\<lambda>m. \<not> owner_move m) ms = concat (map shown ls))"
  using assms
proof (induction rule: prog_run.induct)
  case (pg_refl x)
  then show ?case by (auto intro: exI [of _ "[]"])
next
  case (pg_step x ls y l z)
  then obtain ms where ms: "pool_run S E ms (pool_of x) = Some (pool_of y)"
    "filter (\<lambda>m. \<not> owner_move m) ms = concat (map shown ls)" and "a_files (app (whole y)) \<noteq> None" by auto
  with prog_step_moves [OF pg_step.hyps(2)] obtain ns where "a_files (app (whole z)) \<noteq> None"
    "pool_run S E ns (pool_of y) = Some (pool_of z)" "filter (\<lambda>m. \<not> owner_move m) ns = shown l" by blast
  with ms show ?case by (intro conjI exI [of _ "ms @ ns"]) (simp_all add: pool_run_append)
qed

text \<open>A reachable program, and what of its pool is known without asking about names.\<close>

definition prog_reachable ::
  "'j json_api \<Rightarrow> 'h sodium_api \<Rightarrow> 'f os_api \<Rightarrow> 'f platform_api \<Rightarrow> 'w adb_api \<Rightarrow> (rat \<Rightarrow> rat) \<Rightarrow>
   (VideoDecoder \<Rightarrow> bool) \<Rightarrow> (picture \<Rightarrow> int \<Rightarrow> int \<Rightarrow> pixel list list) \<Rightarrow> (softcam \<Rightarrow> bool) \<Rightarrow>
   'f qfile_api \<Rightarrow> ('h, 'f, 'w) program \<Rightarrow> bool" where
  "prog_reachable J S E P A rnd getContext scale SC Q x \<longleftrightarrow>
     (\<exists>b f st w0 ls. be_codec b \<and> app_init S A Q b (new_app f st) = Inr (True, w0) \<and>
        prog_run J S E P A rnd getContext scale SC (\<lambda>_. True) (started w0) ls x)"

lemma prog_reachable_ok:
  assumes "prog_reachable J S E P A rnd getContext scale SC Q x"
  shows "prog_ok J S E P rnd getContext scale SC x"
proof -
  from assms obtain b f st w0 ls where "be_codec b" "app_init S A Q b (new_app f st) = Inr (True, w0)"
    and run: "prog_run J S E P A rnd getContext scale SC (\<lambda>_. True) (started w0) ls x"
    by (auto simp: prog_reachable_def)
  then have "prog_ok J S E P rnd getContext scale SC (started w0)"
    using app_init_ok by (simp add: prog_ok_def started_def)
  with prog_run_ok [OF run] show ?thesis .
qed

lemma prog_ok_files: "prog_ok J S E P rnd getContext scale SC x \<Longrightarrow> a_files (app (whole x)) \<noteq> None"
  by (auto simp: prog_ok_def app_ok_def parts_ok_def)

lemma prog_ok_server: "prog_ok J S E P rnd getContext scale SC x \<Longrightarrow> server_inv (the_server x)"
  by (auto simp: prog_ok_def app_ok_def parts_ok_def the_server_def manager_inv_def good_server_def
      dest: manager_reachable_good)

lemma prog_reachable_safe:
  assumes "prog_reachable J S E P A rnd getContext scale SC Q x"
  shows "pool_safe (pool_of x)"
proof -
  from assms obtain b f st w0 ls where init: "be_codec b" "app_init S A Q b (new_app f st) = Inr (True, w0)"
    and run: "prog_run J S E P A rnd getContext scale SC (\<lambda>_. True) (started w0) ls x"
    by (auto simp: prog_reachable_def)
  have "prog_reachable J S E P A rnd getContext scale SC Q (started w0 :: ('b, 'c, 'd) program)"
    using init pg_refl by (fastforce simp: prog_reachable_def)
  note ok = prog_reachable_ok [OF this]
  have "pool_safe (pool_of (started w0 :: ('b, 'c, 'd) program))"
    using prog_ok_server [OF ok] by (simp add: pool_safe_def pool_of_def started_def)
  with prog_run_moves [OF run prog_ok_files [OF ok]] show ?thesis by (auto dest: pool_run_safe)
qed

section \<open>An upload that has its temporary file to itself, in the program\<close>

definition upload_alone :: "'f os_api \<Rightarrow> nat \<Rightarrow> nat \<Rightarrow> ('h, 'f, 'w) program \<Rightarrow> bool" where
  "upload_alone E i r x \<longleftrightarrow> alone E i r (pool_of x)"

lemma alone_before:
  assumes "grows (server p) (server q)" and "threads q = threads p" and "r < length (m_store (server p))" and "alone E i r q"
  shows "alone E i r p"
proof -
  have temp: "tempFilePath (session_at (server q) k) = tempFilePath (session_at (server p) k)"
    if "k < length (m_store (server p))" for k
    using assms(1) that by (intro registered_as_fields(4)) (simp add: grows_def)
  have more: "k < length (m_store (server q))" if "k < length (m_store (server p))" for k
    using assms(1) that by (simp add: grows_def)
  have "tempFilePath (session_at (server p) r) \<notin> temp_names E (session_at (server p) k)"
    if "k < length (m_store (server p))" "k \<noteq> r" for k
    using assms(4) more [OF that(1)] that(2)
    unfolding temp_names_cong [OF temp [OF that(1), symmetric]] temp [OF assms(3), symmetric]
    by (simp add: alone_def)
  with assms(2,4) show ?thesis by (simp add: alone_def)
qed

lemma owner_run_threads: "pool_run S E ms p = Some q \<Longrightarrow> list_all owner_move ms \<Longrightarrow> threads q = threads p"
proof (induction ms arbitrary: p)
  case (Cons m ms)
  then obtain p1 where "pool_step S E m p = Some p1" "pool_run S E ms p1 = Some q" by (auto simp: bind_eq_Some_conv)
  moreover from this(1) Cons.prems(2) have "threads p1 = threads p" by (cases m) auto
  ultimately show ?case using Cons by auto
qed simp

lemma owner_runs_alone:
  "pool_run S E ms p = Some q \<Longrightarrow> list_all owner_move ms \<Longrightarrow> r < length (m_store (server p)) \<Longrightarrow> alone E i r q \<Longrightarrow>
   runs_alone S E i r ms p"
proof (induction ms arbitrary: p)
  case (Cons m ms)
  then obtain p1 where step: "pool_step S E m p = Some p1" and run: "pool_run S E ms p1 = Some q"
    by (auto simp: bind_eq_Some_conv)
  have "r < length (m_store (server p1))" using pool_step_grows [OF step] Cons.prems(3) by (simp add: grows_def)
  moreover have "alone E i r p"
    by (rule alone_before [OF pool_run_grows [OF Cons.prems(1)] owner_run_threads [OF Cons.prems(1,2)] Cons.prems(3,4)])
  ultimately show ?case using Cons.IH [OF run] Cons.prems(2,4) step by simp
qed simp

lemma runs_alone_append:
  "pool_run S E ms p = Some q \<Longrightarrow> runs_alone S E i r ms p \<Longrightarrow> runs_alone S E i r ns q \<Longrightarrow> runs_alone S E i r (ms @ ns) p"
  by (induction ms arbitrary: p) (auto simp: bind_eq_Some_conv)

lemma prog_run_alone:
  assumes "prog_run J S E P A rnd getContext scale SC (upload_alone E i r) x ls y" and "a_files (app (whole x)) \<noteq> None"
    and "r < length (m_store (the_server x))"
  shows "a_files (app (whole y)) \<noteq> None \<and> (\<exists>ms. pool_run S E ms (pool_of x) = Some (pool_of y) \<and>
    filter (\<lambda>m. \<not> owner_move m) ms = concat (map shown ls) \<and> runs_alone S E i r ms (pool_of x))"
  using assms
proof (induction rule: prog_run.induct)
  case (pg_refl x)
  then show ?case by (auto intro!: exI [of _ "[]"] simp: upload_alone_def)
next
  case (pg_step x ls y l z)
  then obtain ms where ms: "pool_run S E ms (pool_of x) = Some (pool_of y)"
    "filter (\<lambda>m. \<not> owner_move m) ms = concat (map shown ls)" "runs_alone S E i r ms (pool_of x)"
    and y: "a_files (app (whole y)) \<noteq> None" by auto
  note moved = prog_step_moves [OF pg_step.hyps(2) y]
  then have z: "a_files (app (whole z)) \<noteq> None" by (rule conjunct1)
  from moved [THEN conjunct2] obtain ns where
    ns: "pool_run S E ns (pool_of y) = Some (pool_of z)" "filter (\<lambda>m. \<not> owner_move m) ns = shown l"
    "list_all owner_move ns \<or> ns = shown l" by (elim exE conjE)
  have alone_y: "alone E i r (pool_of y)"
    using pg_step.hyps(1) by (auto elim: prog_run.cases simp: upload_alone_def)
  have alone_z: "alone E i r (pool_of z)" using pg_step.hyps(3) by (simp add: upload_alone_def)
  have r: "r < length (m_store (server (pool_of y)))"
    using pool_run_grows [OF ms(1)] pg_step.prems(2) by (simp add: grows_def pool_of_def)
  have "runs_alone S E i r ns (pool_of y)"
  proof (cases "list_all owner_move ns")
    case True
    from owner_runs_alone [OF ns(1) True r alone_z] show ?thesis .
  next
    case False
    with ns(3) alone_y alone_z ns(1) show ?thesis by (cases l) (auto simp: bind_eq_Some_conv)
  qed
  with ms ns z show ?case
    by (intro conjI exI [of _ "ms @ ns"]) (simp_all add: pool_run_append runs_alone_append)
qed

text \<open>Names that are plain at the end were plain when they were registered.\<close>

lemma run_plain:
  "pool_run S E ms p = Some q \<Longrightarrow> plain_targets E (server q) \<Longrightarrow> list_all (move_ok E) ms \<and> plain_targets E (server p)"
proof (induction ms arbitrary: p)
  case (Cons m ms)
  then obtain p1 where step: "pool_step S E m p = Some p1" and run: "pool_run S E ms p1 = Some q"
    by (auto simp: bind_eq_Some_conv)
  from Cons.IH [OF run Cons.prems(2)] have later: "list_all (move_ok E) ms" "plain_targets E (server p1)" by auto
  have "move_ok E m"
  proof (cases m)
    case (Registered k b tok path n h d)
    with step have "session_at (server p1) (length (m_store (server p))) = new_session k b tok path n h d"
      "length (m_store (server p)) < length (m_store (server p1))"
      by (auto simp: session_at_def)
    with later(2) Registered show ?thesis by (force simp: plain_targets_def new_session_def)
  qed simp_all
  moreover have "plain_targets E (server p)"
    using later(2) pool_step_grows [OF step] registered_as_fields(3)
    unfolding plain_targets_def grows_def by (metis order_less_le_trans)
  ultimately show ?case using later(1) by simp
qed simp

lemma count_turns:
  "count_list ms (Turn i) = count_list (filter (\<lambda>m. \<not> owner_move m) ms) (Turn i)"
proof (induction ms)
  case (Cons m ms)
  then show ?case by (cases m) auto
qed simp

lemma count_replicate: "count_list (replicate n l) l = n"
  by (induction n) simp_all

lemma count_shown: "count_list (concat (map shown ls)) (Turn i) = count_list ls (TransferTurn i)"
proof (induction ls)
  case (Cons l ls)
  then show ?case by (cases l) auto
qed simp

section \<open>Every end of a transfer is signalled\<close>

definition ends_signalled :: "'f FileTransferManager \<Rightarrow> bool" where
  "ends_signalled m \<longleftrightarrow>
     (\<forall>tid ok err. OnFinished tid ok err \<in> set (events (m_server m)) \<longrightarrow>
        (\<exists>name. TransferFinished tid name ok err \<in> set (signals m)))"

lemma on_event_signals:
  "\<exists>sgs. signals (on_event J ev m) = signals m @ sgs \<and>
     (\<forall>tid ok err. ev = OnFinished tid ok err \<longrightarrow> (\<exists>name. TransferFinished tid name ok err \<in> set sgs))"
  by (cases ev) (auto simp: onProgress_def onFinished_def Let_def split: option.split)

lemma on_events_signals:
  "\<exists>sgs. signals (fold (on_event J) evs m) = signals m @ sgs \<and>
     (\<forall>tid ok err. OnFinished tid ok err \<in> set evs \<longrightarrow> (\<exists>name. TransferFinished tid name ok err \<in> set sgs))"
proof (induction evs arbitrary: m)
  case (Cons ev evs)
  from on_event_signals [of J ev m] obtain a where a: "signals (on_event J ev m) = signals m @ a"
    "\<And>tid ok err. ev = OnFinished tid ok err \<Longrightarrow> \<exists>name. TransferFinished tid name ok err \<in> set a" by blast
  from Cons.IH [of "on_event J ev m"] obtain b where
    "signals (fold (on_event J) evs (on_event J ev m)) = signals (on_event J ev m) @ b"
    "\<And>tid ok err. OnFinished tid ok err \<in> set evs \<Longrightarrow> \<exists>name. TransferFinished tid name ok err \<in> set b" by blast
  with a show ?case by (intro exI [of _ "a @ b"]) fastforce
qed simp

lemma behind_signalled:
  assumes "ends_signalled m" and "events sv = events (m_server m) @ evs"
  shows "ends_signalled (behind J m sv)"
proof -
  have new: "behind J m sv = fold (on_event J) evs (m\<lparr>m_server := sv\<rparr>)"
    using assms(2) by (simp add: behind_def)
  from on_events_signals [of J evs "m\<lparr>m_server := sv\<rparr>"] obtain sgs where
    "signals (behind J m sv) = signals m @ sgs"
    "\<And>tid ok err. OnFinished tid ok err \<in> set evs \<Longrightarrow> \<exists>name. TransferFinished tid name ok err \<in> set sgs"
    by (auto simp: new)
  with assms show ?thesis unfolding ends_signalled_def behind_server by (auto simp: ex_disj_distrib)
qed

lemma owner_reaches_events: "owner_reaches S E sv sv' \<Longrightarrow> events sv' = events sv"
proof -
  assume "owner_reaches S E sv sv'"
  then obtain ms where ms: "list_all owner_move ms"
    "pool_run S E ms \<lparr>threads = [], server = sv\<rparr> = Some \<lparr>threads = [], server = sv'\<rparr>"
    by (auto simp: owner_reaches_def)
  have step: "events (server q) = events (server p)" if "pool_step S E m p = Some q" "owner_move m" for m p q
    using that by (cases m) (auto simp: owner_events)
  have "pool_run S E ms p = Some q \<Longrightarrow> list_all owner_move ms \<Longrightarrow> events (server q) = events (server p)" for p q
    by (induction ms arbitrary: p) (auto simp: bind_eq_Some_conv step)
  from this [OF ms(2,1)] show "events sv' = events sv" by simp
qed

lemma owner_signalled:
  assumes "owner_reaches S E (m_server m) (m_server m')" and "signals m' = signals m @ sgs" and "ends_signalled m"
  shows "ends_signalled m'"
  using assms(2,3) owner_reaches_events [OF assms(1)] by (auto simp: ends_signalled_def ex_disj_distrib)

lemma manager_step_signalled:
  assumes "manager_step J S E P m m'" and "ends_signalled m"
  shows "ends_signalled m'"
  using assms(1)
proof (cases rule: manager_step.cases)
  case (ms_start bound)
  with assms(2) show ?thesis
    by (simp add: ends_signalled_def manager_start_def server_start_def Let_def split: prod.split)
next
  case ms_stop
  with assms(2) show ?thesis by (simp add: ends_signalled_def manager_stop_def owner_events)
next
  case (ms_session sid)
  with assms(2) show ?thesis by (simp add: ends_signalled_def setCurrentSession_def)
next
  case (ms_offer sid payload)
  with owner_signalled [OF handleFileOffer_moves [of S E m J P sid payload], of "[]"] assms(2) show ?thesis
    by (simp add: handler_signals)
next
  case (ms_send sid paths)
  with owner_signalled [OF sendFiles_moves [of S E m J P sid paths], of "[]"] assms(2) show ?thesis
    by (simp add: sendFiles_signals)
next
  case (ms_accept sid payload)
  with owner_signalled [OF handlers_move(1) [OF ms_accept, of E], of "[]"] assms(2) show ?thesis
    by (simp add: handler_signals(2) [OF ms_accept])
next
  case (ms_reject sid payload)
  with owner_signalled [OF handlers_move(2) [OF ms_reject, of S], of "[]"] assms(2) show ?thesis
    by (simp add: handler_signals(3) [OF ms_reject])
next
  case (ms_complete sid payload)
  from handler_signals(5) [OF ms_complete] obtain sgs where "signals m' = signals m @ sgs" ..
  from owner_signalled [OF handlers_move(3) [OF ms_complete, of S E] this assms(2)] show ?thesis .
next
  case (ms_cancel sid payload)
  with owner_signalled [OF handlers_move(4) [OF ms_cancel, of S], of "[]"] assms(2) show ?thesis
    by (simp add: handler_signals(4) [OF ms_cancel])
next
  case (ms_turn ph c ph' c')
  then obtain sv' where "conn_step S E ph c (m_server m) = Some (ph', c', sv')" "m' = behind J m sv'"
    by (auto simp: manager_turn_eq)
  with conn_step_events behind_signalled [OF assms(2)] show ?thesis by blast
next
  case (ms_connection c c')
  then obtain sv' where run: "handleConnection S E c (m_server m) = Some (c', sv')" and m': "m' = behind J m sv'"
    by (auto simp: manager_connection_def behind_def split: option.splits)
  have step: "\<exists>evs. events sv2 = events (m_server m) @ evs"
    if "\<exists>evs. events sv1 = events (m_server m) @ evs" "conn_step S E ph c1 sv1 = Some (ph', c2, sv2)" for ph c1 sv1 ph' c2 sv2
    using that(1) conn_step_events [OF that(2)] by auto
  have "\<exists>evs. events sv' = events (m_server m) @ evs"
    by (rule run_thread_rule [where P = "\<lambda>ph c1 sv1. \<exists>evs. events sv1 = events (m_server m) @ evs",
          OF run [unfolded handleConnection_def] _ step]) auto
  with behind_signalled [OF assms(2)] m' show ?thesis by blast
qed

lemma manager_reachable_signalled: "manager_reachable J S E P m \<Longrightarrow> ends_signalled m"
  by (induction rule: manager_reachable.induct)
    (simp_all add: ends_signalled_def newFileTransferManager_def manager_step_signalled [unfolded ends_signalled_def])

section \<open>On from a reachable state\<close>

lemma prog_run_any:
  "prog_run J S E P A rnd getContext scale SC Q x ls y \<Longrightarrow> prog_run J S E P A rnd getContext scale SC (\<lambda>_. True) x ls y"
  by (induction rule: prog_run.induct) (auto intro: prog_run.intros)

lemma prog_run_append:
  "prog_run J S E P A rnd getContext scale SC Q y ls' z \<Longrightarrow> prog_run J S E P A rnd getContext scale SC Q x ls y \<Longrightarrow>
   prog_run J S E P A rnd getContext scale SC Q x (ls @ ls') z"
proof (induction rule: prog_run.induct)
  case (pg_step y ls' z l u)
  then show ?case using prog_run.pg_step [of J S E P A rnd getContext scale SC Q x "ls @ ls'" z l u] by simp
qed simp

lemma prog_reachable_run:
  assumes "prog_reachable J S E P A rnd getContext scale SC Q x"
    and "prog_run J S E P A rnd getContext scale SC R x ls y"
  shows "prog_reachable J S E P A rnd getContext scale SC Q y"
  using assms(1) prog_run_append [OF prog_run_any [OF assms(2)]] unfolding prog_reachable_def by blast

lemma prog_reachable_step:
  assumes "prog_reachable J S E P A rnd getContext scale SC Q x" and "prog_step J S E P A rnd getContext scale SC l x y"
  shows "prog_reachable J S E P A rnd getContext scale SC Q y"
  using prog_reachable_run [OF assms(1) prog_run.pg_step [OF prog_run.pg_refl assms(2)]] by blast

lemma prog_reachable_signalled:
  assumes "prog_reachable J S E P A rnd getContext scale SC Q x"
    and "OnFinished tid ok err \<in> set (events (the_server x))"
  shows "\<exists>m name. a_files (app (whole x)) = Some m \<and> TransferFinished tid name ok err \<in> set (signals m)"
proof -
  from prog_reachable_ok [OF assms(1)] obtain m where "a_files (app (whole x)) = Some m" "ends_signalled m"
    by (auto simp: prog_ok_def app_ok_def parts_ok_def dest: manager_reachable_signalled)
  with assms(2) show ?thesis by (auto simp: ends_signalled_def the_server_def)
qed

text \<open>A thread's turn and what follows, as moves of the pool.\<close>

lemma turn_and_run:
  assumes "prog_reachable J S E P A rnd getContext scale SC Q x" and "transfer_turn J S E i x = Some x1"
    and "prog_run J S E P A rnd getContext scale SC R x1 ls y"
  obtains ms where "pool_run S E (Turn i # ms) (pool_of x) = Some (pool_of y)"
    and "count_list ms (Turn i) = count_list ls (TransferTurn i)"
    and "prog_reachable J S E P A rnd getContext scale SC Q y"
proof -
  have step: "prog_step J S E P A rnd getContext scale SC (TransferTurn i) x x1" by (rule pg_turn [OF assms(2)])
  from prog_step_moves [OF step prog_ok_files [OF prog_reachable_ok [OF assms(1)]]]
  have files1: "a_files (app (whole x1)) \<noteq> None" and turn: "pool_run S E [Turn i] (pool_of x) = Some (pool_of x1)"
    by (auto simp: filter_empty_conv filter_eq_Cons_iff list_all_iff)
  from prog_run_moves [OF assms(3) files1] obtain ms where run: "pool_run S E ms (pool_of x1) = Some (pool_of y)"
    and shown: "filter (\<lambda>m. \<not> owner_move m) ms = concat (map shown ls)" by blast
  show thesis
  proof (rule that)
    show "pool_run S E (Turn i # ms) (pool_of x) = Some (pool_of y)" using turn run by (auto simp: bind_eq_Some_conv)
    show "count_list ms (Turn i) = count_list ls (TransferTurn i)"
      unfolding count_turns [of ms] shown count_shown ..
    show "prog_reachable J S E P A rnd getContext scale SC Q y"
      by (rule prog_reachable_run [OF prog_reachable_step [OF assms(1) step] assms(3)])
  qed
qed

end
