(* ===== verification/ProgramProperties.thy ===== *)
theory ProgramProperties
  imports Program
begin

text \<open>
  The properties of the running program with all its threads (theory \<open>Program\<close>), with a program
  for their witnesses: a start with a file on the disk, a phone that connects and offers a file,
  and its connection to the transfer port.
\<close>

section \<open>A thread on its own\<close>

text \<open>While only one thread takes turns, it can always take the next one if its client is not silent.\<close>

lemma alone_own_turn:
  assumes "thread_turn S E i p = Some p'" and "alone E i r p"
  shows "alone E i r p'"
proof -
  from assms(1) obtain ph c where step: "conn_step S E (th_phase (threads p ! i)) (th_conn (threads p ! i)) (server p) = Some (ph, c, server p')"
    and ths: "threads p' = (threads p)[i := \<lparr>th_phase = ph, th_conn = c\<rparr>]"
    by (auto elim: thread_turnE)
  note same = kept_fields(4) [OF kept_static [OF conn_step_kept [OF step]]]
  have "length (m_store (server p')) = length (m_store (server p))" using conn_step_kept [OF step] by (simp add: kept_def)
  with assms(2) show ?thesis by (simp add: alone_def ths same temp_names_def)
qed

lemma own_turn:
  assumes "path_laws E" and "fs_laws E V" and "pool_safe (pool_of x)" and "plain_targets E (the_server x)"
    and "a_files (app (whole x)) \<noteq> None" and "i < length (connections x)"
    and "\<not> silent (th_conn (connections x ! i))"
  obtains y where "transfer_turn J S E i x = Some y" and "thread_turn S E i (pool_of x) = Some (pool_of y)"
    and "pool_safe (pool_of y)" and "a_files (app (whole y)) \<noteq> None" and "length (connections y) = length (connections x)"
    and "kept (the_server x) (the_server y)" and "\<not> silent (th_conn (connections y ! i))"
proof -
  from assms(5) obtain m where m: "a_files (app (whole x)) = Some m" by auto
  have "phase_ok (the_server x) (th_phase (connections x ! i))"
    using assms(3,6) by (simp add: pool_safe_def pool_of_def list_all_length)
  from conn_step_returns [OF assms(1,2,4) this, where S = S] m assms(7) waiting_silent obtain ph c sv where
    step: "conn_step S E (th_phase (connections x ! i)) (th_conn (connections x ! i)) (m_server m) = Some (ph, c, sv)"
    by (fastforce simp: the_server_def)
  define y where "y = \<lparr>connections = (connections x)[i := \<lparr>th_phase = ph, th_conn = c\<rparr>], whole = deliver_files m (behind J m sv) (whole x)\<rparr>"
  have files: "a_files (app (whole y)) = Some (behind J m sv)" by (simp add: y_def deliver_files_def)
  have turn: "transfer_turn J S E i x = Some y"
    using step m assms(6) by (simp add: transfer_turn_def manager_turn_eq y_def)
  have pool: "thread_turn S E i (pool_of x) = Some (pool_of y)"
    using step m assms(6) files by (simp add: thread_turn_def pool_of_def the_server_def y_def)
  have safe: "pool_safe (pool_of y)" using pool_step_safe [of S E "Turn i" "pool_of x" "pool_of y"] pool assms(3) by simp
  have "kept (the_server x) (the_server y)" using conn_step_kept [OF step] m files by (simp add: the_server_def)
  moreover have "length (connections y) = length (connections x)" by (simp add: y_def)
  moreover have "\<not> silent (th_conn (connections y ! i))"
    using conn_step_silent [OF step] assms(6,7) by (simp add: y_def)
  ultimately show thesis using that turn pool safe files by simp
qed

lemma own_turns:
  assumes "path_laws E" and "fs_laws E V"
  shows "pool_safe (pool_of x) \<Longrightarrow> plain_targets E (the_server x) \<Longrightarrow> a_files (app (whole x)) \<noteq> None \<Longrightarrow>
    i < length (connections x) \<Longrightarrow> upload_alone E i r x \<Longrightarrow> \<not> silent (th_conn (connections x ! i)) \<Longrightarrow>
    \<exists>y. prog_run J S E P A rnd getContext scale SC (upload_alone E i r) x (replicate n (TransferTurn i)) y \<and>
      pool_safe (pool_of y) \<and> a_files (app (whole y)) \<noteq> None \<and> i < length (connections y) \<and> kept (the_server x) (the_server y) \<and>
      \<not> silent (th_conn (connections y ! i))"
proof (induction n)
  case 0
  then show ?case by (intro exI [of _ x]) (auto intro: prog_run.pg_refl)
next
  case (Suc n)
  then obtain y where y: "prog_run J S E P A rnd getContext scale SC (upload_alone E i r) x (replicate n (TransferTurn i)) y"
    "pool_safe (pool_of y)" "a_files (app (whole y)) \<noteq> None" "i < length (connections y)" "kept (the_server x) (the_server y)"
    "\<not> silent (th_conn (connections y ! i))"
    by blast
  have plain: "plain_targets E (the_server y)" by (rule plain_targets_kept [OF y(5) Suc.prems(2)])
  obtain z where z: "transfer_turn J S E i y = Some z" "thread_turn S E i (pool_of y) = Some (pool_of z)"
    "pool_safe (pool_of z)" "a_files (app (whole z)) \<noteq> None" "length (connections z) = length (connections y)"
    "kept (the_server y) (the_server z)" "\<not> silent (th_conn (connections z ! i))"
    by (rule own_turn [OF assms y(2) plain y(3,4,6)])
  have "upload_alone E i r y" using y(1) by (auto elim: prog_run.cases)
  then have "upload_alone E i r z" using alone_own_turn [OF z(2)] by (simp add: upload_alone_def)
  from prog_run.pg_step [OF y(1) pg_turn [OF z(1)] this] z y(4,5) show ?case
    by (intro exI [of _ z]) (auto simp: replicate_append_same intro: kept_trans)
qed

section \<open>A program for the witnesses\<close>

text \<open>A start with a file on the disk; a phone connects and offers a file; its transfer connects.\<close>

definition demo_phone :: "(files, unit) App" where
  "demo_phone = snd (projr (app_init sodium_model demo_adb_api demo_qfile demo_boot
     (new_app [(''a.txt'', [9, 9, 9, 9, 9])] demo_settings)))"

lemma demo_phone_init:
  "app_init sodium_model demo_adb_api demo_qfile demo_boot (new_app [(''a.txt'', [9, 9, 9, 9, 9])] demo_settings) =
     Inr (True, demo_phone)"
  by (simp add: demo_phone_def app_init_defs demo_boot_def Let_def)

lemma demo_extract: "extractAdb demo_adb_api demo_qfile f = (True, f)"
proof -
  have "extract_files demo_qfile dir fls f = (True, f)" for dir fls
    by (induction fls) (simp_all add: demo_qfile_def Let_def)
  moreover have "q_mkpath demo_qfile f d = f" for d by (simp add: demo_qfile_def)
  ultimately show ?thesis by (simp add: extractAdb_def)
qed

lemma demo_phone_sels:
  "a_files (app demo_phone) = Some demo_manager" "ws_running demo_phone" "m_nextId demo_phone = 1"
  "ws_sessions demo_phone = []"
  by (simp_all add: demo_phone_def app_init_defs demo_boot_def new_app_def newWsServer_def on_app_def demo_manager_def adb_init_def demo_extract
      startAdbServer_def Let_def split: prod.split)

definition demo_upload :: connection where
  "demo_upload = \<lparr>incoming = [handshake demo_uid (token_bytes demo_platform 0) 0 @ stream_of demo_chunks], silent = False, sent = [], room = 0\<rparr>"

definition demo_offered :: "files FileTransferManager" where
  "demo_offered = handleFileOffer json_model sodium_model os_model demo_platform 1 (to_json json_model demo_offer) demo_manager"

definition demo_connected :: "(hash_state, files, unit) program" where
  "demo_connected = \<lparr>connections = [\<lparr>th_phase = Handshaking, th_conn = demo_upload\<rparr>],
     whole = deliver_files demo_manager demo_offered (ws_accept False demo_phone)\<rparr>"

abbreviation demo_run where
  "demo_run \<equiv> prog_run json_model sodium_model os_model demo_platform demo_adb_api (\<lambda>x. x) (\<lambda>d. True) demo_scale (\<lambda>e. True)"

abbreviation demo_reachable where
  "demo_reachable \<equiv> prog_reachable json_model sodium_model os_model demo_platform demo_adb_api (\<lambda>x. x) (\<lambda>d. True)
     demo_scale (\<lambda>e. True) demo_qfile"

lemma demo_connects:
  "demo_run (\<lambda>_. True) (started demo_phone) ([] @ [InApp] @ [InApp] @ [Connects c])
     (demo_connected\<lparr>connections := [\<lparr>th_phase = Handshaking, th_conn = c\<rparr>]\<rparr>)"
proof -
  let ?w = "ws_accept False demo_phone" and ?w1 = "deliver_files demo_manager demo_offered (ws_accept False demo_phone)"
  have read: "ws_read json_model (app_callbacks json_model sodium_model os_model demo_platform) 1
      (Some (json_dump json_model (to_json json_model demo_offer))) ?w = Inr ?w1"
    unfolding offer_dispatch [OF json_model_value_laws json_model_text_laws]
    by (simp add: run_files_def demo_phone_sels(1) bindE_def demo_offered_def)
  have one: "prog_step json_model sodium_model os_model demo_platform demo_adb_api (\<lambda>x. x) (\<lambda>d. True) demo_scale (\<lambda>e. True)
      InApp (started demo_phone) \<lparr>connections = [], whole = ?w\<rparr>"
    using pg_app [OF as_accept, of json_model sodium_model os_model demo_platform demo_adb_api "\<lambda>x. x" "\<lambda>d. True"
      demo_scale "\<lambda>e. True" "started demo_phone" False] by (simp add: started_def)
  have two: "prog_step json_model sodium_model os_model demo_platform demo_adb_api (\<lambda>x. x) (\<lambda>d. True) demo_scale (\<lambda>e. True)
      InApp \<lparr>connections = [], whole = ?w\<rparr> \<lparr>connections = [], whole = ?w1\<rparr>"
    using pg_app [OF as_read, of json_model sodium_model os_model demo_platform 1 _ "\<lparr>connections = [], whole = ?w\<rparr>" ?w1]
      read by simp
  have "a_files (app ?w1) = Some demo_offered" "m_running (m_server demo_offered)"
    by (simp_all add: deliver_files_def demo_offered_def handleFileOffer_sels [OF demo_offer_json])
  then have three: "accept_transfer c \<lparr>connections = [], whole = ?w1\<rparr> =
      Some (demo_connected\<lparr>connections := [\<lparr>th_phase = Handshaking, th_conn = c\<rparr>]\<rparr>)"
    by (simp add: accept_transfer_def demo_connected_def)
  show ?thesis
    unfolding append_assoc [symmetric]
    by (rule prog_run.pg_step [OF prog_run.pg_step [OF prog_run.pg_step [OF prog_run.pg_refl one] two] pg_accept [OF three]])
      simp_all
qed

lemma demo_connected_run: "demo_run (\<lambda>_. True) (started demo_phone) ([] @ [InApp] @ [InApp] @ [Connects demo_upload]) demo_connected"
  using demo_connects [of demo_upload] by (simp add: demo_connected_def del: append_Cons append_Nil)

lemma demo_boot_codec: "be_codec demo_boot"
  by (simp add: demo_boot_def)

lemma demo_connected_reachable: "demo_reachable demo_connected"
  unfolding prog_reachable_def using demo_boot_codec demo_phone_init demo_connected_run by blast

lemma demo_connected_server:
  "the_server demo_connected = registerTransfer (uuid_string demo_uid) (toBase64 sodium_model (token_bytes demo_platform 0))
     (token_bytes demo_platform 0) ''D/Iriseus/b.txt'' 5 (hexString (sha256 sodium_model [1, 2, 3, 4, 5])) MobileUploadToPc
     (m_server demo_manager)"
proof -
  have "(m_server demo_manager)\<lparr>disk := fs_mkpath os_model (disk (m_server demo_manager)) d\<rparr> = m_server demo_manager" for d
    unfolding os_model_sels by (cases "m_server demo_manager") simp
  then show ?thesis
    by (simp add: the_server_def demo_connected_def deliver_files_def demo_offered_def handleFileOffer_sels [OF demo_offer_json]
        demo_upload_path del: demo_manager_sels(2))
qed

section \<open>Properties\<close>




lemma demo_names: "''D/Iriseus/b.txt.part'' \<notin> names_tried os_model ''D/Iriseus/b.txt''"
proof -
  have plain: "plain_target os_model ''D/Iriseus/b.txt''"
    by (simp add: plain_target_def plain_name_def before_last_dot_def after_last_dot_def last_part_def)
  have "''D/Iriseus/b.txt.part'' \<noteq> candidate_name os_model ''D/Iriseus/b.txt'' n" for n
    unfolding candidate_name_eq [OF os_model_path_laws plain]
    by (simp add: os_model_def before_last_dot_def after_last_dot_def last_part_def)
  then show ?thesis by (simp add: names_tried_def image_iff)
qed

lemma demo_temp_paths: "m_store sv = [s] \<Longrightarrow> temp_paths os_model sv = {tempFilePath s}"
  by (simp add: temp_paths_def temp_names_stream_named [OF os_model_stream_named])


text \<open>
  C9: the running program keeps the files of the disk. From any state it can reach, whatever it does
  is, for the transfer server and its threads, a run of the pool with the same connections and turns
  and only registrations, folders, cancellations and a stop of the owner between them; and every
  file that existed is still there with its content, unless its name is that of a session's temporary
  file, as Qt or as the stream reads it.
\<close>

theorem program_keeps_files:
  assumes "fs_laws E V" and "prog_reachable J S E P A rnd getContext scale SC Q x"
    and "prog_run J S E P A rnd getContext scale SC (\<lambda>_. True) x ls y"
  shows "(\<exists>ms. pool_run S E ms (pool_of x) = Some (pool_of y) \<and>
      filter (\<lambda>m. \<not> owner_move m) ms = concat (map shown ls)) \<and>
    (\<forall>path content. V (disk (the_server x)) path = Some content \<and>
      path \<notin> temp_paths E (the_server y) \<longrightarrow> V (disk (the_server y)) path = Some content)"
proof -
  from prog_run_moves [OF assms(3) prog_ok_files [OF prog_reachable_ok [OF assms(2)]]] obtain ms where
    ms: "pool_run S E ms (pool_of x) = Some (pool_of y)" "filter (\<lambda>m. \<not> owner_move m) ms = concat (map shown ls)" by blast
  from pool_run_spares [OF assms(1) ms(1) prog_reachable_safe [OF assms(2)]] ms show ?thesis
    by (auto simp: spares_def pool_of_def)
qed


theorem program_keeps_files_witness:
  "\<exists>y. transfer_turn json_model sodium_model os_model 0 demo_connected = Some y \<and>
     um_find (disk (the_server y)) ''a.txt'' = Some [9, 9, 9, 9, 9]"
proof -
  let ?x = demo_connected
  have server: "disk (the_server ?x) = [(''a.txt'', [9, 9, 9, 9, 9])]"
    "map tempFilePath (m_store (the_server ?x)) = [''D/Iriseus/b.txt.part'']"
    "plain_targets os_model (the_server ?x)"
    unfolding demo_connected_server
    by (simp_all add: registerTransfer_def demo_manager_def manager_start_def newFileTransferManager_def server_start_def
        plain_targets_def session_at_def plain_target_def plain_name_def before_last_dot_def after_last_dot_def last_part_def)
  note safe = prog_reachable_safe [OF demo_connected_reachable]
  have files: "a_files (app (whole ?x)) \<noteq> None" by (rule prog_ok_files [OF prog_reachable_ok [OF demo_connected_reachable]])
  have conn: "0 < length (connections ?x)" "\<not> silent (th_conn (connections ?x ! 0))"
    by (simp_all add: demo_connected_def demo_upload_def)
  obtain y where y: "transfer_turn json_model sodium_model os_model 0 ?x = Some y"
    "thread_turn sodium_model os_model 0 (pool_of ?x) = Some (pool_of y)" "pool_safe (pool_of y)"
    "a_files (app (whole y)) \<noteq> None" "length (connections y) = length (connections ?x)" "kept (the_server ?x) (the_server y)"
    by (rule own_turn [OF os_model_path_laws os_model_fs_laws safe server(3) files conn(1,2)])
  have "temp_paths os_model (the_server y) = temp_paths os_model (the_server ?x)" by (rule temp_paths_kept [OF y(6)])
  moreover obtain s where "m_store (the_server ?x) = [s]" "tempFilePath s = ''D/Iriseus/b.txt.part''" using server(2) by auto
  ultimately have other: "''a.txt'' \<notin> temp_paths os_model (the_server y)" by (simp add: demo_temp_paths)
  have "demo_run (\<lambda>_. True) ?x ([] @ [TransferTurn 0]) y"
    by (rule prog_run.pg_step [OF prog_run.pg_refl pg_turn [OF y(1)]]) simp_all
  note kept = program_keeps_files [OF os_model_fs_laws demo_connected_reachable this, THEN conjunct2, rule_format]
  have "um_find (disk (the_server y)) ''a.txt'' = Some [9, 9, 9, 9, 9]"
    by (rule kept) (simp add: server(1) other um_find_def)
  with y(1) show ?thesis by blast
qed

end
