(* ===== verification/ApplicationDownloads.thy ===== *)
theory ApplicationDownloads
  imports ApplicationTransfers
begin

text \<open>
  A file from the PC to the phone through the whole program: the phone's greeting, which makes it the
  one that files are sent to, the file that the user chooses, the offer, the phone's acceptance, the
  connection to the transfer port, and what the user is told.
\<close>

section \<open>Two more messages\<close>

definition hello_text :: "'j json_api \<Rightarrow> string \<Rightarrow> string" where
  "hello_text J name = json_dump J (json_object J [(''type'', json_string J ''hello''), (''deviceName'', json_string J name)])"

definition accept_payload :: "'j json_api \<Rightarrow> string \<Rightarrow> 'j" where
  "accept_payload J tid = json_object J [(''type'', json_string J ''file_accept''), (''transferId'', json_string J tid)]"

text \<open>The answer to a greeting carries the key of the current offer and the flip of the stream.\<close>

definition greeting :: "'j json_api \<Rightarrow> ('f, 'w) App \<Rightarrow> string" where
  "greeting J w = welcome_message J
     (case a_pairing (app w) of None \<Rightarrow> [] | Some pm \<Rightarrow> pubKeyB64 (m_currentOffer pm))
     (case a_stream (app w) of None \<Rightarrow> True | Some r \<Rightarrow> receiver_flip r)"

lemma hello_dispatch:
  assumes "json_value_laws J" and "json_text_laws J" and "a_files (app w) = Some m"
  shows "ws_read J (app_callbacks J S E P) sid (Some (hello_text J name)) w =
    Inr (ws_sendTo sid (greeting J w) (deliver_files m (setCurrentSession sid m) w))"
proof -
  let ?kvs = "[(''type'', json_string J ''hello''), (''deviceName'', json_string J name)]"
  have parse: "json_parse J (hello_text J name) = Some (json_object J ?kvs)"
    using assms(2) unfolding json_text_laws_def hello_text_def by (simp add: json_scalar_def)
  have vals: "value_string J (json_object J ?kvs) ''type'' d = Inr ''hello''"
    "value_string J (json_object J ?kvs) ''deviceName'' d = Inr name" for d
    by (simp_all add: json_value_string [OF assms(1)])
  have msg: "parseMessage J (hello_text J name) = \<lparr>cm_type = Hello, cm_payload = Some (json_object J ?kvs)\<rparr>"
    by (simp add: parseMessage_def parse vals msgTypeFromString_def)
  have app1: "app (deliver_files m (setCurrentSession sid m) w) = (app w)\<lparr>a_files := Some (setCurrentSession sid m)\<rparr>"
    by (subst deliver_files_app [where msgs = "[]" and sgs = "[]"]) (simp_all add: setCurrentSession_def)
  have "on_device_connected sid name w = Inr (deliver_files m (setCurrentSession sid m) w)"
    by (simp add: on_device_connected_def run_files_def assms(3) bindE_def)
  then show ?thesis
    by (simp add: ws_read_def onRead_def handleMessage_def msg Let_def session_callbacks_def app_callbacks_def
        call2_def vals bindE_def app1 greeting_def)
qed

lemma accept_dispatch:
  assumes "json_value_laws J" and "json_text_laws J"
  shows "ws_read J (app_callbacks J S E P) sid (Some (json_dump J (accept_payload J tid))) w =
    run_files (handleFileAccept J S P sid (accept_payload J tid)) w"
proof -
  let ?kvs = "[(''type'', json_string J ''file_accept''), (''transferId'', json_string J tid)]"
  have parse: "json_parse J (json_dump J (accept_payload J tid)) = Some (accept_payload J tid)"
    using assms(2) unfolding json_text_laws_def accept_payload_def by (simp add: json_scalar_def)
  have "value_string J (accept_payload J tid) ''type'' d = Inr ''file_accept''" for d
    by (simp add: accept_payload_def json_value_string [OF assms(1)])
  then have msg: "parseMessage J (json_dump J (accept_payload J tid)) =
      \<lparr>cm_type = FileAccept, cm_payload = Some (accept_payload J tid)\<rparr>"
    by (simp add: parseMessage_def parse msgTypeFromString_def)
  show ?thesis
    by (simp add: ws_read_def onRead_def handleMessage_def msg Let_def session_callbacks_def app_callbacks_def
        call2_def bindE_def split: sum.split)
qed

lemma accept_names:
  assumes "json_value_laws J"
  shows "value_string J (accept_payload J tid) ''transferId'' d = Inr tid"
  by (simp add: accept_payload_def json_value_string [OF assms])

text \<open>What a step of the manager that posts to one session and emits some signals does to the program.\<close>

lemma sendTo_find:
  "um_find (ws_sessions (ws_sendTo sid text w)) k =
     (if k = sid then map_option (\<lambda>s. s\<lparr>posted := posted s @ [text]\<rparr>) (um_find (ws_sessions w) sid)
      else um_find (ws_sessions w) k)"
  by (cases "um_find (ws_sessions w) sid") (auto simp: ws_sendTo_def on_session_find ws_send_def)

lemma greeted:
  assumes "um_find (ws_sessions w) sid = Some ses"
    and "w1 = ws_sendTo sid (greeting J w) (deliver_files m (setCurrentSession sid m) w)"
  shows "app w1 = (app w)\<lparr>a_files := Some (setCurrentSession sid m)\<rparr>"
    and "um_find (ws_sessions w1) k =
      (if k = sid then Some (ses\<lparr>posted := posted ses @ [greeting J w]\<rparr>) else um_find (ws_sessions w) k)"
  using assms deliver_files_find [of "setCurrentSession sid m" m sid "[]" w]
    deliver_files_app [of "setCurrentSession sid m" m "[]" "[]" w]
  by (simp_all add: sendTo_find setCurrentSession_def)

text \<open>The manager's part: from the chosen file to the acknowledged download.\<close>

definition done_message :: "'j json_api \<Rightarrow> string \<Rightarrow> string" where
  "done_message J tid = json_dump J (json_object J [(''type'', json_string J ''file_complete''),
     (''transferId'', json_string J tid), (''ok'', json_bool J True)])"

lemma sent_file_delivered:
  assumes fs: "fs_laws E V" and "json_value_laws J" and "sha256_laws S" and "m_running (m_server m)" and "sid \<noteq> 0"
    and "f = disk (m_server m)" and "fs_exists E f path" and "\<not> fi_isDir P f path"
    and "fs_open_read E f path = Some content" and "unat (fi_size P f path) = length content"
    and "uid = drawn_uuid P (m_rng m)" and "offer = file_offer S E P f path content (uuid_string uid)"
    and "m1 = sendFiles J S E P sid [path] m" and "tok = token_bytes P (m_rng m1)"
    and "avail (incoming c) = handshake uid tok 1 @ tail"
    and "length (file_stream (length content) content) \<le> room c"
  obtains m2 c' m3 sgs where "handleFileAccept J S P sid (accept_payload J (uuid_string uid)) m1 = Inr m2"
    and "manager_connection J S E c m2 = Some (c', m3)"
    and "sent c' = sent c @ file_stream (length content) content" and "disk (m_server m3) = f"
    and "outbox m1 = outbox m @ map (Pair sid) [json_dump J (to_json J offer)]" and "signals m1 = signals m @ []"
    and "outbox m2 = outbox m1 @ map (Pair sid) [ready_message J (uuid_string uid) (toBase64 S tok)]"
    and "signals m2 = signals m1 @ []"
    and "outbox m3 = outbox m2 @ map (Pair sid) [done_message J (uuid_string uid)]"
    and "signals m3 = signals m2 @ sgs @ [TransferFinished (uuid_string uid) (fo_name offer) True []]"
    and "list_all is_progress_signal sgs"
proof -
  let ?tid = "uuid_string uid"
  let ?meta = "\<lparr>tm_sessionId = sid, tm_offer = offer, tm_filePath = path\<rparr>"
  have tid: "?tid = uuid_string (drawn_uuid P (m_rng m))" by (simp add: assms(11))
  have meta: "?meta = \<lparr>tm_sessionId = sid, tm_offer = file_offer S E P f path content ?tid, tm_filePath = path\<rparr>"
    by (simp add: assms(12))
  obtain m2 r where acc: "handleFileAccept J S P sid (accept_payload J ?tid) m1 = Inr m2"
    and outs: "outbox m1 = outbox m @ [(sid, json_dump J (to_json J (tm_offer ?meta)))]"
      "outbox m2 = outbox m1 @ [(sid, ready_message J ?tid (toBase64 S tok))]" and sig2: "signals m2 = signals m"
    and sess: "um_find (m_activeOffers m2) ?tid = Some ?meta" "find_session (m_server m2) ?tid = Some r"
      "session_at (m_server m2) r = new_session ?tid (toBase64 S tok) tok path (fi_size P f path)
         (hexString (sha256 S content)) DesktopDownloadToMobile"
      "disk (m_server m2) = f" "m_running (m_server m2)"
    using sent_file_accepted [OF assms(2-9) tid assms(13) accept_names [OF assms(2)] assms(14) meta refl]
    by (elim exE conjE) (rule that; assumption)
  have len: "length uid = 16" "length tok = 32" by (simp_all add: assms(11,14) kTokenSize_def)
  have served: "tm_sessionId ?meta \<noteq> 0" "fs_open_read E (disk (m_server m2)) path = Some content"
    using assms(5,9) sess(4) by simp_all
  obtain c' m3 sgs where conn: "manager_connection J S E c m2 = Some (c', m3)"
    and sent: "sent c' = sent c @ file_stream (length content) content" and disk: "disk (m_server m3) = disk (m_server m2)"
    and out: "outbox m3 = outbox m2 @ [(tm_sessionId ?meta, done_message J ?tid)]" and sgs: "list_all is_progress_signal sgs"
      "signals m3 = signals m2 @ sgs @ [TransferFinished ?tid (fo_name (tm_offer ?meta)) True []]"
    using sent_file_served [OF fs sess(5,2,3) len sess(1) served assms(10,15,16), of J, folded done_message_def]
    by (elim exE conjE) (rule that; assumption)
  have "signals m1 = signals m" by (simp add: assms(13) sendFiles_signals)
  with acc conn sent disk sess(4) outs sig2 out sgs show thesis by (intro that [of m2 c' m3 sgs]) simp_all
qed

section \<open>Properties\<close>


definition demo_download :: connection where
  "demo_download = \<lparr>incoming = [handshake (drawn_uuid demo_platform 0)
     (token_bytes demo_platform (m_rng (sendFiles json_model sodium_model os_model demo_platform 0 [''a.txt'']
        (setCurrentSession 1 demo_manager)))) 1], silent = False, sent = [], room = 100\<rparr>"

lemma demo_file:
  "fs_exists os_model (disk (m_server demo_manager)) ''a.txt''" "\<not> fi_isDir demo_platform (disk (m_server demo_manager)) ''a.txt''"
  "fs_open_read os_model (disk (m_server demo_manager)) ''a.txt'' = Some [9, 9, 9, 9, 9]"
  "unat (fi_size demo_platform (disk (m_server demo_manager)) ''a.txt'') = length [9, 9, 9, 9, 9 :: u8]"
  "file_stream (length [9, 9, 9, 9, 9 :: u8]) [9, 9, 9, 9, 9] = frame [9, 9, 9, 9, 9]"
  by (simp_all add: um_find_def demo_platform_def file_stream_def split_chunks.simps kChunkPlaintextSize_def)


end
