(* ===== verification/ProgramDownloads.thy ===== *)
theory ProgramDownloads
  imports ProgramProperties ApplicationDownloads
begin

text \<open>
  A file on its way to a phone in the running program (theory \<open>Program\<close>): the send loop of a
  transfer thread delivers it whatever the other threads do (theory \<open>TransferServing\<close>). The
  witness is a program whose user has sent a file to a phone that said hello.
\<close>

text \<open>
  C8: a download gets through in the running program. In any state the program can reach, a transfer
  thread whose client sends the handshake of a session for a readable file of at least the announced
  size has, after two turns of its own for every byte announced and two more, closed the connection
  with exactly the frames of that part of the file on it, and the success is signalled. Each chunk is
  read from the disk in its own turn, from the position the chunk before left; messages, clicks, queued
  calls, video, adb events and other transfers, even of the same session, may come in between. The
  conditions: the server is not stopped and the session not cancelled; the connection takes the bytes;
  the file has not the name of any session's temporary file, so that the program itself does not change it
  (\<open>program_keeps_files\<close>); and no other program changes it, which is outside the steps of this one.
\<close>

theorem program_download_completes:
  assumes fs: "fs_laws E V" and "prog_reachable J S E P A rnd getContext scale SC Q x"
    and "i < length (connections x)" and "th_phase (connections x ! i) = Handshaking"
    and "length uid = 16" and "length tok = 32"
    and "avail (incoming (th_conn (connections x ! i))) = handshake uid tok 1 @ tail"
    and "find_session (the_server x) (uuid_string uid) = Some r" and "s = session_at (the_server x) r"
    and "token_ok s tok" and "fs_open_read E (disk (the_server x)) (targetFilePath s) = Some content"
    and "unat (expectedSize s) \<le> length content"
    and "length (file_stream (unat (expectedSize s)) content) \<le> room (th_conn (connections x ! i))"
    and "transfer_turn J S E i x = Some x1"
    and "prog_run J S E P A rnd getContext scale SC R x1 ls y"
    and "2 + 2 * unat (expectedSize s) \<le> count_list ls (TransferTurn i)"
    and "m_running (the_server y) \<and> \<not> cancelled (session_at (the_server y) r)"
    and "stream_path E (targetFilePath s) \<notin> temp_paths E (the_server y)"
  shows "th_phase (connections y ! i) = Closed \<and>
    sent (th_conn (connections y ! i)) =
      sent (th_conn (connections x ! i)) @ file_stream (unat (expectedSize s)) content \<and>
    (\<exists>m name. a_files (app (whole y)) = Some m \<and> TransferFinished (transferId s) name True [] \<in> set (signals m))"
proof -
  obtain ms where run: "pool_run S E (Turn i # ms) (pool_of x) = Some (pool_of y)"
    and turns: "count_list ms (Turn i) = count_list ls (TransferTurn i)"
    and reach: "prog_reachable J S E P A rnd getContext scale SC Q y"
    by (rule turn_and_run [OF assms(2,14,15)])
  have pool: "i < length (threads (pool_of x))"
    "th_phase (threads (pool_of x) ! i) = Handshaking"
    "avail (incoming (th_conn (threads (pool_of x) ! i))) = handshake uid tok 1 @ tail"
    "find_session (server (pool_of x)) (uuid_string uid) = Some r" "s = session_at (server (pool_of x)) r"
    "fs_open_read E (disk (server (pool_of x))) (targetFilePath s) = Some content"
    "length (file_stream (unat (expectedSize s)) content) \<le> room (th_conn (threads (pool_of x) ! i))"
    "2 + 2 * unat (expectedSize s) \<le> count_list ms (Turn i)" "live r (server (pool_of y))"
    "stream_path E (targetFilePath s) \<notin> temp_paths E (server (pool_of y))"
    using assms turns by (simp_all add: pool_of_def live_def)
  from download_completes [OF fs prog_reachable_safe [OF assms(2)] pool(1,2) assms(5,6) pool(3-5) assms(10) pool(6)
      assms(12) pool(7) run pool(8-10)]
  have "th_phase (connections y ! i) = Closed"
    "sent (th_conn (connections y ! i)) = sent (th_conn (connections x ! i)) @ file_stream (unat (expectedSize s)) content"
    "OnFinished (transferId s) True [] \<in> set (events (the_server y))"
    by (auto simp: pool_of_def dest: in_set_dropD)
  with prog_reachable_signalled [OF reach] show ?thesis by blast
qed

section \<open>A program that sends a file\<close>

definition demo_fetch :: connection where
  "demo_fetch = \<lparr>incoming = [handshake (drawn_uuid demo_platform 0) (token_bytes demo_platform 16) 1], silent = False, sent = [], room = 100\<rparr>"

definition demo_chosen :: "files FileTransferManager" where
  "demo_chosen = sendFiles json_model sodium_model os_model demo_platform 0 [''a.txt''] (setCurrentSession 1 demo_manager)"

definition demo_greeted :: "(files, unit) App" where
  "demo_greeted = ws_sendTo 1 (greeting json_model (ws_accept False demo_phone))
     (deliver_files demo_manager (setCurrentSession 1 demo_manager) (ws_accept False demo_phone))"

definition demo_sending :: "(hash_state, files, unit) program" where
  "demo_sending = \<lparr>connections = [\<lparr>th_phase = Handshaking, th_conn = demo_fetch\<rparr>],
     whole = deliver_files (setCurrentSession 1 demo_manager) demo_chosen demo_greeted\<rparr>"

lemma demo_chosen_server:
  "m_server demo_chosen = registerTransfer (uuid_string (drawn_uuid demo_platform 0))
     (toBase64 sodium_model (token_bytes demo_platform 16)) (token_bytes demo_platform 16) ''a.txt'' 5
     (hexString (sha256 sodium_model [9, 9, 9, 9, 9])) DesktopDownloadToMobile (m_server demo_manager)"
proof -
  let ?m = "setCurrentSession 1 demo_manager"
  have m: "m_server ?m = m_server demo_manager" "m_rng ?m = 0" by (simp_all add: setCurrentSession_def)
  have "demo_chosen = send_one json_model sodium_model os_model demo_platform 1 ''a.txt'' ?m"
    by (simp add: demo_chosen_def sendFiles_def setCurrentSession_def)
  moreover have "fi_size demo_platform (disk (m_server demo_manager)) ''a.txt'' = 5"
    by (simp add: demo_platform_def um_find_def)
  ultimately show ?thesis
    using send_one_sels(1) [OF sodium_model_sha256_laws refl, of os_model ?m "''a.txt''" demo_platform "[9, 9, 9, 9, 9]"
        "uuid_string (drawn_uuid demo_platform 0)" "token_bytes demo_platform 16" json_model 1]
      demo_file(1-3) by (simp add: m del: demo_manager_sels(2))
qed

lemma demo_sending_reachable: "demo_reachable demo_sending"
proof -
  let ?w = "ws_accept False demo_phone"
  let ?step = "prog_step json_model sodium_model os_model demo_platform demo_adb_api (\<lambda>x. x) (\<lambda>d. True) demo_scale (\<lambda>e. True)"
  let ?prog = "\<lambda>w. \<lparr>connections = [], whole = w\<rparr> :: (hash_state, files, unit) program"
  let ?w2 = "deliver_files (setCurrentSession 1 demo_manager) demo_chosen demo_greeted"
  have start: "demo_reachable (?prog demo_phone)"
    unfolding prog_reachable_def started_def
    by (intro exI conjI, rule demo_boot_codec, rule demo_phone_init, rule prog_run.pg_refl) simp
  have inapp: "?step InApp (?prog w) (?prog w')"
    if "app_step json_model sodium_model os_model demo_platform demo_adb_api (\<lambda>x. x) (\<lambda>d. True) demo_scale (\<lambda>e. True) w w'" for w w'
    using pg_app [of json_model sodium_model os_model demo_platform demo_adb_api "\<lambda>x. x" "\<lambda>d. True" demo_scale "\<lambda>e. True"
      "?prog w" w'] that by simp
  have files: "a_files (app ?w) = Some demo_manager" by (simp add: ws_accept_def demo_phone_sels)
  have "ws_read json_model (app_callbacks json_model sodium_model os_model demo_platform) 1
      (Some (hello_text json_model ''Pixel'')) ?w = Inr demo_greeted"
    unfolding demo_greeted_def by (rule hello_dispatch [OF json_model_value_laws json_model_text_laws files])
  note hello = inapp [OF as_read [OF this]]
  have "app demo_greeted = (app ?w)\<lparr>a_files := Some (setCurrentSession 1 demo_manager)\<rparr>"
    unfolding demo_greeted_def by (simp add: deliver_files_app [where msgs = "[]" and sgs = "[]"] setCurrentSession_def)
  then have "send_files json_model sodium_model os_model demo_platform [''a.txt''] demo_greeted = Inr ?w2"
    by (simp add: send_files_def run_files_def bindE_def demo_chosen_def)
  note send = inapp [OF as_send [OF this]]
  have sels: "a_files (app ?w2) = Some demo_chosen" "m_running (m_server demo_chosen)"
    by (simp_all add: deliver_files_def demo_chosen_server)
  then have "accept_transfer demo_fetch (?prog ?w2) = Some demo_sending"
    by (simp add: accept_transfer_def demo_sending_def)
  note connect = pg_accept [OF this]
  show ?thesis
    by (rule prog_reachable_step [OF prog_reachable_step [OF prog_reachable_step [OF prog_reachable_step
      [OF start inapp [OF as_accept]] hello] send] connect])
qed

theorem program_download_completes_witness:
  "\<exists>x1 ls y. transfer_turn json_model sodium_model os_model 0 demo_sending = Some x1 \<and>
     demo_run (\<lambda>_. True) x1 ls y \<and> th_phase (connections y ! 0) = Closed \<and>
     sent (th_conn (connections y ! 0)) = frame [9, 9, 9, 9, 9]"
proof -
  let ?x = demo_sending and ?s = "session_at (the_server demo_sending) 0" and ?tid = "uuid_string (drawn_uuid demo_platform 0)"
  have server: "the_server ?x = m_server demo_chosen"
    by (simp add: the_server_def demo_sending_def deliver_files_def)
  have sess: "m_store (the_server ?x) = [?s]" "find_session (the_server ?x) ?tid = Some 0"
    "token_ok ?s (token_bytes demo_platform 16)" "targetFilePath ?s = ''a.txt''" "expectedSize ?s = 5"
    "disk (the_server ?x) = disk (m_server demo_manager)" "\<not> cancelled ?s" "m_running (the_server ?x)"
    unfolding server demo_chosen_server
    by (simp_all add: registerTransfer_def session_at_def find_session_def token_ok_def demo_manager_def manager_start_def
        newFileTransferManager_def server_start_def)
  have plain: "plain_targets os_model (the_server ?x)"
    by (simp add: plain_targets_def sess(1,4) plain_target_def plain_name_def before_last_dot_def after_last_dot_def last_part_def)
  have alone: "upload_alone os_model 0 0 ?x"
    by (simp add: upload_alone_def alone_def pool_of_def sess(1)) (simp add: demo_sending_def)
  have conn: "0 < length (connections ?x)" "th_phase (connections ?x ! 0) = Handshaking"
    "avail (incoming (th_conn (connections ?x ! 0))) =
       handshake (drawn_uuid demo_platform 0) (token_bytes demo_platform 16) 1 @ []"
    "sent (th_conn (connections ?x ! 0)) = []" "room (th_conn (connections ?x ! 0)) = 100"
    "\<not> silent (th_conn (connections ?x ! 0))"
    by (simp_all add: demo_sending_def demo_fetch_def handshake_def)
  note safe = prog_reachable_safe [OF demo_sending_reachable]
  have files: "a_files (app (whole ?x)) \<noteq> None" by (rule prog_ok_files [OF prog_reachable_ok [OF demo_sending_reachable]])
  obtain x1 where x1: "transfer_turn json_model sodium_model os_model 0 ?x = Some x1"
    "thread_turn sodium_model os_model 0 (pool_of ?x) = Some (pool_of x1)" "pool_safe (pool_of x1)"
    "a_files (app (whole x1)) \<noteq> None" "length (connections x1) = length (connections ?x)" "kept (the_server ?x) (the_server x1)"
    "\<not> silent (th_conn (connections x1 ! 0))"
    by (rule own_turn [OF os_model_path_laws os_model_fs_laws safe plain files conn(1,6)])
  have alone1: "upload_alone os_model 0 0 x1" using alone_own_turn [OF x1(2)] alone by (simp add: upload_alone_def)
  have "plain_targets os_model (the_server x1)" by (rule plain_targets_kept [OF x1(6) plain])
  with own_turns [OF os_model_path_laws os_model_fs_laws x1(3) _ x1(4) _ alone1 x1(7)] x1(5) conn(1)
  obtain y where y: "demo_run (upload_alone os_model 0 0) x1 (replicate 12 (TransferTurn 0)) y" "kept (the_server x1) (the_server y)" by metis
  note kept = kept_trans [OF x1(6) y(2)]
  have live: "m_running (the_server y) \<and> \<not> cancelled (session_at (the_server y) 0)"
    using sess(7,8) kept_fields(8) [OF kept_static [OF kept, of 0]] kept by (simp add: kept_def)
  have content: "fs_open_read os_model (disk (the_server ?x)) (targetFilePath ?s) = Some [9, 9, 9, 9, 9]"
    unfolding sess(4,6) by (rule demo_file(3))
  have five: "unat (expectedSize ?s) = length [9, 9, 9, 9, 9 :: u8]" by (simp add: sess(5))
  have stream: "file_stream (unat (expectedSize ?s)) [9, 9, 9, 9, 9] = frame [9, 9, 9, 9, 9]"
    unfolding five by (rule demo_file(5))
  have room: "length (file_stream (unat (expectedSize ?s)) [9, 9, 9, 9, 9]) \<le> room (th_conn (connections ?x ! 0))"
    unfolding stream conn(5) by simp
  have turns: "2 + 2 * unat (expectedSize ?s) \<le> count_list (replicate 12 (TransferTurn 0)) (TransferTurn 0)"
    unfolding count_replicate sess(5) by simp
  have "length (m_store (the_server y)) = 1" "tempFilePath (session_at (the_server y) 0) = tempFilePath ?s"
    using kept sess(1) kept_fields(4) [OF kept_static [OF kept, of 0]] by (simp_all add: kept_def)
  then have "m_store (the_server y) = [session_at (the_server y) 0]"
    by (cases "m_store (the_server y)") (auto simp: session_at_def)
  then have "temp_paths os_model (the_server y) = {tempFilePath ?s}"
    using demo_temp_paths \<open>tempFilePath (session_at (the_server y) 0) = tempFilePath ?s\<close> by metis
  moreover have "tempFilePath ?s = ''a.txt.part''"
    unfolding server demo_chosen_server
    by (simp add: registerTransfer_def session_at_def demo_manager_def manager_start_def newFileTransferManager_def server_start_def)
  moreover have "stream_path os_model (targetFilePath ?s) = ''a.txt''" using sess(4) by simp
  ultimately have apart: "stream_path os_model (targetFilePath ?s) \<notin> temp_paths os_model (the_server y)" by simp
  have size: "unat (expectedSize ?s) \<le> length [9, 9, 9, 9, 9 :: u8]" by (simp add: sess(5))
  have len: "length (drawn_uuid demo_platform 0) = 16" "length (token_bytes demo_platform 16) = 32" by (simp_all add: kTokenSize_def)
  from program_download_completes [OF os_model_fs_laws demo_sending_reachable conn(1,2) len conn(3) sess(2) refl sess(3) content size room
      x1(1) y(1) turns live apart] x1(1) prog_run_any [OF y(1)] show ?thesis
    unfolding stream conn(4) by auto
qed

end
