(* ===== verification/TransferCleanup.thy ===== *)
theory TransferCleanup
  imports TransferLiveness
begin

text \<open>
  What the transfer server leaves behind. Whatever its threads and its owner do, the only files that
  come into being are finished uploads under the names tried for them, the temporary files of threads
  still at work, and what a stream wrote under a name that Qt reads differently; and after a stop
  every thread is done within three turns of its own, which it is not given while it waits for a
  silent peer. So a server that has been stopped and whose
  threads have run out leaves no temporary file whose name both read alike.
\<close>

section \<open>Which files come into being\<close>

lemma resolve_name_tried: "resolve_name E f p q n = Some r \<Longrightarrow> q \<in> names_tried E p \<Longrightarrow> r \<in> names_tried E p"
proof (rule resolve_name.raw_induct [where P = "\<lambda>E f p q n r. q \<in> names_tried E p \<longrightarrow> r \<in> names_tried E p", rule_format], goal_cases)
  case (1 g E f p q n r)
  then show ?case by (cases "fs_exists E f q") (auto simp: names_tried_def)
qed

text \<open>Of the file system only removing has to work; creating, writing and renaming may fail.\<close>

definition fs_removes :: "'f os_api \<Rightarrow> ('f \<Rightarrow> string \<Rightarrow> bytes option) \<Rightarrow> bool" where
  "fs_removes E V \<longleftrightarrow> (\<forall>f p. V (fs_remove E f p) p = None)"

text \<open>The session whose temporary file a phase has.\<close>

fun upload_ref :: "'h phase \<Rightarrow> nat option" where
  "upload_ref (Receiving r sha t) = Some r"
| "upload_ref (Reading r sha t) = Some r"
| "upload_ref (Received r err sha t) = Some r"
| "upload_ref _ = None"

definition final_names :: "'f os_api \<Rightarrow> 'f FileTransferServer \<Rightarrow> string set" where
  "final_names E sv = (\<Union>s \<in> set (m_store sv). names_tried E (targetFilePath s))"

text \<open>
  Files that are left: the finished ones, and what a stream has written under a name that Qt reads
  differently, which the code cannot take away.
\<close>

definition stray_names :: "'f os_api \<Rightarrow> 'f FileTransferServer \<Rightarrow> string set" where
  "stray_names E sv =
     (\<lambda>s. stream_path E (tempFilePath s)) ` {s \<in> set (m_store sv). \<not> stream_named E (tempFilePath s)}"

definition left_names :: "'f os_api \<Rightarrow> 'f FileTransferServer \<Rightarrow> string set" where
  "left_names E sv = final_names E sv \<union> stray_names E sv"

lemma stream_path_left:
  "r < length (m_store sv) \<Longrightarrow> stream_path E (tempFilePath (session_at sv r)) \<in> left_names E sv \<or>
     stream_path E (tempFilePath (session_at sv r)) = tempFilePath (session_at sv r)"
  by (auto simp: left_names_def stray_names_def stream_named_def session_at_def)

text \<open>Nothing appears but these and the thread's own temporary file, which it takes away when it ends.\<close>

definition tidy_step ::
  "'f os_api \<Rightarrow> ('f \<Rightarrow> string \<Rightarrow> bytes option) \<Rightarrow> 'h phase \<Rightarrow> 'h phase \<Rightarrow> 'f FileTransferServer \<Rightarrow> 'f FileTransferServer \<Rightarrow> bool" where
  "tidy_step E V ph ph' sv sv' \<longleftrightarrow> (\<forall>path. V (disk sv') path \<noteq> None \<longrightarrow>
     path \<in> left_names E sv \<or> (\<exists>r. upload_ref ph' = Some r \<and> path = tempFilePath (session_at sv r)) \<or>
     V (disk sv) path \<noteq> None \<and> (\<forall>r. upload_ref ph = Some r \<longrightarrow> path \<noteq> tempFilePath (session_at sv r)))"

lemma removed:
  assumes "fs_laws E V" and "fs_removes E V" and "V (fs_remove E f p) path \<noteq> None"
  shows "V f path \<noteq> None \<and> path \<noteq> p"
  using assms fs_lawsD(3) [OF assms(1), of path p f] assms(2) [unfolded fs_removes_def] by (cases "path = p") auto

lemma received_tidy:
  assumes fs: "fs_laws E V" "fs_removes E V" and r: "r < length (m_store sv)"
    and step: "step_received S E r err sha t sv = Some sv'"
  shows "tidy_step E V (Received r err sha t) Closed sv sv'"
proof -
  let ?s = "session_at sv r"
  have mem: "?s \<in> set (m_store sv)" using r by (simp add: session_at_def)
  have gone: "tidy_step E V (Received r err sha t) Closed sv sv'"
    if "V (disk sv') = V (fs_remove E f (tempFilePath ?s))" "V f = V (disk sv)" for f
    using removed [OF fs, of f "tempFilePath ?s"] that by (auto simp: tidy_step_def)
  show ?thesis
  proof (cases "err \<or> cancelled ?s \<or> t \<noteq> expectedSize ?s \<or>
      expectedSha256 ?s \<noteq> [] \<and> hexString (sha256_final S sha) \<noteq> expectedSha256 ?s")
    case True
    with step have "disk sv' = fs_remove E (disk sv) (tempFilePath ?s)"
      by (auto simp: step_received_def Let_def split: if_splits)
    then show ?thesis using gone [of "disk sv"] by simp
  next
    case False
    with step obtain q where q: "resolve_name E (disk sv) (targetFilePath ?s) (targetFilePath ?s) 1 = Some q"
      and sv': "(case fs_rename E (disk sv) (tempFilePath ?s) q of
          (True, f) \<Rightarrow> Some (emit (OnFinished (transferId ?s) True []) (sv\<lparr>disk := f\<rparr>))
        | (False, f) \<Rightarrow> Some (emit (OnFinished (transferId ?s) False msg_no_rename)
            (sv\<lparr>disk := fs_remove E f (tempFilePath ?s)\<rparr>))) = Some sv'"
      by (auto simp: step_received_def Let_def split: option.splits)
    obtain ok f where ren: "fs_rename E (disk sv) (tempFilePath ?s) q = (ok, f)" by fastforce
    show ?thesis
    proof (cases ok)
      case True
      have "q \<in> left_names E sv"
        using resolve_name_tried [OF q] mem by (auto simp: left_names_def final_names_def names_tried_def)
      moreover have moved: "fs_rename E (disk sv) (tempFilePath ?s) q = (True, f)" using ren True by simp
      moreover have "disk sv' = f" using sv' moved by auto
      ultimately show ?thesis
        using fs_lawsD(7) [OF fs(1) moved] by (auto simp: tidy_step_def split: if_splits)
    next
      case False
      with ren have stays: "fs_rename E (disk sv) (tempFilePath ?s) q = (False, f)" by simp
      have "disk sv' = fs_remove E f (tempFilePath ?s)" using sv' stays by auto
      with gone [OF _ fs_lawsD(8) [OF fs(1) stays]] show ?thesis by simp
    qed
  qed
qed

lemma conn_step_tidy:
  assumes fs: "fs_laws E V" "fs_removes E V" and ok: "phase_ok sv ph" and inv: "server_inv sv"
    and step: "conn_step S E ph c sv = Some (ph', c', sv')"
  shows "tidy_step E V ph ph' sv sv'"
proof (cases ph)
  case Handshaking
  have "phase_ok sv ph'"
    using conn_step_phase_ok [OF step inv ok] conn_step_kept [OF step]
    by (simp add: phase_ok_def kept_def split: option.splits)
  moreover have "V (disk sv') = V (disk sv) \<or> (\<exists>r. phase_ref ph' = Some r \<and> upload_ref ph' = Some r \<and>
      V (disk sv') = (V (disk sv))(stream_path E (tempFilePath (session_at sv r)) := Some []))"
    using step Handshaking fs_lawsD(5,6) [OF fs(1)]
    by (auto simp: step_handshake_def Let_def split: prod.splits option.splits if_splits)
  ultimately show ?thesis
    using Handshaking stream_path_left [of _ sv E] unfolding tidy_step_def by (fastforce simp: phase_ok_def split: if_splits)
next
  case (Reading r sha t)
  have r: "r < length (m_store sv)" using ok Reading by (simp add: phase_ok_def)
  have "V (fs_append E (disk sv) (tempFilePath (session_at sv r)) bs) path = V (disk sv) path"
    if "path \<noteq> tempFilePath (session_at sv r)" "path \<notin> left_names E sv" for path bs
    using fs_lawsD(4) [OF fs(1)] stream_path_left [OF r, of E] that by metis
  with step Reading show ?thesis
    by (auto simp: tidy_step_def step_read_def Let_def split: option.splits prod.splits frame_result.splits)
next
  case (Receiving r sha t)
  with step show ?thesis by (auto simp: tidy_step_def step_receive_def Let_def split: if_splits)
next
  case (Received r err sha t)
  with ok received_tidy [OF fs, of r sv] step show ?thesis by (auto simp: phase_ok_def)
next
  case (Writing r chunk at t)
  with step show ?thesis
    by (auto simp: tidy_step_def step_write_def Let_def split: option.splits prod.splits bool.splits)
next
  case (Sent r err t)
  with step have "disk sv' = disk sv" by (auto simp: step_sent_def Let_def)
  with Sent show ?thesis by (simp add: tidy_step_def)
qed (use step in \<open>auto simp: tidy_step_def\<close>)

section \<open>The pool keeps tidy\<close>

definition tidy ::
  "'f os_api \<Rightarrow> ('f \<Rightarrow> string \<Rightarrow> bytes option) \<Rightarrow> (string \<Rightarrow> bytes option) \<Rightarrow> ('h, 'f) pool \<Rightarrow> bool" where
  "tidy E V before p \<longleftrightarrow> (\<forall>path. V (disk (server p)) path \<noteq> None \<longrightarrow>
     before path \<noteq> None \<or> path \<in> left_names E (server p) \<or>
     (\<exists>th \<in> set (threads p). \<exists>r. upload_ref (th_phase th) = Some r \<and> path = tempFilePath (session_at (server p) r)))"

lemma upload_ref_ok: "phase_ok sv ph \<Longrightarrow> upload_ref ph = Some r \<Longrightarrow> r < length (m_store sv)"
  by (cases ph) (simp_all add: phase_ok_def)

lemma grows_temp:
  assumes "grows sv sv'" and "r < length (m_store sv)"
  shows "tempFilePath (session_at sv' r) = tempFilePath (session_at sv r)"
  using assms by (intro registered_as_fields(4)) (simp add: grows_def)

lemma left_names_grow:
  assumes "grows sv sv'"
  shows "left_names E sv \<subseteq> left_names E sv'"
proof
  fix path assume "path \<in> left_names E sv"
  then obtain r where r: "r < length (m_store sv)"
    "path \<in> names_tried E (targetFilePath (session_at sv r)) \<or>
     path = stream_path E (tempFilePath (session_at sv r)) \<and> \<not> stream_named E (tempFilePath (session_at sv r))"
    by (auto simp: left_names_def final_names_def stray_names_def set_conv_nth session_at_def)
  have same: "registered_as (session_at sv' r) = registered_as (session_at sv r)"
    using assms r(1) by (simp add: grows_def)
  have "path \<in> names_tried E (targetFilePath (session_at sv' r)) \<or>
     path = stream_path E (tempFilePath (session_at sv' r)) \<and> \<not> stream_named E (tempFilePath (session_at sv' r))"
    using r(2) unfolding registered_as_fields(3,4) [OF same] .
  moreover have "session_at sv' r \<in> set (m_store sv')" using assms r(1) by (simp add: grows_def session_at_def)
  ultimately show "path \<in> left_names E sv'"
    unfolding left_names_def final_names_def stray_names_def by blast
qed

lemma cancel_session_removes:
  assumes "fs_laws E V" and "fs_removes E V" and "V (disk (cancel_session E r sv)) path \<noteq> None"
  shows "V (disk sv) path \<noteq> None"
  using assms(3) removed [OF assms(1,2), of "disk sv" "tempFilePath (session_at sv r)" path]
  by (simp add: cancel_session_def Let_def split: if_splits)

lemma owner_removes:
  assumes fs: "fs_laws E V" "fs_removes E V"
  shows "V (disk (cancelTransfer E k sv)) path \<noteq> None \<Longrightarrow> V (disk sv) path \<noteq> None"
    and "V (disk (server_stop E sv)) path \<noteq> None \<Longrightarrow> V (disk sv) path \<noteq> None"
    and "disk (registerTransfer k b64 tok target n h d sv) = disk sv"
proof -
  have one: "V (disk (cancel_session E r sv)) path \<noteq> None \<Longrightarrow> V (disk sv) path \<noteq> None" for r sv
    by (rule cancel_session_removes [OF fs])
  then have all: "V (disk (fold (cancel_session E) rs sv)) path \<noteq> None \<Longrightarrow> V (disk sv) path \<noteq> None" for rs sv
  proof (induction rs arbitrary: sv)
    case (Cons r rs)
    from Cons.IH [of "cancel_session E r sv"] one [of r sv] Cons.prems show ?case by simp
  qed simp
  show "V (disk sv) path \<noteq> None" if "V (disk (cancelTransfer E k sv)) path \<noteq> None"
    using that one [of _ sv] by (cases "um_find (m_sessions sv) k") (simp_all add: cancelTransfer_def Let_def)
  show "V (disk sv) path \<noteq> None" if "V (disk (server_stop E sv)) path \<noteq> None"
    using that all [of "map snd (m_sessions sv)" "sv\<lparr>m_running := False\<rparr>"]
    by (simp add: server_stop_def Let_def split: if_splits)
  show "disk (registerTransfer k b64 tok target n h d sv) = disk sv" by (simp add: registerTransfer_def)
qed

lemma tidy_owner:
  assumes grows: "grows (server p) (server p')" and ths: "threads p' = threads p \<or> (\<exists>th. threads p' = threads p @ [th])"
    and less: "\<And>path. V (disk (server p')) path \<noteq> None \<Longrightarrow> V (disk (server p)) path \<noteq> None"
    and safe: "pool_safe p" and tidy: "tidy E V before p"
  shows "tidy E V before p'"
  unfolding tidy_def
proof (intro allI impI)
  fix path assume "V (disk (server p')) path \<noteq> None"
  with less tidy consider "before path \<noteq> None" | "path \<in> left_names E (server p)"
    | th r where "th \<in> set (threads p)" "upload_ref (th_phase th) = Some r" "path = tempFilePath (session_at (server p) r)"
    unfolding tidy_def by metis
  then show "before path \<noteq> None \<or> path \<in> left_names E (server p') \<or>
    (\<exists>th \<in> set (threads p'). \<exists>r. upload_ref (th_phase th) = Some r \<and> path = tempFilePath (session_at (server p') r))"
  proof cases
    case (3 th r)
    have "phase_ok (server p) (th_phase th)" using safe 3(1) by (simp add: pool_safe_def list_all_iff)
    from grows_temp [OF grows upload_ref_ok [OF this 3(2)]] 3(3)
    have "path = tempFilePath (session_at (server p') r)" by simp
    moreover have "th \<in> set (threads p')" using ths 3(1) by auto
    ultimately show ?thesis using 3(2) by blast
  qed (use left_names_grow [OF grows] in auto)
qed

lemma turn_tidy:
  assumes fs: "fs_laws E V" "fs_removes E V" and turn: "thread_turn S E i p = Some p'"
    and safe: "pool_safe p" and tidy: "tidy E V before p"
  shows "tidy E V before p'"
  unfolding tidy_def
proof (intro allI impI)
  let ?th = "threads p ! i"
  from turn obtain ph c where i: "i < length (threads p)"
    and step: "conn_step S E (th_phase ?th) (th_conn ?th) (server p) = Some (ph, c, server p')"
    and ths: "threads p' = (threads p)[i := \<lparr>th_phase = ph, th_conn = c\<rparr>]"
    by (auto elim: thread_turnE)
  have grows: "grows (server p) (server p')" by (rule grows_kept [OF conn_step_kept [OF step]])
  have ok: "phase_ok (server p) (th_phase th)" if "th \<in> set (threads p)" for th
    using safe that by (simp add: pool_safe_def list_all_iff)
  have inv: "server_inv (server p)" using safe by (simp add: pool_safe_def)
  have new: "tempFilePath (session_at (server p') r) = tempFilePath (session_at (server p) r)" for r
    by (rule kept_fields(4) [OF kept_static [OF conn_step_kept [OF step]]])
  have mine: "\<lparr>th_phase = ph, th_conn = c\<rparr> \<in> set (threads p')" using i ths by (simp add: set_update_memI)
  fix path assume "V (disk (server p')) path \<noteq> None"
  with conn_step_tidy [OF fs ok _ step] inv i consider "path \<in> left_names E (server p)"
    | r where "upload_ref ph = Some r" "path = tempFilePath (session_at (server p) r)"
    | "V (disk (server p)) path \<noteq> None"
      "\<And>r. upload_ref (th_phase ?th) = Some r \<Longrightarrow> path \<noteq> tempFilePath (session_at (server p) r)"
    unfolding tidy_step_def by (metis nth_mem)
  then show "before path \<noteq> None \<or> path \<in> left_names E (server p') \<or>
    (\<exists>th \<in> set (threads p'). \<exists>r. upload_ref (th_phase th) = Some r \<and> path = tempFilePath (session_at (server p') r))"
  proof cases
    case 2
    then show ?thesis using mine new by force
  next
    case 3
    show ?thesis
    proof (cases "before path \<noteq> None \<or> path \<in> left_names E (server p)")
      case False
      with tidy 3(1) obtain th r where th: "th \<in> set (threads p)" "upload_ref (th_phase th) = Some r"
        "path = tempFilePath (session_at (server p) r)" unfolding tidy_def by blast
      from th(1) obtain k where k: "k < length (threads p)" "threads p ! k = th" by (auto simp: in_set_conv_nth)
      with 3(2) th have "k \<noteq> i" by auto
      with k ths have "th \<in> set (threads p')" by (metis length_list_update nth_list_update_neq nth_mem)
      with th new show ?thesis by auto
    qed (use left_names_grow [OF grows] in auto)
  qed (use left_names_grow [OF grows] in auto)
qed

lemma pool_step_tidy:
  assumes fs: "fs_laws E V" "fs_removes E V" and step: "pool_step S E m p = Some p'"
    and safe: "pool_safe p" and tidy: "tidy E V before p"
  shows "tidy E V before p'"
proof (cases m)
  case (Turn i)
  with step turn_tidy [OF fs _ safe tidy] show ?thesis by simp
next
  case (Accepted c)
  with step show ?thesis
    by (intro tidy_owner [OF pool_step_grows [OF step] _ _ safe tidy]) (auto simp: acceptLoop_def split: if_splits)
next
  case (MakesPath dir)
  with step fs_lawsD(5) [OF fs(1)] show ?thesis
    by (intro tidy_owner [OF pool_step_grows [OF step] _ _ safe tidy]) auto
next
  case (Registered k b64 tok target n h d)
  with step show ?thesis
    by (intro tidy_owner [OF pool_step_grows [OF step] _ _ safe tidy]) (auto simp: owner_removes(3) [OF fs])
next
  case (Cancels k)
  show ?thesis
    by (rule tidy_owner [OF pool_step_grows [OF step] _ _ safe tidy])
      (use step Cancels owner_removes(1) [OF fs, of k "server p"] in \<open>auto\<close>)
next
  case Stops
  show ?thesis
    by (rule tidy_owner [OF pool_step_grows [OF step] _ _ safe tidy])
      (use step Stops owner_removes(2) [OF fs, of "server p"] in \<open>auto\<close>)
qed

lemma pool_run_tidy:
  assumes "fs_laws E V" and "fs_removes E V"
  shows "pool_run S E ms p = Some q \<Longrightarrow> pool_safe p \<Longrightarrow> tidy E V before p \<Longrightarrow> tidy E V before q"
proof (induction ms arbitrary: p)
  case (Cons m ms)
  then obtain p1 where step: "pool_step S E m p = Some p1" and run: "pool_run S E ms p1 = Some q"
    by (auto simp: bind_eq_Some_conv)
  from Cons.IH [OF run pool_step_safe [OF step Cons.prems(2)] pool_step_tidy [OF assms step Cons.prems(2,3)]]
  show ?case .
qed simp

section \<open>After a stop\<close>

text \<open>The turns a thread still takes once the server has been stopped.\<close>

fun turns_left :: "'h phase \<Rightarrow> nat" where
  "turns_left Handshaking = 3"
| "turns_left (Receiving r sha t) = 2"
| "turns_left (Reading r sha t) = 3"
| "turns_left (Sending r at t) = 2"
| "turns_left (Writing r chunk at t) = 3"
| "turns_left (Received r err sha t) = 1"
| "turns_left (Sent r err t) = 1"
| "turns_left Closed = 0"

lemma stopped_turn:
  assumes "conn_step S E ph c sv = Some (ph', c', sv')" and "\<not> m_running sv"
  shows "turns_left ph' \<le> turns_left ph - 1"
proof (cases ph)
  case Handshaking
  with assms show ?thesis
    by (auto simp: step_handshake_def Let_def split: prod.splits option.splits if_splits)
qed (use assms in \<open>auto simp: step_receive_def step_read_def step_send_def step_write_def Let_def
    split: option.splits prod.splits frame_result.splits bool.splits\<close>)

lemma stopped_run:
  "pool_run S E ms p = Some q \<Longrightarrow> \<not> m_running (server p) \<Longrightarrow>
   \<not> m_running (server q) \<and> length (threads q) = length (threads p) \<and>
   (\<forall>i < length (threads p). turns_left (th_phase (threads q ! i)) \<le> turns_left (th_phase (threads p ! i)) - count_list ms (Turn i))"
proof (induction ms arbitrary: p)
  case (Cons m ms)
  then obtain p1 where step: "pool_step S E m p = Some p1" and run: "pool_run S E ms p1 = Some q"
    by (auto simp: bind_eq_Some_conv)
  have stop: "\<not> m_running (server p1)" using pool_step_running [OF step] Cons.prems(2) by blast
  have len: "length (threads p1) = length (threads p)"
    using step Cons.prems(2) by (cases m) (auto simp: acceptLoop_def elim!: thread_turnE)
  have "turns_left (th_phase (threads p1 ! i)) \<le> turns_left (th_phase (threads p ! i)) - count_list [m] (Turn i)"
    if "i < length (threads p)" for i
  proof (cases "m = Turn i")
    case True
    with step have "thread_turn S E i p = Some p1" by simp
    then obtain ph c where "conn_step S E (th_phase (threads p ! i)) (th_conn (threads p ! i)) (server p) = Some (ph, c, server p1)"
      "threads p1 = (threads p)[i := \<lparr>th_phase = ph, th_conn = c\<rparr>]" by (auto elim: thread_turnE)
    with stopped_turn [OF _ Cons.prems(2)] that True show ?thesis by simp
  next
    case False
    with others_keep_thread [OF step False that] show ?thesis by simp
  qed
  with Cons.IH [OF run stop] len show ?case by (fastforce simp: algebra_simps)
qed simp

end
