(* ===== verification/ProgramShutdown.thy ===== *)
theory ProgramShutdown
  imports ProgramProperties TransferCleanup
begin

text \<open>
  The end of the program: \<^verbatim>\<open>aboutToQuit\<close> stops the components and the destructors follow. The
  connection threads of the transfer server are detached, so they go on beside both; what holds once
  they have run out rests on the theory \<open>TransferCleanup\<close>.
\<close>

section \<open>Destructors\<close>

text \<open>
  Each destructor calls \<^verbatim>\<open>stop\<close>, which joins the thread of a part that still runs; the manager's runs
  before its member, the server, is destroyed. The application has no body of its own, so its members
  go in the reverse order of their declaration: files, stream, adb, and the WebSocket server. The
  result is what the parts are left with, or \<open>None\<close> when a join does not return.
\<close>

definition server_destroy :: "'f os_api \<Rightarrow> bool \<Rightarrow> 'f FileTransferServer \<Rightarrow> 'f FileTransferServer option" where
  "server_destroy E ends sv = joins (m_running sv) ends (server_stop E sv)"

definition manager_destroy :: "'f os_api \<Rightarrow> bool \<Rightarrow> 'f FileTransferManager \<Rightarrow> 'f FileTransferManager option" where
  "manager_destroy E ends m =
     Option.bind (joins (m_running (m_server m)) ends (manager_stop E m)) (\<lambda>m1.
     map_option (\<lambda>sv. m1\<lparr>m_server := sv\<rparr>) (server_destroy E ends (m_server m1)))"

definition adb_destroy :: "bool \<Rightarrow> 'w AdbManager \<Rightarrow> 'w AdbManager option" where
  "adb_destroy ends d = joins (am_running d) ends (adb_stop d)"

definition ws_destroy :: "bool \<Rightarrow> 's WsServer \<Rightarrow> 's WsServer option" where
  "ws_destroy ends w = joins (ws_running w) ends (ws_stop w)"

text \<open>A member that \<^verbatim>\<open>init\<close> has not made has nothing to destroy.\<close>

definition member_destroy :: "('p \<Rightarrow> 'p option) \<Rightarrow> 'p option \<Rightarrow> ('p option) option" where
  "member_destroy destroy member = (case member of None \<Rightarrow> Some None | Some p \<Rightarrow> map_option Some (destroy p))"

definition app_destroy :: "'f os_api \<Rightarrow> (joined \<Rightarrow> bool) \<Rightarrow> ('f, 'w) App \<Rightarrow> ('f, 'w) App option" where
  "app_destroy E ends w =
     Option.bind (member_destroy (manager_destroy E (ends FilesThread)) (a_files (app w))) (\<lambda>files.
     Option.bind (member_destroy (receiver_destroy (ends StreamThreads)) (a_stream (app w))) (\<lambda>stream.
     Option.bind (member_destroy (adb_destroy (ends AdbThread)) (a_adb (app w))) (\<lambda>adb.
       ws_destroy (ends ServerThread) (on_app (\<lambda>a. a\<lparr>a_files := files, a_stream := stream, a_adb := adb\<rparr>) w))))"

section \<open>Halted\<close>

text \<open>Nothing is accepted, received, decoded or polled.\<close>

definition halted :: "('f, 'w) App \<Rightarrow> bool" where
  "halted w \<longleftrightarrow> \<not> ws_running w \<and> ws_sessions w = [] \<and>
     (\<exists>r. a_stream (app w) = Some r \<and> \<not> sr_running (rx r)) \<and> (\<exists>d. a_adb (app w) = Some d \<and> \<not> am_running d)"

text \<open>What happens in the program afterwards leaves it halted.\<close>

lemma halted_app:
  assumes "halted w" and "ws_running w' = ws_running w" and "ws_sessions w' = ws_sessions w"
    and "a_stream (app w') = a_stream (app w)" and "a_adb (app w') = a_adb (app w)"
  shows "halted w'"
  using assms by (simp add: halted_def)

lemma sendTo_halted: "halted w \<Longrightarrow> ws_sendTo sid text w = w"
  by (simp add: halted_def ws_sendTo_def on_session_def)

lemma fold_sendTo_halted: "halted w \<Longrightarrow> fold (\<lambda>(sid, text). ws_sendTo sid text) msgs w = w"
  by (induction msgs) (auto simp: sendTo_halted)

lemma deliver_halted:
  assumes "halted w"
  shows "halted (deliver_files m m' w)"
proof -
  let ?w = "on_app (\<lambda>a. a\<lparr>a_files := Some m',
    call_queue := call_queue a @ finished_calls (drop (length (signals m)) (signals m'))\<rparr>) w"
  have "halted ?w" using assms by (rule halted_app) (simp_all add: on_app_def)
  then show ?thesis by (simp add: deliver_files_def fold_sendTo_halted)
qed

lemma callbacks_halted:
  fixes E :: "'f os_api"
  shows "callbacks_keep (halted :: ('f, 'w) App \<Rightarrow> bool) (session_callbacks (app_callbacks J S E P))"
proof -
  have files: "halted w'" if "halted w" "run_files g w = Inr w'" for g and w w' :: "('f, 'w) App"
    using that by (auto simp: run_files_def bindE_Inr_iff deliver_halted split: option.splits)
  have removed: "halted (removeSession sid w)" if "halted w" for sid and w :: "('f, 'w) App"
    using that by (simp add: halted_def removeSession_def um_erase_def)
  have posted: "halted (post c w)" if "halted w" for c and w :: "('f, 'w) App"
    using that by (simp add: halted_def post_def on_app_def)
  have on: "halted (on_app g w)" if "halted w" "\<And>a. a_stream (g a) = a_stream a" "\<And>a. a_adb (g a) = a_adb a"
    for g and w :: "('f, 'w) App"
    using that by (simp add: halted_def on_app_def)
  have pair: "halted w'" if "halted w" "on_pair_request J S sid payload w = Inr w'" for sid payload and w w' :: "('f, 'w) App"
    using that on posted
    by (auto simp: on_pair_request_def on_paired_def bindE_Inr_iff Let_def sendTo_halted split: option.splits)
  show ?thesis
    unfolding callbacks_keep_def keeps1_def keeps2_def session_callbacks_def app_callbacks_def
    by (auto simp: call1_def call2_def on_device_connected_def on_device_disconnected_def intro: posted pair files removed)
qed

lemma stops: "receiver_stop ends r = Some r' \<Longrightarrow> \<not> sr_running (rx r')" "\<not> am_running (adb_stop d)"
  by (auto simp: receiver_stop_def stream_stop_def adb_stop_def Let_def split: option.splits prod.splits if_splits)

lemma idle_server_empty:
  assumes "ws_ok w" and "\<not> ws_running w"
  shows "ws_sessions w = []"
proof -
  have "\<not> ws_running v \<longrightarrow> ws_sessions v = []" if "ws_server_run (n, v)" for n and v :: "'a WsServer"
    using that
  proof (induction "(n, v)" arbitrary: n v rule: ws_server_run.induct)
    case (wsr_step n v n' v')
    from wsr_step(3,2) show ?case
      by (cases rule: ws_server_step.cases)
        (auto simp: ws_start_def ws_stop_def ws_accept_def handshake_failed_def removeSession_def um_erase_def ws_sendTo_def
          on_session_def ws_broadcast_def ws_run_broadcast_def split: option.splits list.splits if_splits)
  qed (simp add: newWsServer_def)
  with assms show ?thesis by (auto simp: ws_ok_def)
qed

lemma run_call_halted: "run_call J c w = Inr w' \<Longrightarrow> halted w \<Longrightarrow> halted w'"
  by (cases c) (auto simp: on_tray_def if_tray_def apply_flip_def halted_def on_app_def ws_broadcast_def
      receiver_setFlip_def split: option.splits)

lemma app_step_halted:
  assumes "app_step J S E P A rnd getContext scale SC w w'" and "halted w"
  shows "halted w'"
  using assms(1)
proof (cases rule: app_step.cases)
  case (as_read sid received)
  then obtain w1 msgs again where r: "onRead J (session_callbacks (app_callbacks J S E P)) sid received w = Inr (w1, msgs, again)"
    "w' = fold (ws_sendTo sid) msgs w1" by (auto simp: ws_read_def bindE_Inr_iff)
  have "halted w1" by (rule onRead_keeps [OF callbacks_halted r(1) assms(2)])
  then show ?thesis unfolding r(2) by (induction msgs arbitrary: w1) (auto simp: sendTo_halted)
next
  case as_call
  have "halted (on_app (\<lambda>a. a\<lparr>call_queue := cs\<rparr>) w)" for cs using assms(2) by (simp add: halted_def on_app_def)
  with as_call assms(2) show ?thesis by (auto simp: run_next_def split: list.splits intro: run_call_halted)
next
  case (as_click c)
  with assms(2) show ?thesis
    by (cases c) (auto simp: tray_click_step_def apply_flip_def halted_def on_app_def ws_broadcast_def
      receiver_setFlip_def Let_def split: option.splits)
next
  case (as_send paths)
  with assms(2) deliver_halted show ?thesis
    by (auto simp: send_files_def run_files_def bindE_Inr_iff split: if_splits option.splits)
next
  case (as_net quiet ss r rest s)
  with receive_turn_running [OF as_net(2)] assms(2) show ?thesis by (auto simp: halted_def on_stream_def on_app_def)
next
  case (as_decode r fs r')
  with assms(2) show ?thesis by (auto simp: halted_def receiver_decode_def decode_turn_def)
next
  case (as_quit ends)
  obtain m r r' d where "a_stream (app w) = Some r" "receiver_stop (ends StreamThreads) r = Some r'"
    "w' = ws_stop (on_app (\<lambda>a. a\<lparr>a_files := Some (manager_stop E m), a_stream := Some r', a_adb := Some (adb_stop d)\<rparr>) w)"
    by (rule about_to_quitE [OF as_quit]) blast
  with assms(2) stops show ?thesis by (auto simp: halted_def ws_stop_def on_app_def)
qed (use assms(2) in \<open>auto simp: halted_def on_session_def ws_accept_def ws_run_broadcast_def open_pairing_def
      close_pairing_def open_downloads_def on_stream_def post_def adb_turn_def on_app_def
      split: option.splits prod.splits if_splits\<close>)

lemma prog_run_halted:
  "prog_run J S E P A rnd getContext scale SC Q x ls y \<Longrightarrow> halted (whole x) \<Longrightarrow> halted (whole y)"
proof (induction rule: prog_run.induct)
  case (pg_step x ls y l z)
  from pg_step.hyps(2) show ?case
  proof (cases rule: prog_step.cases)
    case (pg_app w)
    with app_step_halted pg_step show ?thesis by fastforce
  next
    case (pg_accept c)
    with pg_step show ?thesis by (auto simp: accept_transfer_def split: option.splits if_splits)
  next
    case (pg_turn i)
    then obtain m m' where "whole z = deliver_files m m' (whole y)" by (auto elim: transfer_turnE)
    with pg_step deliver_halted show ?thesis by simp
  qed
qed simp

text \<open>
  \<^verbatim>\<open>aboutToQuit\<close> finds all its parts; it hangs exactly when the thread of a part that runs does not
  end, and it halts them otherwise.
\<close>

lemma quit_halts:
  assumes "prog_ok J S E P rnd getContext scale SC x"
  obtains "\<exists>j. part_runs j (whole x) \<and> \<not> ends j" and "about_to_quit E ends (whole x) = None"
  | w where "\<forall>j. part_runs j (whole x) \<longrightarrow> ends j" and "about_to_quit E ends (whole x) = Some (Inr w)" and "halted w"
      and "a_files (app w) = Some (manager_stop E (the (a_files (app (whole x)))))"
proof -
  from assms obtain m d r where parts: "a_files (app (whole x)) = Some m" "a_adb (app (whole x)) = Some d"
    "a_stream (app (whole x)) = Some r" and ws: "ws_ok (whole x)"
    by (auto simp: prog_ok_def app_ok_def parts_ok_def)
  note quit = about_to_quit_cases [OF parts(1,3,2), of E ends]
  show thesis
  proof (cases "\<exists>j. part_runs j (whole x) \<and> \<not> ends j")
    case True
    with quit that(1) show thesis by simp
  next
    case False
    with parts(3) receiver_stop_returns [of "ends StreamThreads" r] obtain r' where r': "receiver_stop (ends StreamThreads) r = Some r'"
      by (metis not_None_eq part_runs.simps(2))
    let ?w = "ws_stop (on_app (\<lambda>a. a\<lparr>a_files := Some (manager_stop E m), a_stream := Some r',
      a_adb := Some (adb_stop d)\<rparr>) (whole x))"
    have "halted ?w" using idle_server_empty [OF ws] stops(1) [OF r'] by (simp add: halted_def ws_stop_def on_app_def stops(2))
    moreover have "about_to_quit E ends (whole x) = Some (Inr ?w)" unfolding quit if_not_P [OF False] r' ..
    moreover have "a_files (app ?w) = Some (manager_stop E (the (a_files (app (whole x)))))"
      using parts(1) by simp
    ultimately show thesis using that(2) [of ?w] False by blast
  qed
qed

text \<open>A halted program has nothing left for its destructors but the decoder and the camera.\<close>

lemma destroy_halted:
  assumes "halted w" and "a_files (app w) = Some m" and "\<not> m_running (m_server m)" and "a_stream (app w) = Some r"
  shows "app_destroy E ends w = Some (on_app (\<lambda>a. a\<lparr>a_stream := receiver_destroy True r\<rparr>) w)"
    and "receiver_destroy b r = receiver_destroy True r" and "receiver_destroy True r \<noteq> None"
proof -
  from assms(1,4) obtain d where d: "a_adb (app w) = Some d" "\<not> am_running d" "\<not> ws_running w" "\<not> sr_running (rx r)"
    by (auto simp: halted_def)
  then have r: "receiver_destroy b r = receiver_destroy True r" "receiver_destroy True r \<noteq> None" for b
    by (simp_all add: receiver_destroy_def receiver_stop_def)
  then show "receiver_destroy b r = receiver_destroy True r" "receiver_destroy True r \<noteq> None" .
  have files: "manager_destroy E e m = Some m" for e
    using assms(3) by (simp add: manager_destroy_def manager_stop_def server_destroy_def server_stop_def joins_def)
  from r(2) obtain r' where r': "receiver_destroy True r = Some r'" by blast
  have "(app w)\<lparr>a_files := Some m, a_stream := Some r', a_adb := Some d\<rparr> = (app w)\<lparr>a_stream := Some r'\<rparr>"
    using assms(2) d(1) by (intro AppState.equality) simp_all
  with d(1-3) assms(2,4) files r(1) [of "ends StreamThreads"] r' show "app_destroy E ends w = Some (on_app (\<lambda>a. a\<lparr>a_stream := receiver_destroy True r\<rparr>) w)"
    by (simp add: app_destroy_def member_destroy_def on_app_def ws_destroy_def ws_stop_def adb_destroy_def adb_stop_def joins_def)
qed

lemma tidy_closed:
  assumes "tidy E V before p" and "list_all (\<lambda>th. th_phase th = Closed) (threads p)" and "V (disk (server p)) path \<noteq> None"
  shows "before path \<noteq> None \<or> path \<in> final_names E (server p) \<or> path \<in> stray_names E (server p)"
  using assms by (fastforce simp: tidy_def left_names_def list_all_iff)

lemma quit_run:
  assumes "\<not> m_running (the_server y)" and "a_files (app (whole y)) \<noteq> None"
    and "prog_run J S E P A rnd getContext scale SC Q y ls z"
  shows "\<not> m_running (the_server z)"
    and "\<forall>i < length (connections y). 3 \<le> count_list ls (TransferTurn i) \<Longrightarrow>
      list_all (\<lambda>th. th_phase th = Closed) (connections z)"
proof -
  from prog_run_moves [OF assms(3,2)] obtain ms where run: "pool_run S E ms (pool_of y) = Some (pool_of z)"
    and shown: "filter (\<lambda>m. \<not> owner_move m) ms = concat (map shown ls)" by blast
  note stop = stopped_run [OF run, unfolded pool_of_def pool.select_convs, OF assms(1)]
  show "\<not> m_running (the_server z)" using stop by simp
  assume turns: "\<forall>i < length (connections y). 3 \<le> count_list ls (TransferTurn i)"
  have "th_phase (connections z ! i) = Closed" if "i < length (connections z)" for i
  proof -
    have "turns_left (th_phase (connections z ! i)) \<le> turns_left (th_phase (connections y ! i)) - count_list ms (Turn i)"
      using stop that by simp
    moreover have "3 \<le> count_list ms (Turn i)"
      using turns that stop unfolding count_turns [of ms] shown count_shown by simp
    moreover have "turns_left (th_phase (connections y ! i)) \<le> 3" by (cases "th_phase (connections y ! i)") simp_all
    ultimately have "turns_left (th_phase (connections z ! i)) = 0" by arith
    then show ?thesis by (cases "th_phase (connections z ! i)") simp_all
  qed
  then show "list_all (\<lambda>th. th_phase th = Closed) (connections z)" by (simp add: list_all_length)
qed

text \<open>All of that, and a camera that is closed and can be freed.\<close>

definition shut_down :: "'f os_api \<Rightarrow> ('h, 'f, 'w) program \<Rightarrow> bool" where
  "shut_down E z \<longleftrightarrow> halted (whole z) \<and> \<not> m_running (the_server z) \<and> (\<forall>c. accept_transfer c z = None) \<and>
     (\<exists>r r'. a_stream (app (whole z)) = Some r \<and> (\<forall>v. m_camera r = Some v \<longrightarrow> \<not> isOpen v) \<and>
        (\<forall>ends. receiver_destroy (ends StreamThreads) r = Some r' \<and>
           app_destroy E ends (whole z) = Some (on_app (\<lambda>a. a\<lparr>a_stream := Some r'\<rparr>) (whole z))) \<and>
        cam_replay frame_fits (cam_calls r') Unloaded = Some Unloaded)"

lemma shut_downI:
  assumes "prog_ok J S E P rnd getContext scale SC z" and "double_laws rnd" and "scale_laws scale"
    and "halted (whole z)" and "\<not> m_running (the_server z)"
  shows "shut_down E z"
proof -
  from assms(1) obtain m r where parts: "a_files (app (whole z)) = Some m" "a_stream (app (whole z)) = Some r"
    "receiver_reachable rnd getContext scale SC 0 0 r" by (auto simp: prog_ok_def app_ok_def parts_ok_def)
  have sides: "side_ok (canvas_side 0 1920)" "side_ok (canvas_side 0 1080)" by (simp_all add: canvas_side_def side_ok_def)
  note inv = receiver_reachable_inv [OF assms(2,3) sides parts(3)]
  have "\<not> sr_running (rx r)" using assms(4) parts(2) by (simp add: halted_def)
  with inv have "\<forall>v. m_camera r = Some v \<longrightarrow> \<not> isOpen v" by (auto simp: receiver_inv_def)
  moreover have m: "\<not> m_running (m_server m)" using assms(5) parts(1) by (simp add: the_server_def)
  moreover have "accept_transfer c z = None" for c using m parts(1) by (simp add: accept_transfer_def)
  moreover obtain r' where r': "receiver_destroy True r = Some r'"
    using destroy_halted(3) [OF assms(4) parts(1) m parts(2)] by blast
  moreover note destroyed = destroy_halted(1,2) [OF assms(4) parts(1) m parts(2), unfolded r']
  ultimately show ?thesis
    using assms(4,5) parts(2) destroy_unloads [OF inv r'] unfolding shut_down_def by metis
qed

lemma after_quit:
  assumes "fs_laws E V" and "double_laws rnd" and "scale_laws scale"
    and start: "prog_reachable J S E P A rnd getContext scale SC Q x0"
    and before: "prog_run J S E P A rnd getContext scale SC (\<lambda>_. True) x0 ls x"
    and quit: "about_to_quit E ends (whole x) = Some (Inr w)" and halt: "halted w"
    and files: "a_files (app w) = Some (manager_stop E (the (a_files (app (whole x)))))"
    and run: "prog_run J S E P A rnd getContext scale SC (\<lambda>_. True) (x\<lparr>whole := w\<rparr>) ls' z"
  shows "shut_down E z \<and>
    ((\<forall>i < length (connections x). 3 \<le> count_list ls' (TransferTurn i)) \<longrightarrow>
      list_all (\<lambda>th. th_phase th = Closed) (connections z) \<and>
      (fs_removes E V \<longrightarrow> (\<forall>path. V (disk (the_server z)) path \<noteq> None \<longrightarrow>
        V (disk (the_server x0)) path \<noteq> None \<or> path \<in> final_names E (the_server z) \<or>
        path \<in> stray_names E (the_server z))))"
proof -
  let ?y = "x\<lparr>whole := w\<rparr>"
  have step: "prog_step J S E P A rnd getContext scale SC InApp x ?y" by (rule pg_app [OF as_quit [OF quit]])
  have off: "\<not> m_running (the_server ?y)" "a_files (app (whole ?y)) \<noteq> None"
    using files by (simp_all add: the_server_def manager_stop_def server_stop_sels)
  have "tidy E V (V (disk (the_server x0))) (pool_of x0)" by (auto simp: tidy_def pool_of_def)
  note tidy = pool_run_tidy [OF assms(1) _ _ prog_reachable_safe [OF start] this]
  have whole: "prog_run J S E P A rnd getContext scale SC (\<lambda>_. True) x0 ((ls @ [InApp]) @ ls') z"
    by (rule prog_run_append [OF run prog_run.pg_step [OF before step]]) simp
  from prog_run_moves [OF whole prog_ok_files [OF prog_reachable_ok [OF start]]] obtain ms where
    ms: "pool_run S E ms (pool_of x0) = Some (pool_of z)" by blast
  have "halted (whole z)" using prog_run_halted [OF run] halt by simp
  note down = shut_downI [OF prog_reachable_ok [OF prog_reachable_run [OF start whole]] assms(2,3) this quit_run(1) [OF off run]]
  have "list_all (\<lambda>th. th_phase th = Closed) (connections z)"
    if "\<forall>i < length (connections x). 3 \<le> count_list ls' (TransferTurn i)"
    using quit_run(2) [OF off run] that by simp
  with down tidy_closed [OF tidy [OF _ ms]] show ?thesis by (simp add: pool_of_def)
qed

section \<open>Properties\<close>


lemma receiver_start_runs: "sr_running (rx (snd (receiver_start True True r)))"
  by (simp add: receiver_start_def stream_start_def decoder_init_def Let_def split: prod.split)


end
