(* ===== verification/VideoCodec.thy ===== *)
theory VideoCodec
  imports VideoPipeline
begin

text \<open>
  \<^verbatim>\<open>VideoDecoder::pushNalu\<close> and \<^verbatim>\<open>decode\<close> (\<^verbatim>\<open>src/core/VideoDecoder.cpp\<close>) against the codec.
  libavcodec is the parameter \<open>K\<close>: its context is a value of \<open>'c\<close> that \<open>send_packet\<close> and
  \<open>receive_frame\<close> change. \<^verbatim>\<open>decode\<close> asks for pictures until the codec has none, which is a loop
  that ends only because of what the library documents (\<open>codec_drains\<close>); it is a partial function
  here and proved to return. The theory \<open>VideoPipeline\<close> lets the environment choose the pictures
  of a unit; the turns below, where the codec makes them, are a case of its turns.
\<close>

section \<open>The codec\<close>

text \<open>
  The results are FFmpeg's: a packet is refused with a negative number, and there is a picture
  exactly when \<open>receive_frame\<close> gives 0.
\<close>

record 'c codec_api =
  send_packet :: "bytes \<Rightarrow> 'c \<Rightarrow> int \<times> 'c"
  receive_frame :: "'c \<Rightarrow> int \<times> picture \<times> 'c"

text \<open>
  One packet makes finitely many pictures: after the last, \<^verbatim>\<open>avcodec_receive_frame\<close> answers that it
  wants new input.
\<close>

definition codec_drains :: "'c codec_api \<Rightarrow> ('c \<Rightarrow> nat) \<Rightarrow> bool" where
  "codec_drains K pending \<longleftrightarrow>
     (\<forall>c f c'. receive_frame K c = (0, f, c') \<longrightarrow> pending c' < pending c)"

section \<open>The loop of decode\<close>

text \<open>\<open>body\<close> is what is done with a picture, in whatever state the caller keeps.\<close>

partial_function (option) frame_loop ::
  "'c codec_api \<Rightarrow> (picture \<Rightarrow> 's \<Rightarrow> 's) \<Rightarrow> 'c \<Rightarrow> 's \<Rightarrow> ('c \<times> 's) option" where
  [code]: "frame_loop K body c s =
     (case receive_frame K c of (ret, f, c') \<Rightarrow>
        if ret = 0 then frame_loop K body c' (body f s) else Some (c', s))"

definition decode_packet ::
  "'c codec_api \<Rightarrow> (picture \<Rightarrow> 's \<Rightarrow> 's) \<Rightarrow> bytes \<Rightarrow> 'c \<Rightarrow> 's \<Rightarrow> ('c \<times> 's) option" where
  "decode_packet K body pkt c s =
     (case send_packet K pkt c of (ret, c1) \<Rightarrow>
        if ret < 0 then Some (c1, s) else frame_loop K body c1 s)"

text \<open>
  \<^verbatim>\<open>pushNalu\<close>: the packet is a copy of the unit; with \<^verbatim>\<open>decode\<close>'s own body for a picture.
\<close>

definition decode_body ::
  "(rat \<Rightarrow> rat) \<Rightarrow> (VideoDecoder \<Rightarrow> bool) \<Rightarrow> (picture \<Rightarrow> int \<Rightarrow> int \<Rightarrow> pixel list list) \<Rightarrow>
   picture \<Rightarrow> VideoDecoder \<Rightarrow> VideoDecoder" where
  "decode_body rnd getContext scale f d = convertToRgb scale f (new_geometry rnd getContext f d)"

definition pushNalu ::
  "'c codec_api \<Rightarrow> (rat \<Rightarrow> rat) \<Rightarrow> (VideoDecoder \<Rightarrow> bool) \<Rightarrow> (picture \<Rightarrow> int \<Rightarrow> int \<Rightarrow> pixel list list) \<Rightarrow>
   bytes \<Rightarrow> 'c \<Rightarrow> VideoDecoder \<Rightarrow> ('c \<times> VideoDecoder) option" where
  "pushNalu K rnd getContext scale nalu c d = decode_packet K (decode_body rnd getContext scale) nalu c d"

text \<open>
  The codec after a packet and the pictures it made of it.
\<close>

definition packet_pictures :: "'c codec_api \<Rightarrow> bytes \<Rightarrow> 'c \<Rightarrow> ('c \<times> picture list) option" where
  "packet_pictures K nalu c = decode_packet K (\<lambda>f fs. fs @ [f]) nalu c []"

lemma frame_loop_fold:
  assumes "codec_drains K pending"
  shows "\<exists>c' fs. length fs \<le> pending c \<and>
    (\<forall>(body :: picture \<Rightarrow> 's \<Rightarrow> 's) s. frame_loop K body c s = Some (c', fold body fs s)) \<and>
    (\<forall>(body :: picture \<Rightarrow> 't \<Rightarrow> 't) s. frame_loop K body c s = Some (c', fold body fs s))"
proof (induction "pending c" arbitrary: c rule: less_induct)
  case less
  obtain ret f c1 where r: "receive_frame K c = (ret, f, c1)" by (metis prod_cases3)
  show ?case
  proof (cases "ret = 0")
    case True
    with r assms have "pending c1 < pending c" by (auto simp: codec_drains_def)
    from less [OF this] obtain c' fs where IH: "length fs \<le> pending c1"
      "\<And>(body :: picture \<Rightarrow> 's \<Rightarrow> 's) s. frame_loop K body c1 s = Some (c', fold body fs s)"
      "\<And>(body :: picture \<Rightarrow> 't \<Rightarrow> 't) s. frame_loop K body c1 s = Some (c', fold body fs s)" by blast
    show ?thesis
    proof (intro exI conjI allI)
      show "length (f # fs) \<le> pending c" using IH(1) \<open>pending c1 < pending c\<close> by simp
      show "frame_loop K body c s = Some (c', fold body (f # fs) s)" for body :: "picture \<Rightarrow> 's \<Rightarrow> 's" and s
        by (subst frame_loop.simps) (simp add: r True IH(2))
      show "frame_loop K body c s = Some (c', fold body (f # fs) s)" for body :: "picture \<Rightarrow> 't \<Rightarrow> 't" and s
        by (subst frame_loop.simps) (simp add: r True IH(3))
    qed
  next
    case False
    show ?thesis
    proof (intro exI conjI allI)
      show "length [] \<le> pending c" by simp
      show "frame_loop K body c s = Some (c1, fold body [] s)" for body :: "picture \<Rightarrow> 's \<Rightarrow> 's" and s
        by (subst frame_loop.simps) (simp add: r False)
      show "frame_loop K body c s = Some (c1, fold body [] s)" for body :: "picture \<Rightarrow> 't \<Rightarrow> 't" and s
        by (subst frame_loop.simps) (simp add: r False)
    qed
  qed
qed

text \<open>Pushing a unit returns, and does what doing the body for each of its pictures does.\<close>

lemma decode_packet_pictures:
  assumes "codec_drains K pending"
  obtains c' fs where "packet_pictures K nalu c = Some (c', fs)"
    and "\<And>(body :: picture \<Rightarrow> 's \<Rightarrow> 's) s. decode_packet K body nalu c s = Some (c', fold body fs s)"
proof -
  obtain ret c1 where s: "send_packet K nalu c = (ret, c1)" by fastforce
  show thesis
  proof (cases "ret < 0")
    case True
    with s that [of c1 "[]"] show thesis by (simp add: packet_pictures_def decode_packet_def)
  next
    case False
    from frame_loop_fold [OF assms, of c1] obtain c' fs where
      l: "\<And>(body :: picture \<Rightarrow> picture list \<Rightarrow> picture list) s. frame_loop K body c1 s = Some (c', fold body fs s)"
      "\<And>(body :: picture \<Rightarrow> 's \<Rightarrow> 's) s. frame_loop K body c1 s = Some (c', fold body fs s)" by blast
    have "fold (\<lambda>f fs. fs @ [f]) fs acc = acc @ fs" for acc :: "picture list"
      by (induction fs arbitrary: acc) simp_all
    with that [of c' fs] l False s show thesis by (simp add: packet_pictures_def decode_packet_def)
  qed
qed

section \<open>The decoder thread\<close>

text \<open>
  One turn of \<^verbatim>\<open>decodeLoop\<close> with the codec beside the receiver that owns it. \<open>e\<close> is what softcam
  does if the camera is opened, in a given state.
\<close>

definition receiver_push ::
  "'c codec_api \<Rightarrow> (rat \<Rightarrow> rat) \<Rightarrow> (VideoDecoder \<Rightarrow> bool) \<Rightarrow> (picture \<Rightarrow> int \<Rightarrow> int \<Rightarrow> pixel list list) \<Rightarrow>
   (VideoReceiver \<Rightarrow> softcam) \<Rightarrow> 'c \<times> VideoReceiver \<Rightarrow> ('c \<times> VideoReceiver) option" where
  "receiver_push K rnd getContext scale e = (\<lambda>(c, p).
     if \<not> sr_running (rx p) then None
     else case dequeue_nalu (rx p) of
       None \<Rightarrow> None
     | Some (nalu, s) \<Rightarrow>
         decode_packet K (\<lambda>f p. show_picture rnd getContext scale (e p, f) p) nalu c
           (p\<lparr>rx := s\<lparr>decoded := decoded s @ [nalu]\<rparr>\<rparr>))"

lemma fold_environment:
  "\<exists>es. length es = length fs \<and> set es \<subseteq> range e \<and>
     fold (\<lambda>f p. show_picture rnd getContext scale (e p, f) p) fs p =
     fold (show_picture rnd getContext scale) (zip es fs) p"
proof (induction fs arbitrary: p)
  case (Cons f fs)
  from Cons [of "show_picture rnd getContext scale (e p, f) p"] obtain es where
    "length es = length fs" "set es \<subseteq> range e"
    "fold (\<lambda>f p. show_picture rnd getContext scale (e p, f) p) fs (show_picture rnd getContext scale (e p, f) p) =
     fold (show_picture rnd getContext scale) (zip es fs) (show_picture rnd getContext scale (e p, f) p)" by blast
  then show ?case by (intro exI [of _ "e p # es"]) simp
qed simp

text \<open>With a codec that drains, the turn returns, and it is one of the receiver's turns.\<close>

lemma receiver_push_step:
  assumes "codec_drains K pending" and "range e \<subseteq> Collect SC" and "sr_running (rx p)"
    and "s_naluQueue (rx p) = nalu # rest"
  obtains c' fs es where "packet_pictures K nalu c = Some (c', fs)"
    and "receiver_push K rnd getContext scale e (c, p) =
      Some (c', fold (show_picture rnd getContext scale) (zip es fs)
        (p\<lparr>rx := (rx p)\<lparr>s_naluQueue := rest, decoded := decoded (rx p) @ [nalu]\<rparr>\<rparr>))"
    and "receiver_decode rnd getContext scale (zip es fs) p =
      Some (fold (show_picture rnd getContext scale) (zip es fs)
        (p\<lparr>rx := (rx p)\<lparr>s_naluQueue := rest, decoded := decoded (rx p) @ [nalu]\<rparr>\<rparr>))"
    and "length es = length fs" and "list_all (\<lambda>(e, f). SC e) (zip es fs)"
proof -
  let ?p = "p\<lparr>rx := (rx p)\<lparr>s_naluQueue := rest, decoded := decoded (rx p) @ [nalu]\<rparr>\<rparr>"
  have deq: "dequeue_nalu (rx p) = Some (nalu, (rx p)\<lparr>s_naluQueue := rest\<rparr>)"
    using assms(4) by (simp add: dequeue_nalu_def)
  from decode_packet_pictures [OF assms(1), of nalu c, where 's = VideoReceiver] obtain c' fs where
    fs: "packet_pictures K nalu c = Some (c', fs)"
    "\<And>(body :: picture \<Rightarrow> VideoReceiver \<Rightarrow> VideoReceiver) s. decode_packet K body nalu c s = Some (c', fold body fs s)"
    by metis
  from fold_environment [of fs e rnd getContext scale ?p] obtain es where es: "length es = length fs" "set es \<subseteq> range e"
    "fold (\<lambda>f p. show_picture rnd getContext scale (e p, f) p) fs ?p = fold (show_picture rnd getContext scale) (zip es fs) ?p"
    by blast
  have "receiver_push K rnd getContext scale e (c, p) = Some (c', fold (show_picture rnd getContext scale) (zip es fs) ?p)"
    using assms(3) es(3) by (simp add: receiver_push_def deq fs(2))
  moreover have "receiver_decode rnd getContext scale (zip es fs) p = Some (fold (show_picture rnd getContext scale) (zip es fs) ?p)"
    using assms(3) by (simp add: receiver_decode_def decode_turn_def deq)
  moreover have "list_all (\<lambda>(e, f). SC e) (zip es fs)"
    using es(2) assms(2) by (fastforce simp: list_all_iff dest!: set_zip_leftD)
  ultimately show thesis using that fs(1) es(1) by blast
qed

section \<open>From the socket to the camera\<close>

text \<open>What the units make of a decoder, without threads, queue and camera.\<close>

fun push_units ::
  "'c codec_api \<Rightarrow> (rat \<Rightarrow> rat) \<Rightarrow> (VideoDecoder \<Rightarrow> bool) \<Rightarrow> (picture \<Rightarrow> int \<Rightarrow> int \<Rightarrow> pixel list list) \<Rightarrow>
   bytes list \<Rightarrow> 'c \<times> VideoDecoder \<Rightarrow> ('c \<times> VideoDecoder) option" where
  "push_units K rnd getContext scale [] cd = Some cd"
| "push_units K rnd getContext scale (nalu # ns) cd =
     Option.bind (pushNalu K rnd getContext scale nalu (fst cd) (snd cd)) (push_units K rnd getContext scale ns)"

lemma push_units_snoc:
  "push_units K rnd getContext scale (ns @ [nalu]) cd =
   Option.bind (push_units K rnd getContext scale ns cd)
     (\<lambda>(c, d). pushNalu K rnd getContext scale nalu c d)"
proof (induction ns arbitrary: cd)
  case Nil
  have "push_units K rnd getContext scale [] = Some" by (rule ext) simp
  then show ?case by (simp add: case_prod_beta)
next
  case (Cons n ns)
  then show ?case by (cases "pushNalu K rnd getContext scale n (fst cd) (snd cd)") simp_all
qed

lemma show_picture_decoder:
  assumes "m_decoder p = Some d" and "on_frames p = frames d"
  shows "m_decoder (show_picture rnd getContext scale (e, f) p) = Some (decode_body rnd getContext scale f d)"
    and "on_frames (show_picture rnd getContext scale (e, f) p) = frames (decode_body rnd getContext scale f d)"
    and "rx (show_picture rnd getContext scale (e, f) p) = rx p"
proof -
  have body: "decode_pictures rnd getContext scale [f] d = decode_body rnd getContext scale f d"
    by (simp add: decode_pictures_def decode_body_def)
  have "\<exists>new. frames (decode_body rnd getContext scale f d) = frames d @ new"
    by (simp add: decode_body_def convertToRgb_def new_geometry_def fit_picture_def fit_width_def fit_height_def Let_def)
  then obtain new where new: "frames (decode_body rnd getContext scale f d) = frames d @ new" ..
  show "m_decoder (show_picture rnd getContext scale (e, f) p) = Some (decode_body rnd getContext scale f d)"
    "on_frames (show_picture rnd getContext scale (e, f) p) = frames (decode_body rnd getContext scale f d)"
    "rx (show_picture rnd getContext scale (e, f) p) = rx p"
    using assms new by (simp_all add: show_picture_def body Let_def)
qed

lemma show_pictures_decoder:
  assumes "m_decoder p = Some d" and "on_frames p = frames d" and "length es = length fs"
  shows "m_decoder (fold (show_picture rnd getContext scale) (zip es fs) p) = Some (fold (decode_body rnd getContext scale) fs d)"
    and "on_frames (fold (show_picture rnd getContext scale) (zip es fs) p) = frames (fold (decode_body rnd getContext scale) fs d)"
    and "rx (fold (show_picture rnd getContext scale) (zip es fs) p) = rx p"
  using assms(3,1,2)
  by (induction es fs arbitrary: p d rule: list_induct2) (simp_all add: show_picture_decoder)

text \<open>
  The two threads on one connection: the network thread cuts off a unit, or the decoder thread
  pushes one into the codec.
\<close>

inductive pipeline_step ::
  "'c codec_api \<Rightarrow> (rat \<Rightarrow> rat) \<Rightarrow> (VideoDecoder \<Rightarrow> bool) \<Rightarrow> (picture \<Rightarrow> int \<Rightarrow> int \<Rightarrow> pixel list list) \<Rightarrow>
   (VideoReceiver \<Rightarrow> softcam) \<Rightarrow> segments \<times> 'c \<times> VideoReceiver \<Rightarrow> segments \<times> 'c \<times> VideoReceiver \<Rightarrow> bool"
  for K rnd getContext scale e where
  ps_net: "receive_turn silent ss (rx p) = Some (Some ss', s) \<Longrightarrow>
    pipeline_step K rnd getContext scale e (ss, c, p) (ss', c, p\<lparr>rx := s\<rparr>)"
| ps_push: "receiver_push K rnd getContext scale e (c, p) = Some (c', p') \<Longrightarrow>
    pipeline_step K rnd getContext scale e (ss, c, p) (ss, c', p')"

inductive pipeline_run ::
  "'c codec_api \<Rightarrow> (rat \<Rightarrow> rat) \<Rightarrow> (VideoDecoder \<Rightarrow> bool) \<Rightarrow> (picture \<Rightarrow> int \<Rightarrow> int \<Rightarrow> pixel list list) \<Rightarrow>
   (VideoReceiver \<Rightarrow> softcam) \<Rightarrow> segments \<times> 'c \<times> VideoReceiver \<Rightarrow> segments \<times> 'c \<times> VideoReceiver \<Rightarrow> bool"
  for K rnd getContext scale e where
  pr_refl: "pipeline_run K rnd getContext scale e x x"
| pr_step: "pipeline_run K rnd getContext scale e x y \<Longrightarrow> pipeline_step K rnd getContext scale e y z \<Longrightarrow>
    pipeline_run K rnd getContext scale e x z"

definition pipeline_inv ::
  "'c codec_api \<Rightarrow> (rat \<Rightarrow> rat) \<Rightarrow> (VideoDecoder \<Rightarrow> bool) \<Rightarrow> (picture \<Rightarrow> int \<Rightarrow> int \<Rightarrow> pixel list list) \<Rightarrow>
   (softcam \<Rightarrow> bool) \<Rightarrow> int \<Rightarrow> int \<Rightarrow> bytes \<Rightarrow> 'c \<times> VideoDecoder \<Rightarrow> segments \<times> 'c \<times> VideoReceiver \<Rightarrow> bool" where
  "pipeline_inv K rnd getContext scale SC W H data cd = (\<lambda>(ss, c, p).
     stream_inv data (ss, rx p) \<and> receiver_inv SC W H p \<and> sr_running (rx p) \<and>
     (\<exists>d. push_units K rnd getContext scale (decoded (rx p)) cd = Some (c, d) \<and>
       m_decoder p = Some d \<and> on_frames p = frames d))"

lemma receiver_push_inv:
  assumes "codec_drains K pending" and "range e \<subseteq> Collect SC" and "double_laws rnd" and "scale_laws scale"
    and "side_ok W" and "side_ok H" and "pipeline_inv K rnd getContext scale SC W H data cd (ss, c, p)"
    and "receiver_push K rnd getContext scale e (c, p) = Some (c', p')"
  shows "pipeline_inv K rnd getContext scale SC W H data cd (ss, c', p')"
proof -
  from assms(7) obtain d where inv: "stream_inv data (ss, rx p)" "receiver_inv SC W H p" "sr_running (rx p)"
    and d: "push_units K rnd getContext scale (decoded (rx p)) cd = Some (c, d)" "m_decoder p = Some d" "on_frames p = frames d"
    by (auto simp: pipeline_inv_def)
  from assms(8) obtain nalu rest where q: "s_naluQueue (rx p) = nalu # rest"
    by (auto simp: receiver_push_def dequeue_nalu_def split: if_splits list.splits)
  let ?p = "p\<lparr>rx := (rx p)\<lparr>s_naluQueue := rest, decoded := decoded (rx p) @ [nalu]\<rparr>\<rparr>"
  obtain c2 fs es where
    made: "packet_pictures K nalu c = Some (c2, fs)"
    "receiver_push K rnd getContext scale e (c, p) = Some (c2, fold (show_picture rnd getContext scale) (zip es fs) ?p)"
    "receiver_decode rnd getContext scale (zip es fs) p = Some (fold (show_picture rnd getContext scale) (zip es fs) ?p)"
    "length es = length fs" "list_all (\<lambda>(e, f). SC e) (zip es fs)"
    by (rule receiver_push_step [OF assms(1,2) inv(3) q])
  with assms(8) have push: "packet_pictures K nalu c = Some (c', fs)"
    "p' = fold (show_picture rnd getContext scale) (zip es fs) ?p"
    "receiver_decode rnd getContext scale (zip es fs) p = Some p'" "length es = length fs"
    "list_all (\<lambda>(e, f). SC e) (zip es fs)" by simp_all
  have d1: "m_decoder ?p = Some d" "on_frames ?p = frames d" using d by simp_all
  note shown = show_pictures_decoder [OF d1 push(4), of rnd getContext scale, folded push(2)]
  from decode_packet_pictures [OF assms(1), of nalu c, where 's = VideoDecoder] obtain c2 fs2 where
    "packet_pictures K nalu c = Some (c2, fs2)"
    "\<And>(body :: picture \<Rightarrow> VideoDecoder \<Rightarrow> VideoDecoder) s. decode_packet K body nalu c s = Some (c2, fold body fs2 s)"
    by metis
  with push(1) have pushed: "pushNalu K rnd getContext scale nalu c d = Some (c', fold (decode_body rnd getContext scale) fs d)"
    by (simp add: pushNalu_def)
  have "stream_step (ss, rx p) (ss, rx p')"
    unfolding shown(3) by (rule ss_decode) (simp add: decode_turn_def dequeue_nalu_def q inv(3))
  from stream_step_inv [OF this inv(1)] have "stream_inv data (ss, rx p')" .
  moreover have "receiver_inv SC W H p'"
    by (rule receiver_step_inv [OF assms(3-6) rc_decode [OF push(5,3)] inv(2)])
  ultimately show ?thesis
    using shown inv(3) by (simp add: pipeline_inv_def push_units_snoc d(1) pushed)
qed

lemma pipeline_step_inv:
  assumes "codec_drains K pending" and "range e \<subseteq> Collect SC" and "double_laws rnd" and "scale_laws scale"
    and "side_ok W" and "side_ok H" and "pipeline_step K rnd getContext scale e x y"
    and "pipeline_inv K rnd getContext scale SC W H data cd x"
  shows "pipeline_inv K rnd getContext scale SC W H data cd y"
  using assms(7)
proof (cases rule: pipeline_step.cases)
  case (ps_net silent ss p ss' s c)
  have run: "sr_running s = sr_running (rx p)" by (rule receive_turn_running [OF ps_net(3)])
  have dec: "decoded s = decoded (rx p)"
    using receive_turn_frame [OF ps_net(3)] by (metis enqueue_sels(2))
  have "stream_inv data (ss', s)"
    by (rule stream_step_inv [OF ss_net [OF ps_net(3)]]) (use assms(8) in \<open>simp add: ps_net pipeline_inv_def\<close>)
  with assms(8) rx_inv [OF _ run, of SC W H] show ?thesis by (simp add: ps_net pipeline_inv_def run dec)
next
  case (ps_push c p c' p' ss)
  with receiver_push_inv [OF assms(1-6)] assms(8) show ?thesis by blast
qed

lemma pipeline_run_inv:
  assumes "codec_drains K pending" and "range e \<subseteq> Collect SC" and "double_laws rnd" and "scale_laws scale"
    and "side_ok W" and "side_ok H" and "pipeline_run K rnd getContext scale e x y"
    and "pipeline_inv K rnd getContext scale SC W H data cd x"
  shows "pipeline_inv K rnd getContext scale SC W H data cd y"
  using assms(7,8) by (induction rule: pipeline_run.induct) (blast intro: pipeline_step_inv [OF assms(1-6)])+

lemma pipeline_start:
  assumes "side_ok (canvas_side w 1920)" and "side_ok (canvas_side h 1080)"
    and "receiver_start True True (receiver_setFlip flip (newVideoReceiver [] w h fps)) = (True, p)"
  obtains d where "m_decoder p = Some d" "m_onFrame d" "m_flipHorizontal d = flip"
    and "pipeline_inv K rnd getContext scale SC (canvas_side w 1920) (canvas_side h 1080) (avail ss) (c, d) (ss, c, p)"
proof -
  let ?W = "canvas_side w 1920" and ?H = "canvas_side h 1080"
  let ?p0 = "receiver_setFlip flip (newVideoReceiver [] w h fps)"
  have "receiver_inv SC ?W ?H ?p0"
    by (simp add: receiver_inv_def receiver_setFlip_def setFlipHorizontal_def newVideoReceiver_def newStreamReceiver_def
        canvas_side_def Let_def)
  from start_inv [OF this assms(1,2) _ assms(3)] have inv: "receiver_inv SC ?W ?H p"
    by (simp add: receiver_setFlip_def setFlipHorizontal_def newVideoReceiver_def newStreamReceiver_def Let_def)
  from assms(3) obtain d where d: "m_decoder p = Some d" "m_onFrame d" "m_flipHorizontal d = flip" "frames d = []"
    and p: "on_frames p = []" "sr_running (rx p)" "s_naluQueue (rx p) = []" "decoded (rx p) = []"
    by (auto simp: receiver_start_def decoder_init_def stream_start_def receiver_setFlip_def setFlipHorizontal_def
        newVideoReceiver_def newStreamReceiver_def newVideoDecoder_def destroy_camera_def Let_def)
  have "stream_inv (avail ss) (ss, rx p)" using p by (auto simp: stream_inv_def intro: exI [of _ "[]"])
  with inv d p have "pipeline_inv K rnd getContext scale SC ?W ?H (avail ss) (c, d) (ss, c, p)"
    by (simp add: pipeline_inv_def)
  with d that show thesis by blast
qed

section \<open>Properties\<close>

text \<open>
  C31: the video goes from the socket to the camera. On a receiver that has just been started,
  however its two threads interleave on a connection, and whatever codec makes pictures of the
  units as long as it runs dry after each: the decoder's state is what pushing the decoded units
  one by one into a decoder makes, which always returns; the units decoded and the units waiting
  are in order what the received bytes are made of, all of them up to the depth of the queue;
  the frame callback got exactly that decoder's frames, and the camera exactly those, in order,
  when softcam does not fail; and while a unit waits the decoder thread can always take its turn.
\<close>

theorem video_end_to_end:
  assumes "codec_drains K pending" and "range e \<subseteq> Collect SC" and "double_laws rnd" and "scale_laws scale"
    and "side_ok (canvas_side w 1920)" and "side_ok (canvas_side h 1080)"
    and "receiver_start True True (receiver_setFlip flip (newVideoReceiver [] w h fps)) = (True, p)"
    and "pipeline_run K rnd getContext scale e (ss, c, p) (ss', c', p')"
  shows "\<exists>d d' ns. m_decoder p = Some d \<and> m_onFrame d \<and> m_flipHorizontal d = flip \<and>
    avail ss = stream_of ns @ avail ss' \<and>
    subseq (decoded (rx p') @ s_naluQueue (rx p')) ns \<and>
    (length ns \<le> 120 \<longrightarrow> decoded (rx p') @ s_naluQueue (rx p') = ns) \<and>
    push_units K rnd getContext scale (decoded (rx p')) (c, d) = Some (c', d') \<and>
    m_decoder p' = Some d' \<and> on_frames p' = frames d' \<and>
    subseq (frames_sent (cam_calls p')) (map fst (frames d')) \<and>
    ((\<forall>x. SC x \<longrightarrow> softcam_works x) \<longrightarrow> frames_sent (cam_calls p') = map fst (frames d')) \<and>
    (s_naluQueue (rx p') \<noteq> [] \<longrightarrow> receiver_push K rnd getContext scale e (c', p') \<noteq> None)"
proof -
  let ?W = "canvas_side w 1920" and ?H = "canvas_side h 1080"
  obtain d where d: "m_decoder p = Some d" "m_onFrame d" "m_flipHorizontal d = flip"
    "pipeline_inv K rnd getContext scale SC ?W ?H (avail ss) (c, d) (ss, c, p)"
    by (rule pipeline_start [OF assms(5-7)])
  from pipeline_run_inv [OF assms(1-6,8) d(4)] obtain d' where
    inv: "stream_inv (avail ss) (ss', rx p')" "receiver_inv SC ?W ?H p'" "sr_running (rx p')"
    and d': "push_units K rnd getContext scale (decoded (rx p')) (c, d) = Some (c', d')"
      "m_decoder p' = Some d'" "on_frames p' = frames d'"
    by (auto simp: pipeline_inv_def)
  from inv(1) obtain ns where "avail ss = stream_of ns @ avail ss'"
    "subseq (decoded (rx p') @ s_naluQueue (rx p')) ns"
    "length ns \<le> 120 \<longrightarrow> decoded (rx p') @ s_naluQueue (rx p') = ns"
    by (auto simp: stream_inv_def kMaxQueueDepth_def)
  moreover have "subseq (frames_sent (cam_calls p')) (map fst (frames d'))"
    "(\<forall>x. SC x \<longrightarrow> softcam_works x) \<longrightarrow> frames_sent (cam_calls p') = map fst (frames d')"
    using inv(2) d'(3) by (simp_all add: receiver_inv_def)
  moreover have "s_naluQueue (rx p') \<noteq> [] \<longrightarrow> receiver_push K rnd getContext scale e (c', p') \<noteq> None"
  proof
    assume "s_naluQueue (rx p') \<noteq> []"
    then obtain nalu rest where "s_naluQueue (rx p') = nalu # rest" by (cases "s_naluQueue (rx p')") auto
    from receiver_push_step [OF assms(1,2) inv(3) this, of c' rnd getContext scale]
    show "receiver_push K rnd getContext scale e (c', p') \<noteq> None" by (metis option.distinct(1))
  qed
  ultimately show ?thesis using d d' by blast
qed

definition demo_codec :: "picture list codec_api" where
  "demo_codec = \<lparr>send_packet = (\<lambda>pkt c. (0, c @ [\<lparr>pic_width = 8, pic_height = 8, pic_format = 0, pic_id = length pkt\<rparr>])),
     receive_frame = (\<lambda>c. case c of [] \<Rightarrow> (-11, \<lparr>pic_width = 0, pic_height = 0, pic_format = 0, pic_id = 0\<rparr>, [])
       | f # fs \<Rightarrow> (0, f, fs))\<rparr>"

definition demo_started :: VideoReceiver where
  "demo_started = snd (receiver_start True True (receiver_setFlip True (newVideoReceiver [] 4 2 30)))"

definition demo_received :: VideoReceiver where
  "demo_received = demo_started\<lparr>rx := snd (the (receive_turn True [[0, 0], [0, 1, 101]] (rx demo_started)))\<rparr>"

definition demo_push :: "(picture list \<times> VideoReceiver) option" where
  "demo_push = receiver_push demo_codec (\<lambda>x. x) (\<lambda>d. True) demo_scale (\<lambda>p. demo_softcam) ([], demo_received)"

theorem video_end_to_end_witness:
  "\<exists>p' d'. demo_push = Some ([], p') \<and> m_decoder p' = Some d' \<and> decoded (rx p') = [[101]] \<and>
     frames_sent (cam_calls p') = map fst (frames d') \<and> length (frames d') = 1"
proof -
  have start: "receiver_start True True (receiver_setFlip True (newVideoReceiver [] 4 2 30)) = (True, demo_started)"
    by code_simp
  have net: "receive_turn True [[0, 0], [0, 1, 101]] (rx demo_started) = Some (Some [], rx demo_received)"
    by code_simp
  define p' where "p' = snd (the demo_push)"
  have push: "demo_push = Some ([], p')" unfolding p'_def by code_simp
  have "pipeline_run demo_codec (\<lambda>x. x) (\<lambda>d. True) demo_scale (\<lambda>p. demo_softcam)
      ([[0, 0], [0, 1, 101]], [], demo_started) ([], [], demo_started\<lparr>rx := rx demo_received\<rparr>)"
    by (rule pr_step [OF pr_refl ps_net [OF net]])
  moreover have "demo_started\<lparr>rx := rx demo_received\<rparr> = demo_received" by (simp add: demo_received_def)
  ultimately have run: "pipeline_run demo_codec (\<lambda>x. x) (\<lambda>d. True) demo_scale (\<lambda>p. demo_softcam)
      ([[0, 0], [0, 1, 101]], [], demo_started) ([], [], p')"
    using pr_step [OF _ ps_push [OF push [unfolded demo_push_def]]] by simp
  have drains: "codec_drains demo_codec length"
    by (auto simp: codec_drains_def demo_codec_def split: list.splits)
  have scale: "scale_laws demo_scale" by (simp add: scale_laws_def demo_scale_def)
  have sides: "side_ok (canvas_side 4 1920)" "side_ok (canvas_side 2 1080)"
    by (simp_all add: canvas_side_def side_ok_def)
  have env: "range (\<lambda>p :: VideoReceiver. demo_softcam) \<subseteq> Collect (\<lambda>x. x = demo_softcam)" by auto
  have "softcam_works demo_softcam" by (simp add: softcam_works_def demo_softcam_def)
  with video_end_to_end [OF drains env exact_double_laws scale sides start run] obtain d' where
    "m_decoder p' = Some d'" "frames_sent (cam_calls p') = map fst (frames d')" by auto
  moreover have "decoded (rx p') = [[101]]" "length (frames (the (m_decoder p'))) = 1"
    unfolding p'_def by code_simp+
  ultimately show ?thesis using push by auto
qed

end
