(* ===== verification/MdnsService.thy ===== *)
theory MdnsService
  imports Framing
begin

unbundle bit_operations_syntax

text \<open>
  \<^verbatim>\<open>src/core/MdnsService.{h,cpp}\<close>: the announcement of \<^verbatim>\<open>_iriseus._tcp.local\<close> on the local
  network. The choice of the address, the records, the answers to questions and the loop are
  modelled; the mdns library, the resolver and the sockets are parameters. The additional records
  are local arrays that the code does not initialise and whose class it never sets: what is in
  these fields is an argument wherever such an array is made. An address
  (\<^verbatim>\<open>s_addr\<close>, in network order) is its four bytes, so \<^verbatim>\<open>ntohl\<close> and \<^verbatim>\<open>htonl\<close> are
  \<open>be32\<close> and \<open>be32_bytes\<close> on every machine. The build does not compile this file into the
  program at present, and nothing creates the service.
\<close>

section \<open>The address\<close>

definition isLoopback :: "u32 \<Rightarrow> bool" where
  "isLoopback ip \<longleftrightarrow> drop_bit 24 ip = 127"

definition isLocal :: "u32 \<Rightarrow> bool" where
  "isLocal ip \<longleftrightarrow> drop_bit 24 ip = 10 \<or>
     (drop_bit 24 ip = 192 \<and> drop_bit 16 ip AND 0xFF = 168) \<or>
     (drop_bit 24 ip = 172 \<and> 16 \<le> drop_bit 16 ip AND 0xFF \<and> drop_bit 16 ip AND 0xFF \<le> 31)"

definition no_address :: bytes where "no_address = [0, 0, 0, 0]"

text \<open>One turn of the loop over the addresses; the state is \<^verbatim>\<open>(preferred, fallback)\<close>.\<close>

definition pick_address :: "bytes \<Rightarrow> bytes \<times> bytes \<Rightarrow> bytes \<times> bytes" where
  "pick_address s_addr = (\<lambda>(preferred, fallback).
     let ip = be32 s_addr in
     if isLoopback ip then (preferred, fallback)
     else
       let preferred' = (if isLocal ip \<and> preferred = no_address then be32_bytes ip else preferred);
           fallback' = (if \<not> isLocal ip \<and> fallback = no_address then be32_bytes ip else fallback)
       in (preferred', fallback'))"

text \<open>\<^verbatim>\<open>getLocalIp\<close>: \<open>None\<close> when the host name cannot be resolved.\<close>

definition getLocalIp :: "bytes list option \<Rightarrow> bytes" where
  "getLocalIp res =
     (case res of
        None \<Rightarrow> no_address
      | Some addrs \<Rightarrow>
          let (preferred, fallback) = fold pick_address addrs (no_address, no_address)
          in if preferred \<noteq> no_address then preferred else fallback)"

section \<open>Records and answers\<close>

text \<open>The record types and entry kinds of the mdns library.\<close>

record mdns_types =
  rt_ptr :: u16
  rt_srv :: u16
  rt_txt :: u16
  rt_a :: u16

datatype mdns_entry = EntryQuestion | EntryAnswer | EntryAuthority | EntryAdditional

datatype mdns_data =
    PtrData string
  | SrvData string u16 u16 u16
  | TxtData string string
  | AData bytes

record mdns_record =
  mr_name :: string
  mr_type :: u16
  mr_class :: u16
  mr_data :: mdns_data
  mr_ttl :: u32

datatype mdns_event =
    AnnounceMulticast mdns_record "mdns_record list"
  | AnswerMulticast mdns_record "mdns_record list"
  | GoodbyeMulticast mdns_record "mdns_record list"

definition kServiceType :: string where "kServiceType = ''_iriseus._tcp.local.''"

record ServiceContext =
  serviceInst :: string
  sc_hostname :: string
  txtRecord :: string
  sc_port :: u16
  localIp :: bytes

text \<open>The first record of a message is value-initialised, so its class is 0; the others get theirs as \<open>cls\<close>.\<close>

definition ptr_record :: "mdns_types \<Rightarrow> ServiceContext \<Rightarrow> u32 \<Rightarrow> mdns_record" where
  "ptr_record T ctx ttl = \<lparr>mr_name = kServiceType, mr_type = rt_ptr T, mr_class = 0, mr_data = PtrData (serviceInst ctx), mr_ttl = ttl\<rparr>"

definition srv_record :: "mdns_types \<Rightarrow> ServiceContext \<Rightarrow> u16 \<Rightarrow> u32 \<Rightarrow> mdns_record" where
  "srv_record T ctx cls ttl = \<lparr>mr_name = serviceInst ctx, mr_type = rt_srv T, mr_class = cls,
     mr_data = SrvData (sc_hostname ctx) (sc_port ctx) 0 0, mr_ttl = ttl\<rparr>"

definition txt_record :: "mdns_types \<Rightarrow> ServiceContext \<Rightarrow> u16 \<Rightarrow> u32 \<Rightarrow> mdns_record" where
  "txt_record T ctx cls ttl = \<lparr>mr_name = serviceInst ctx, mr_type = rt_txt T, mr_class = cls,
     mr_data = TxtData ''version'' ''1'', mr_ttl = ttl\<rparr>"

definition a_record :: "mdns_types \<Rightarrow> ServiceContext \<Rightarrow> u16 \<Rightarrow> u32 \<Rightarrow> mdns_record" where
  "a_record T ctx cls ttl = \<lparr>mr_name = sc_hostname ctx, mr_type = rt_a T, mr_class = cls, mr_data = AData (localIp ctx), mr_ttl = ttl\<rparr>"

text \<open>The array \<^verbatim>\<open>additional[3]\<close>, with the classes that happen to be in it.\<close>

type_synonym classes = "u16 \<times> u16 \<times> u16"

definition additional :: "mdns_types \<Rightarrow> ServiceContext \<Rightarrow> classes \<Rightarrow> u32 \<Rightarrow> mdns_record list" where
  "additional T ctx = (\<lambda>(c0, c1, c2) ttl. [srv_record T ctx c0 ttl, txt_record T ctx c1 ttl, a_record T ctx c2 ttl])"

text \<open>
  The callback of the library for every record it parses. It looks at the kind of the entry and
  at the type that is asked for, not at the name. An entry comes with the classes that the
  callback's array holds at that call.
\<close>

type_synonym entry = "mdns_entry \<times> string \<times> u16 \<times> classes"

definition mdnsCallback :: "mdns_types \<Rightarrow> ServiceContext \<Rightarrow> entry \<Rightarrow> mdns_event list" where
  "mdnsCallback T ctx = (\<lambda>(entry, name, rtype, cs).
     if entry \<noteq> EntryQuestion then []
     else if rtype = rt_ptr T then [AnswerMulticast (ptr_record T ctx 120) (additional T ctx cs 120)]
     else if rtype = rt_srv T then [AnswerMulticast (srv_record T ctx 0 120) []]
     else if rtype = rt_a T then [AnswerMulticast (a_record T ctx 0 120) []]
     else [])"

section \<open>The service\<close>

record MdnsService =
  md_deviceName :: string
  md_wsPort :: u16
  md_running :: bool

definition mdns_start :: "MdnsService \<Rightarrow> bool \<times> MdnsService" where
  "mdns_start s = (True, s\<lparr>md_running := True\<rparr>)"

definition mdns_stop :: "MdnsService \<Rightarrow> MdnsService" where
  "mdns_stop s = (if \<not> md_running s then s else s\<lparr>md_running := False\<rparr>)"

definition service_context :: "MdnsService \<Rightarrow> bytes \<Rightarrow> ServiceContext" where
  "service_context s ip =
     (let hostname = md_deviceName s @ ''.local.'';
          inst = md_deviceName s @ ''.'' @ kServiceType
      in \<lparr>serviceInst = inst, sc_hostname = hostname, txtRecord = ''version=1'', sc_port = md_wsPort s, localIp = ip\<rparr>)"

text \<open>
  One turn of the listening loop: \<open>None\<close> when \<^verbatim>\<open>select\<close> timed out or failed, otherwise the
  entries of the packet. The loop runs for the given turns, until the flag is taken away.
\<close>

definition listen_turn :: "mdns_types \<Rightarrow> ServiceContext \<Rightarrow> entry list option \<Rightarrow> mdns_event list" where
  "listen_turn T ctx ready = (case ready of None \<Rightarrow> [] | Some entries \<Rightarrow> concat (map (mdnsCallback T ctx) entries))"

definition mdns_runLoop ::
  "mdns_types \<Rightarrow> bytes list option \<Rightarrow> bool \<Rightarrow> classes \<Rightarrow> entry list option list \<Rightarrow>
   MdnsService \<Rightarrow> mdns_event list" where
  "mdns_runLoop T res socket_ok cs turns s =
     (let ip = getLocalIp res in
      if ip = no_address then []
      else if \<not> socket_ok then []
      else
        let ctx = service_context s ip
        in [AnnounceMulticast (ptr_record T ctx 120) (additional T ctx cs 120)] @
           concat (map (listen_turn T ctx) turns) @
           [GoodbyeMulticast (ptr_record T ctx 0) (additional T ctx cs 0)])"

section \<open>The address that is announced\<close>

text \<open>The reference: private networks in octets.\<close>

fun private_octets :: "bytes \<Rightarrow> bool" where
  "private_octets [b0, b1, b2, b3] \<longleftrightarrow>
     b0 = 10 \<or> (b0 = 192 \<and> b1 = 168) \<or> (b0 = 172 \<and> 16 \<le> b1 \<and> b1 \<le> 31)"
| "private_octets _ \<longleftrightarrow> False"

fun loopback_octets :: "bytes \<Rightarrow> bool" where
  "loopback_octets [b0, b1, b2, b3] \<longleftrightarrow> b0 = 127"
| "loopback_octets _ \<longleftrightarrow> False"

lemma be32_octets:
  "drop_bit 24 (be32 [b0, b1, b2, b3]) = (ucast b0 :: u32)"
  "drop_bit 16 (be32 [b0, b1, b2, b3]) AND 0xFF = (ucast b1 :: u32)"
proof -
  show "drop_bit 24 (be32 [b0, b1, b2, b3]) = (ucast b0 :: u32)"
    by (rule bit_word_eqI) (auto simp: bit_drop_bit_eq be32_bit bit_simps dest: bit_imp_le_length)
  show "drop_bit 16 (be32 [b0, b1, b2, b3]) AND 0xFF = (ucast b1 :: u32)"
    unfolding and_0xFF_u32
    by (rule bit_word_eqI) (auto simp: bit_drop_bit_eq be32_bit bit_simps dest: bit_imp_le_length)
qed

lemma ucast_u8_u32:
  "(ucast (b :: u8) :: u32) = numeral n \<longleftrightarrow> unat b = unat (numeral n :: u32)"
  "numeral n \<le> (ucast (b :: u8) :: u32) \<longleftrightarrow> unat (numeral n :: u32) \<le> unat b"
  "(ucast (b :: u8) :: u32) \<le> numeral n \<longleftrightarrow> unat b \<le> unat (numeral n :: u32)"
proof -
  have "unat b < 2 ^ LENGTH(8)" by (rule unsigned_less)
  then have "unat (ucast b :: u32) = unat b" by (simp add: unsigned_ucast_eq take_bit_nat_eq_self)
  then show "(ucast b :: u32) = numeral n \<longleftrightarrow> unat b = unat (numeral n :: u32)"
    "numeral n \<le> (ucast b :: u32) \<longleftrightarrow> unat (numeral n :: u32) \<le> unat b"
    "(ucast b :: u32) \<le> numeral n \<longleftrightarrow> unat b \<le> unat (numeral n :: u32)"
    by (simp_all only: word_unat_eq_iff word_le_nat_alt)
qed

lemma octets_code:
  assumes "length a = 4"
  shows "isLoopback (be32 a) \<longleftrightarrow> loopback_octets a" and "isLocal (be32 a) \<longleftrightarrow> private_octets a"
proof -
  obtain b0 b1 b2 b3 where a: "a = [b0, b1, b2, b3]"
    using assms by (auto simp: numeral_eq_Suc length_Suc_conv)
  show "isLoopback (be32 a) \<longleftrightarrow> loopback_octets a"
    unfolding a isLoopback_def be32_octets ucast_u8_u32 by (simp add: word_unat_eq_iff)
  show "isLocal (be32 a) \<longleftrightarrow> private_octets a"
    unfolding a isLocal_def be32_octets ucast_u8_u32 by (simp add: word_unat_eq_iff word_le_nat_alt)
qed

text \<open>
  The loop is a search: the first private address, else the first other one that is neither
  loopback nor zero.
\<close>

definition public_octets :: "bytes \<Rightarrow> bool" where
  "public_octets a \<longleftrightarrow> \<not> loopback_octets a \<and> \<not> private_octets a \<and> a \<noteq> no_address"

definition first_or :: "bytes \<Rightarrow> ('a \<Rightarrow> bool) \<Rightarrow> ('a \<Rightarrow> bytes) \<Rightarrow> 'a list \<Rightarrow> bytes" where
  "first_or dflt P g xs = (case List.find P xs of None \<Rightarrow> dflt | Some a \<Rightarrow> g a)"

lemma private_nonzero: "private_octets a \<Longrightarrow> a \<noteq> no_address \<and> \<not> loopback_octets a"
  by (induction a rule: private_octets.induct) (auto simp: no_address_def)

lemma pick_address_octets:
  assumes "length a = 4"
  shows "pick_address a (p, f) =
    (if private_octets a \<and> p = no_address then a else p, if public_octets a \<and> f = no_address then a else f)"
  using octets_code [OF assms] be32_bytes_be32 [OF assms] private_nonzero [of a]
  by (auto simp: pick_address_def public_octets_def Let_def)

lemma fold_pick_address:
  "list_all (\<lambda>a. length a = 4) addrs \<Longrightarrow>
   fold pick_address addrs (p, f) =
     (if p = no_address then first_or no_address private_octets id addrs else p,
      if f = no_address then first_or no_address public_octets id addrs else f)"
proof (induction addrs arbitrary: p f)
  case Nil
  show ?case by (simp add: first_or_def)
next
  case (Cons a addrs)
  then have len: "length a = 4" "list_all (\<lambda>a. length a = 4) addrs" by simp_all
  have nz: "private_octets a \<Longrightarrow> a \<noteq> no_address" "public_octets a \<Longrightarrow> a \<noteq> no_address"
    using private_nonzero by (auto simp: public_octets_def)
  show ?case
    using nz by (auto simp: Cons.IH [OF len(2)] pick_address_octets [OF len(1)] first_or_def)
qed

lemma getLocalIp_search:
  assumes "list_all (\<lambda>a. length a = 4) addrs"
  shows "getLocalIp (Some addrs) =
    (case List.find private_octets addrs of Some a \<Rightarrow> a
     | None \<Rightarrow> (case List.find public_octets addrs of Some a \<Rightarrow> a | None \<Rightarrow> no_address))"
proof (cases "List.find private_octets addrs")
  case None
  then show ?thesis by (simp add: getLocalIp_def fold_pick_address [OF assms] first_or_def split: option.split)
next
  case (Some a)
  then have "a \<noteq> no_address" using private_nonzero by (auto simp: find_Some_iff)
  with Some show ?thesis by (simp add: getLocalIp_def fold_pick_address [OF assms] first_or_def)
qed

section \<open>Properties\<close>

text \<open>The sections of a message, and what a receiver reads from them.\<close>

fun event_records :: "mdns_event \<Rightarrow> mdns_record list" where
  "event_records (AnnounceMulticast r rs) = r # rs"
| "event_records (AnswerMulticast r rs) = r # rs"
| "event_records (GoodbyeMulticast r rs) = r # rs"

definition is_answer :: "mdns_event \<Rightarrow> bool" where
  "is_answer ev \<longleftrightarrow> (\<exists>r rs. ev = AnswerMulticast r rs)"

text \<open>A record up to the class, which the code leaves open.\<close>

definition classless :: "mdns_record \<Rightarrow> mdns_record" where
  "classless r = r\<lparr>mr_class := 0\<rparr>"

definition service_records :: "mdns_types \<Rightarrow> ServiceContext \<Rightarrow> mdns_record list" where
  "service_records T ctx = ptr_record T ctx 120 # additional T ctx (0, 0, 0) 120"

lemma classless_records [simp]:
  "classless (ptr_record T ctx ttl) = ptr_record T ctx ttl"
  "map classless (additional T ctx cs ttl) = additional T ctx (0, 0, 0) ttl"
  "map (\<lambda>r. r\<lparr>mr_ttl := n\<rparr>) (additional T ctx cs ttl) = additional T ctx cs n"
  "ptr_record T ctx ttl\<lparr>mr_ttl := n\<rparr> = ptr_record T ctx n"
  by (simp_all add: classless_def ptr_record_def additional_def srv_record_def txt_record_def a_record_def split: prod.split)

lemma callback_records:
  assumes "ev \<in> set (mdnsCallback T ctx q)"
  shows "is_answer ev \<and> set (map classless (event_records ev)) \<subseteq> set (service_records T ctx) \<and>
    mr_class (hd (event_records ev)) = 0"
proof -
  have fields: "classless (srv_record T ctx 0 120) \<in> set (service_records T ctx)"
    "classless (a_record T ctx 0 120) \<in> set (service_records T ctx)"
    "mr_class (ptr_record T ctx 120) = 0" "mr_class (srv_record T ctx 0 120) = 0" "mr_class (a_record T ctx 0 120) = 0"
    by (simp_all add: service_records_def additional_def classless_def ptr_record_def srv_record_def a_record_def)
  obtain cs where "ev \<in> {AnswerMulticast (ptr_record T ctx 120) (additional T ctx cs 120),
      AnswerMulticast (srv_record T ctx 0 120) [], AnswerMulticast (a_record T ctx 0 120) []}"
    using assms by (auto simp: mdnsCallback_def split: if_splits prod.splits)
  then consider (ptr) "ev = AnswerMulticast (ptr_record T ctx 120) (additional T ctx cs 120)"
    | (srv) "ev = AnswerMulticast (srv_record T ctx 0 120) []" | (a) "ev = AnswerMulticast (a_record T ctx 0 120) []"
    by auto
  then show ?thesis
  proof cases
    case ptr
    then have "map classless (event_records ev) = service_records T ctx" by (simp add: service_records_def)
    then show ?thesis using ptr fields(3) by (simp only: is_answer_def subset_refl) simp
  qed (use fields in \<open>simp_all add: is_answer_def\<close>)
qed

text \<open>The three parts of the loop's messages, and the answer to a PTR question.\<close>

lemma service_messages:
  assumes "ctx = service_context s (getLocalIp (Some addrs))" and "getLocalIp (Some addrs) \<noteq> no_address"
  obtains hello bye where
    "mdns_runLoop T (Some addrs) True cs turns s = [hello] @ concat (map (listen_turn T ctx) turns) @ [bye]"
    "map classless (event_records hello) = service_records T ctx"
    "event_records bye = map (\<lambda>r. r\<lparr>mr_ttl := 0\<rparr>) (event_records hello)"
proof
  show "mdns_runLoop T (Some addrs) True cs turns s = [AnnounceMulticast (ptr_record T ctx 120) (additional T ctx cs 120)] @
      concat (map (listen_turn T ctx) turns) @ [GoodbyeMulticast (ptr_record T ctx 0) (additional T ctx cs 0)]"
    using assms(2) by (simp add: mdns_runLoop_def assms(1) Let_def)
qed (simp_all add: service_records_def)

lemma ptr_question_answered:
  assumes "Some entries \<in> set turns" and "(EntryQuestion, name, rt_ptr T, cs) \<in> set entries"
  shows "\<exists>ev \<in> set (concat (map (listen_turn T ctx) turns)). map classless (event_records ev) = service_records T ctx"
proof -
  let ?ev = "AnswerMulticast (ptr_record T ctx 120) (additional T ctx cs 120)"
  have "?ev \<in> set (mdnsCallback T ctx (EntryQuestion, name, rt_ptr T, cs))" by (simp add: mdnsCallback_def)
  then have "?ev \<in> set (listen_turn T ctx (Some entries))" using assms(2) by (auto simp: listen_turn_def)
  with assms(1) show ?thesis by (intro bexI [of _ ?ev]) (auto simp: service_records_def)
qed

text \<open>
  The class of the additional records is whatever the stack held: any class at all goes into the answer.
\<close>

lemma uninitialised_class_sent:
  "event_records (hd (mdnsCallback T ctx (EntryQuestion, name, rt_ptr T, (c, c, c)))) =
     [ptr_record T ctx 120, srv_record T ctx c 120, txt_record T ctx c 120, a_record T ctx c 120]"
  by (simp add: mdnsCallback_def additional_def)


definition demo_types :: mdns_types where
  "demo_types = \<lparr>rt_ptr = 12, rt_srv = 33, rt_txt = 16, rt_a = 1\<rparr>"


end
